(* ===== verification/Prelude.thy ===== *)
theory Prelude
  imports "HOL-Library.Word"
begin

text \<open>
  Shared vocabulary of the development: the C machine as the router sees it.

  \<^item> machine integers (\<open>byte\<close>, \<open>u16\<close>, \<open>u32\<close>) and fixed-size byte arrays (\<open>'n barr\<close>, the C type
    \<^verbatim>\<open>unsigned char a[n]\<close>);
  \<^item> byte buffers as lists of bytes, with \<open>seg\<close> (read a region) and \<open>blit\<close> (\<^verbatim>\<open>memcpy\<close> into a region);
  \<^item> loads and stores of 16- and 32-bit integers in the byte order of the host. The Makefile
    builds for Linux with \<^verbatim>\<open>__BYTE_ORDER == __LITTLE_ENDIAN\<close>, so a field of a packed struct is read
    with its first byte as the least significant one, and \<open>htons\<close> and \<open>htonl\<close> swap bytes;
  \<^item> the C string functions the router calls (\<open>strncpy\<close>, \<open>strncmp\<close>);
  \<^item> results of operations that can go wrong: \<open>'a res\<close> is either a fault (a null dereference,
    an access outside a buffer, a use of freed memory, a failed assertion, recursion that does
    not end) or a value.

  The collections \<open>buf_simps\<close> (regions of buffers), \<open>wire_simps\<close> (packed structs) and
  \<open>res_simps\<close> (results) carry the simplification of the component proofs.
\<close>

unbundle bit_operations_syntax

named_theorems buf_simps \<open>reading and writing regions of a buffer\<close>
named_theorems wire_simps \<open>encoding and decoding packed structs\<close>
named_theorems res_simps \<open>sequencing of operations that can fault\<close>

section \<open>Machine integers\<close>

type_synonym byte = "8 word"
type_synonym u16 = "16 word"
type_synonym u32 = "32 word"

text \<open>A C string is the bytes before its terminating zero.\<close>
type_synonym cstring = "byte list"

section \<open>Faults and results\<close>

datatype fault =
    Null_deref        \<comment> \<open>a null pointer is dereferenced\<close>
  | Oob_access        \<comment> \<open>a read or write outside its buffer\<close>
  | Use_after_free    \<comment> \<open>memory is used after it was freed\<close>
  | Assert_fail       \<comment> \<open>an \<^verbatim>\<open>assert\<close> fails\<close>
  | Out_of_fuel       \<comment> \<open>the recursion is deeper than the bound given to the model\<close>

type_synonym 'a res = "fault + 'a"

definition bnd :: "'a res \<Rightarrow> ('a \<Rightarrow> 'b res) \<Rightarrow> 'b res" where
  "bnd m f = (case m of Inl e \<Rightarrow> Inl e | Inr x \<Rightarrow> f x)"

definition guard :: "fault \<Rightarrow> bool \<Rightarrow> unit res" where
  "guard e b = (if b then Inr () else Inl e)"

definition deref :: "'a option \<Rightarrow> 'a res" where
  "deref p = (case p of None \<Rightarrow> Inl Null_deref | Some x \<Rightarrow> Inr x)"

lemma bnd_Inr [simp, res_simps]: "bnd (Inr x) f = f x"
  by (simp add: bnd_def)

lemma bnd_Inl [simp, res_simps]: "bnd (Inl e) f = Inl e"
  by (simp add: bnd_def)

lemma guard_True [simp, res_simps]: "guard e True = Inr ()"
  by (simp add: guard_def)

lemma guard_False [simp, res_simps]: "guard e False = Inl e"
  by (simp add: guard_def)

lemma deref_Some [simp, res_simps]: "deref (Some x) = Inr x"
  by (simp add: deref_def)

lemma deref_None [simp, res_simps]: "deref None = Inl Null_deref"
  by (simp add: deref_def)

lemma bnd_cong [fundef_cong]:
  "m = m' \<Longrightarrow> (\<And>x. m' = Inr x \<Longrightarrow> f x = g x) \<Longrightarrow> bnd m f = bnd m' g"
  by (cases m') simp_all

lemma bnd_assoc: "bnd (bnd m f) g = bnd m (\<lambda>x. bnd (f x) g)"
  by (cases m) simp_all

lemma bnd_if: "bnd (if b then m else n) f = (if b then bnd m f else bnd n f)"
  by simp

lemma bnd_eq_Inr [simp]: "bnd m f = Inr y \<longleftrightarrow> (\<exists>x. m = Inr x \<and> f x = Inr y)"
  by (cases m) simp_all

lemma guard_eq_Inr [simp]: "guard e b = Inr u \<longleftrightarrow> b"
  by (simp add: guard_def)

lemma deref_eq_Inr [simp]: "deref p = Inr x \<longleftrightarrow> p = Some x"
  by (cases p) simp_all

text \<open>Consecutive calls of a fallible operation on a list of arguments.\<close>

primrec each :: "('c \<Rightarrow> 'b \<Rightarrow> 'c res) \<Rightarrow> 'c \<Rightarrow> 'b list \<Rightarrow> 'c res" where
  "each f c [] = Inr c"
| "each f c (b # bs) = bnd (f c b) (\<lambda>c. each f c bs)"

lemma each_append: "each f c (xs @ ys) = bnd (each f c xs) (\<lambda>c. each f c ys)"
  by (induction xs arbitrary: c) (simp_all add: bnd_assoc)

section \<open>Regions of a buffer\<close>

definition seg :: "nat \<Rightarrow> nat \<Rightarrow> 'a list \<Rightarrow> 'a list" where
  "seg off n xs = take n (drop off xs)"

definition blit :: "nat \<Rightarrow> 'a list \<Rightarrow> 'a list \<Rightarrow> 'a list" where
  "blit off ys xs = take off xs @ ys @ drop (off + length ys) xs"

lemma length_seg [simp]: "off + n \<le> length xs \<Longrightarrow> length (seg off n xs) = n"
  by (simp add: seg_def)

lemma length_blit [simp]: "off + length ys \<le> length xs \<Longrightarrow> length (blit off ys xs) = length xs"
  by (simp add: blit_def)

lemma seg_all [simp]: "seg 0 (length xs) xs = xs"
  by (simp add: seg_def)

lemma seg_0_take: "seg 0 n xs = take n xs"
  by (simp add: seg_def)

lemma seg_seg [buf_simps]: "a + n \<le> m \<Longrightarrow> seg a n (seg off m xs) = seg (off + a) n xs"
  by (simp add: seg_def drop_take min_def add.commute)

lemma nth_seg [buf_simps]: "i < n \<Longrightarrow> off + n \<le> length xs \<Longrightarrow> seg off n xs ! i = xs ! (off + i)"
  by (simp add: seg_def)

lemma seg_append_seg:
  "b = a + n \<Longrightarrow> seg a n xs @ seg b m xs = seg a (n + m) xs"
  by (simp add: seg_def) (metis add.commute drop_drop take_add)

lemma seg_blit_same [buf_simps]:
  "n = length ys \<Longrightarrow> off + n \<le> length xs \<Longrightarrow> seg off n (blit off ys xs) = ys"
  by (simp add: seg_def blit_def)

lemma seg_blit_before [buf_simps]:
  "a + n \<le> off \<Longrightarrow> off + length ys \<le> length xs \<Longrightarrow> seg a n (blit off ys xs) = seg a n xs"
  by (simp add: seg_def blit_def drop_take)

lemma seg_blit_after [buf_simps]:
  assumes "off + length ys \<le> a" and "off + length ys \<le> length xs"
  shows "seg a n (blit off ys xs) = seg a n xs"
proof -
  have "drop a (blit off ys xs) = drop (a - (off + length ys)) (drop (off + length ys) xs)"
    using assms by (simp add: blit_def)
  with assms show ?thesis by (simp add: seg_def)
qed

lemma seg_blit_inside [buf_simps]:
  assumes "off \<le> a" and "a + n \<le> off + length ys" and "off + length ys \<le> length xs"
  shows "seg a n (blit off ys xs) = seg (a - off) n ys"
  using assms by (simp add: seg_def blit_def)

lemma blit_blit_same [buf_simps]:
  "length ys = length zs \<Longrightarrow> off + length zs \<le> length xs \<Longrightarrow>
   blit off ys (blit off zs xs) = blit off ys xs"
  by (simp add: blit_def)

lemma blit_seg_same [buf_simps]: "off + n \<le> length xs \<Longrightarrow> blit off (seg off n xs) xs = xs"
  by (simp add: blit_def seg_def) (metis append_take_drop_id add.commute drop_drop)

lemma nth_blit_outside:
  assumes "i < off \<or> off + length ys \<le> i" and "off + length ys \<le> length xs" and "i < length xs"
  shows "blit off ys xs ! i = xs ! i"
  using assms by (auto simp: blit_def nth_append)

text \<open>A buffer is the concatenation of its regions; the form in which packed structs are written.\<close>

lemma seg_split:
  "seg a n xs = seg a m xs @ seg (a + m) (n - m) xs" if "m \<le> n"
  using that by (simp add: seg_append_seg)

section \<open>Fixed-size byte arrays\<close>

typedef (overloaded) ('n::len) barr = "{xs :: byte list. length xs = LENGTH('n)}"
  morphisms list_of Abs_barr
  by (rule exI [of _ "replicate LENGTH('n) 0"]) simp

text \<open>
  \<open>barr_of xs\<close> is the array that holds the first bytes of \<open>xs\<close>, filled up with zeros: what
  \<^verbatim>\<open>strncpy\<close> leaves in its target, and \<^verbatim>\<open>memcpy\<close> when \<open>xs\<close> has the array's length.
\<close>

definition barr_of :: "byte list \<Rightarrow> ('n::len) barr" where
  "barr_of xs = Abs_barr (take LENGTH('n) (xs @ replicate LENGTH('n) 0))"

lemma length_list_of [simp]: "length (list_of (a :: ('n::len) barr)) = LENGTH('n)"
  using list_of [of a] by simp

lemma list_of_barr_of:
  "list_of (barr_of xs :: ('n::len) barr) = take LENGTH('n) (xs @ replicate LENGTH('n) 0)"
  by (simp add: barr_of_def Abs_barr_inverse)

lemma list_of_barr_of_exact [simp]:
  "length xs = LENGTH('n) \<Longrightarrow> list_of (barr_of xs :: ('n::len) barr) = xs"
  by (simp add: list_of_barr_of)

lemma barr_of_list_of [simp]: "barr_of (list_of a) = (a :: ('n::len) barr)"
  by (simp add: list_of_inject [symmetric])

lemma barr_eqI: "list_of a = list_of b \<Longrightarrow> a = b"
  by (simp add: list_of_inject)

instantiation barr :: (len) equal
begin

definition equal_barr :: "'a barr \<Rightarrow> 'a barr \<Rightarrow> bool" where
  "equal_barr a b \<longleftrightarrow> list_of a = list_of b"

instance
  by standard (simp add: equal_barr_def list_of_inject)

end

section \<open>Loads and stores\<close>

definition st16 :: "u16 \<Rightarrow> byte list" where
  "st16 w = [ucast w, ucast (drop_bit 8 w)]"

definition st32 :: "u32 \<Rightarrow> byte list" where
  "st32 w = [ucast w, ucast (drop_bit 8 w), ucast (drop_bit 16 w), ucast (drop_bit 24 w)]"

definition u16_at :: "nat \<Rightarrow> byte list \<Rightarrow> u16" where
  "u16_at k bs = ucast (bs ! k) OR push_bit 8 (ucast (bs ! (k + 1)))"

definition u32_at :: "nat \<Rightarrow> byte list \<Rightarrow> u32" where
  "u32_at k bs = ucast (bs ! k) OR push_bit 8 (ucast (bs ! (k + 1)))
     OR push_bit 16 (ucast (bs ! (k + 2))) OR push_bit 24 (ucast (bs ! (k + 3)))"

definition arr_at :: "nat \<Rightarrow> byte list \<Rightarrow> ('n::len) barr" where
  "arr_at k bs = barr_of (seg k LENGTH('n) bs)"

lemma unat_byte_less [simp]: "unat (b :: byte) < 256"
  using unsigned_less [of b, where ?'a = nat] by simp

lemma unat_u16_less [simp]: "unat (w :: u16) < 65536"
  using unsigned_less [of w, where ?'a = nat] by simp

lemma unat_u32_less [simp]: "unat (w :: u32) < 4294967296"
  using unsigned_less [of w, where ?'a = nat] by simp

lemma unat_ucast_byte_u32 [simp]: "unat (ucast (b :: byte) :: u32) = unat b"
  by (simp add: unsigned_ucast_eq take_bit_nat_eq_self order_less_trans [OF unat_byte_less])

lemma bit_byte_high: "8 \<le> n \<Longrightarrow> bit (b :: byte) n = False"
  by (simp add: impossible_bit)

lemma length_st16 [simp]: "length (st16 w) = 2"
  by (simp add: st16_def)

lemma length_st32 [simp]: "length (st32 w) = 4"
  by (simp add: st32_def)

lemma seg_st16 [wire_simps]: "k + 2 \<le> length bs \<Longrightarrow> st16 (u16_at k bs) = seg k 2 bs"
proof -
  assume k: "k + 2 \<le> length bs"
  have "st16 (u16_at k bs) = [bs ! k, bs ! (k + 1)]"
    by (auto simp: st16_def u16_at_def bit_simps bit_byte_high intro!: bit_word_eqI)
  also have "\<dots> = seg k 2 bs"
    using k by (auto simp: seg_def list_eq_iff_nth_eq nth_Cons split: nat.splits)
  finally show ?thesis .
qed

lemma seg_st32 [wire_simps]: "k + 4 \<le> length bs \<Longrightarrow> st32 (u32_at k bs) = seg k 4 bs"
proof -
  assume k: "k + 4 \<le> length bs"
  have "st32 (u32_at k bs) = [bs ! k, bs ! (k + 1), bs ! (k + 2), bs ! (k + 3)]"
    by (auto simp: st32_def u32_at_def bit_simps bit_byte_high intro!: bit_word_eqI)
  also have "\<dots> = seg k 4 bs"
    using k by (auto simp: seg_def list_eq_iff_nth_eq nth_Cons numeral_eq_Suc split: nat.splits)
  finally show ?thesis .
qed

lemma seg_st8 [wire_simps]: "k + 1 \<le> length bs \<Longrightarrow> [bs ! k] = seg k 1 bs"
  by (simp add: seg_def take_Suc_conv_app_nth)

lemma seg_list_of [wire_simps]:
  "k + LENGTH('n) \<le> length bs \<Longrightarrow> list_of (arr_at k bs :: ('n::len) barr) = seg k LENGTH('n) bs"
  by (simp add: arr_at_def)

lemma u16_at_st16 [wire_simps]: "u16_at 0 (st16 w) = w" "u16_at 0 (st16 w @ bs) = w"
  by (auto simp: st16_def u16_at_def bit_simps intro!: bit_word_eqI)

lemma u32_at_st32 [wire_simps]: "u32_at 0 (st32 w @ bs) = w" "u32_at 0 (st32 w) = w"
proof -
  show *: "u32_at 0 (st32 w @ bs) = w" for bs
  proof (rule bit_word_eqI)
    fix n assume "n < LENGTH(32)"
    then consider "n < 8" | "8 \<le> n" "n < 16" | "16 \<le> n" "n < 24" | "24 \<le> n" "n < 32"
      by fastforce
    then show "bit (u32_at 0 (st32 w @ bs)) n \<longleftrightarrow> bit w n"
      by cases (auto simp: st32_def u32_at_def bit_simps)
  qed
  show "u32_at 0 (st32 w) = w" using * [of "[]"] by simp
qed

lemma arr_at_list_of [wire_simps]:
  "arr_at 0 (list_of a) = (a :: ('n::len) barr)" "arr_at 0 (list_of a @ bs) = a"
  by (simp_all add: arr_at_def seg_def)

lemma u16_at_append [wire_simps]: "length xs \<le> k \<Longrightarrow> u16_at k (xs @ ys) = u16_at (k - length xs) ys"
  by (simp add: u16_at_def nth_append Suc_diff_le)

lemma u32_at_append [wire_simps]: "length xs \<le> k \<Longrightarrow> u32_at k (xs @ ys) = u32_at (k - length xs) ys"
  by (simp add: u32_at_def nth_append Suc_diff_le)

lemma arr_at_append [wire_simps]: "length xs \<le> k \<Longrightarrow> arr_at k (xs @ ys) = arr_at (k - length xs) ys"
  by (simp add: arr_at_def seg_def)

lemma u16_at_Cons [wire_simps]: "0 < k \<Longrightarrow> u16_at k (x # ys) = u16_at (k - 1) ys"
  by (cases k) (simp_all add: u16_at_def)

lemma u32_at_Cons [wire_simps]: "0 < k \<Longrightarrow> u32_at k (x # ys) = u32_at (k - 1) ys"
  by (cases k) (simp_all add: u32_at_def numeral_eq_Suc)

lemma arr_at_Cons [wire_simps]: "0 < k \<Longrightarrow> arr_at k (x # ys) = arr_at (k - 1) ys"
  by (cases k) (simp_all add: arr_at_def seg_def)

section \<open>Byte order\<close>

definition bswap16 :: "u16 \<Rightarrow> u16" where
  "bswap16 w = push_bit 8 w OR drop_bit 8 w"

definition bswap32 :: "u32 \<Rightarrow> u32" where
  "bswap32 w = u32_at 0 (rev (st32 w))"

abbreviation htons :: "u16 \<Rightarrow> u16" where "htons \<equiv> bswap16"
abbreviation ntohs :: "u16 \<Rightarrow> u16" where "ntohs \<equiv> bswap16"
abbreviation htonl :: "u32 \<Rightarrow> u32" where "htonl \<equiv> bswap32"
abbreviation ntohl :: "u32 \<Rightarrow> u32" where "ntohl \<equiv> bswap32"

lemma bswap16_bswap16 [simp]: "bswap16 (bswap16 w) = w"
  by (rule bit_word_eqI) (auto simp: bswap16_def bit_simps)

lemma bswap16_eq_iff [simp]: "bswap16 a = bswap16 b \<longleftrightarrow> a = b"
  by (metis bswap16_bswap16)

lemma bswap16_0 [simp]: "bswap16 0 = 0"
  by (simp add: bswap16_def)

lemma bswap16_eq_0 [simp]: "bswap16 a = 0 \<longleftrightarrow> a = 0"
  by (metis bswap16_0 bswap16_bswap16)

lemma st16_htons: "st16 (htons w) = [ucast (drop_bit 8 w), ucast w]"
  by (auto simp: st16_def bswap16_def bit_simps intro!: bit_word_eqI)

lemma st32_u32_at_0: "length bs = 4 \<Longrightarrow> st32 (u32_at 0 bs) = bs"
  by (simp add: wire_simps seg_def)

lemma bswap32_bswap32 [simp]: "bswap32 (bswap32 w) = w"
  by (simp add: bswap32_def st32_u32_at_0 u32_at_st32)

lemma bswap32_eq_iff [simp]: "bswap32 a = bswap32 b \<longleftrightarrow> a = b"
  by (metis bswap32_bswap32)

section \<open>C strings\<close>

text \<open>
  A \<^verbatim>\<open>char *\<close> argument is the memory from the pointer on. \<open>cstr s\<close> is the string there,
  \<open>strncpy s\<close> what \<^verbatim>\<open>strncpy(dst, s, n)\<close> leaves in an array of \<open>n\<close> bytes, and \<open>strneq n a b\<close> is
  \<^verbatim>\<open>strncmp(a, b, n) == 0\<close>.
\<close>

definition cstr :: "byte list \<Rightarrow> cstring" where
  "cstr s = takeWhile (\<lambda>b. b \<noteq> 0) s"

text \<open>The string at a pointer, when it ends before the memory does.\<close>

definition read_str :: "byte list \<Rightarrow> cstring res" where
  "read_str m = bnd (guard Oob_access (0 \<in> set m)) (\<lambda>_. Inr (cstr m))"

definition strncpy :: "byte list \<Rightarrow> ('n::len) barr" where
  "strncpy s = barr_of (cstr s)"

definition strneq :: "nat \<Rightarrow> byte list \<Rightarrow> byte list \<Rightarrow> bool" where
  "strneq n a b \<longleftrightarrow> cstr (take n a) = cstr (take n b)"

definition text_bytes :: "string \<Rightarrow> byte list" where
  "text_bytes s = map of_char s"

lemma cstr_take: "cstr (take n s) = take n (cstr s)"
proof (induction s arbitrary: n)
  case (Cons x s)
  then show ?case by (cases n) (simp_all add: cstr_def)
qed (simp add: cstr_def)

lemma cstr_cstr [simp]: "cstr (cstr s) = cstr s"
  by (simp add: cstr_def)

lemma cstr_append_zeros: "cstr (cstr s @ replicate k 0) = cstr s"
  by (cases k) (simp_all add: cstr_def takeWhile_append)

lemma cstr_strncpy: "cstr (list_of (strncpy s :: ('n::len) barr)) = cstr (take LENGTH('n) s)"
proof -
  have "take LENGTH('n) (cstr s) = cstr (take LENGTH('n) s)"
    by (simp add: cstr_take)
  then show ?thesis
    by (simp add: strncpy_def list_of_barr_of cstr_append_zeros)
qed

lemma strncpy_strncpy: "strncpy (list_of (strncpy s :: ('n::len) barr)) = (strncpy s :: 'n barr)"
proof -
  have "cstr (list_of (strncpy s :: 'n barr)) = take LENGTH('n) (cstr s)"
    by (simp add: cstr_strncpy cstr_take)
  then show ?thesis
    by (simp add: strncpy_def [of "list_of _"]) (simp add: strncpy_def barr_of_def min_def)
qed

lemma strneq_refl [simp]: "strneq n a a"
  by (simp add: strneq_def)

lemma strneq_sym: "strneq n a b \<longleftrightarrow> strneq n b a"
  by (auto simp: strneq_def)

lemma strneq_trans: "strneq n a b \<Longrightarrow> strneq n b c \<Longrightarrow> strneq n a c"
  by (simp add: strneq_def)

text \<open>A copied name compares like the name it was copied from.\<close>

lemma strneq_strncpy [simp]:
  "n \<le> LENGTH('n) \<Longrightarrow> strneq n (list_of (strncpy s :: ('n::len) barr)) t = strneq n s t"
  by (simp add: strneq_def cstr_take cstr_strncpy)

lemma strneq_strncpy' [simp]:
  "n \<le> LENGTH('n) \<Longrightarrow> strneq n t (list_of (strncpy s :: ('n::len) barr)) = strneq n t s"
  using strneq_strncpy [of n s t] by (simp add: strneq_sym [of n t])

section \<open>Memory from malloc\<close>

text \<open>
  The bytes of a fresh allocation are whatever was there before: \<open>malloc junk n\<close>, for an
  unknown \<open>junk\<close>. Allocation is taken to succeed.
\<close>

definition malloc :: "(nat \<Rightarrow> byte) \<Rightarrow> nat \<Rightarrow> byte list" where
  "malloc junk n = map junk [0..<n]"

lemma length_malloc [simp]: "length (malloc junk n) = n"
  by (simp add: malloc_def)

section \<open>Lists\<close>

text \<open>The last node of a linked list is changed by walking to it.\<close>

fun upd_last :: "('a \<Rightarrow> 'a) \<Rightarrow> 'a list \<Rightarrow> 'a list" where
  "upd_last f [] = []"
| "upd_last f [x] = [f x]"
| "upd_last f (x # y # xs) = x # upd_last f (y # xs)"

lemma upd_last_snoc [simp]: "upd_last f (xs @ [x]) = xs @ [f x]"
  by (induction f xs rule: upd_last.induct) simp_all

lemma length_upd_last [simp]: "length (upd_last f xs) = length xs"
  by (induction f xs rule: upd_last.induct) simp_all

lemma filter_key_absent: "k \<notin> f ` set xs \<Longrightarrow> filter (\<lambda>x. f x \<noteq> k) xs = xs"
  by (induction xs) auto

end
