(* ===== verification/Protocol.thy ===== *)
theory Protocol
  imports Prelude
begin

text \<open>
  The packed structs of \<^verbatim>\<open>src/sr_protocol.h\<close> as records, each with its memory layout: \<open>rd_x bs\<close> is the
  struct that a pointer cast of the bytes \<open>bs\<close> gives, \<open>wr_x h\<close> the bytes of the struct \<open>h\<close>.
  Integer fields hold the value the C code reads (host byte order), so the code's comparisons with
  \<^verbatim>\<open>htons(...)\<close> are kept as they are written.

  The locale \<open>packed_struct\<close> is the contract between a layout and the code that overlays a struct on
  a packet buffer: \<open>rd\<close> and \<open>wr\<close> are inverse on buffers of the struct's size. Its lemmas are the laws
  of reading and writing a field through a pointer; every struct of the file is an instance.
\<close>

section \<open>The overlay of a struct on a buffer\<close>

text \<open>
  Stores to fields through a pointer to a struct at offset \<open>off\<close> of a buffer: \<open>f\<close> is the field update.
\<close>

definition modify ::
  "nat \<Rightarrow> (byte list \<Rightarrow> 'h) \<Rightarrow> ('h \<Rightarrow> byte list) \<Rightarrow> nat \<Rightarrow> ('h \<Rightarrow> 'h) \<Rightarrow> byte list \<Rightarrow> byte list" where
  "modify sz rd wr off f buf = blit off (wr (f (rd (seg off sz buf)))) buf"

locale packed_struct =
  fixes sz :: nat
    and rd :: "byte list \<Rightarrow> 'h"
    and wr :: "'h \<Rightarrow> byte list"
  assumes length_wr [simp, wire_simps]: "length (wr h) = sz"
    and rd_wr [simp, wire_simps]: "rd (wr h) = h"
    and wr_rd: "length bs = sz \<Longrightarrow> wr (rd bs) = bs"
begin

lemma wr_inject [simp]: "wr h = wr h' \<longleftrightarrow> h = h'"
  by (metis rd_wr)

lemma rd_inject: "length bs = sz \<Longrightarrow> length bs' = sz \<Longrightarrow> rd bs = rd bs' \<longleftrightarrow> bs = bs'"
  by (metis wr_rd)

lemma wr_at [buf_simps]: "off + sz \<le> length bs \<Longrightarrow> wr (rd (seg off sz bs)) = seg off sz bs"
  by (simp add: wr_rd)

lemma length_put [simp]: "off + sz \<le> length bs \<Longrightarrow> length (blit off (wr h) bs) = length bs"
  by simp

lemma at_put [buf_simps]: "off + sz \<le> length bs \<Longrightarrow> rd (seg off sz (blit off (wr h) bs)) = h"
  by (simp add: seg_blit_same)

lemma put_at: "off + sz \<le> length bs \<Longrightarrow> blit off (wr (rd (seg off sz bs))) bs = bs"
  by (simp add: wr_at blit_seg_same)

lemma put_put [buf_simps]:
  "off + sz \<le> length bs \<Longrightarrow> blit off (wr h) (blit off (wr h') bs) = blit off (wr h) bs"
  by (simp add: blit_blit_same)

lemma length_modify [simp]:
  "off + sz \<le> length bs \<Longrightarrow> length (modify sz rd wr off f bs) = length bs"
  by (simp add: modify_def)

lemma seg_modify_same [buf_simps]:
  "off + sz \<le> length bs \<Longrightarrow> seg off sz (modify sz rd wr off f bs) = wr (f (rd (seg off sz bs)))"
  by (simp add: modify_def seg_blit_same)

lemma seg_modify_other [buf_simps]:
  "off + sz \<le> length bs \<Longrightarrow> a + n \<le> off \<or> off + sz \<le> a \<Longrightarrow>
   seg a n (modify sz rd wr off f bs) = seg a n bs"
  by (auto simp: modify_def seg_blit_before seg_blit_after)

lemma modify_modify:
  "off + sz \<le> length bs \<Longrightarrow>
   modify sz rd wr off g (modify sz rd wr off f bs) = modify sz rd wr off (g \<circ> f) bs"
  by (simp add: modify_def seg_blit_same blit_blit_same)

lemma drop_modify:
  "off + sz \<le> length bs \<Longrightarrow> drop (off + sz) (modify sz rd wr off f bs) = drop (off + sz) bs"
  by (simp add: modify_def blit_def)

lemma at_eq_imp_seg_eq:
  assumes "off + sz \<le> length bs" and "off' + sz \<le> length bs'"
    and "rd (seg off sz bs) = rd (seg off' sz bs')"
  shows "seg off sz bs = seg off' sz bs'"
  using assms by (simp add: rd_inject)

end

section \<open>Ethernet\<close>

abbreviation (input) ETHER_ADDR_LEN :: nat where "ETHER_ADDR_LEN \<equiv> 6"

type_synonym mac = "6 barr"

record sr_ethernet_hdr =
  ether_dhost :: mac
  ether_shost :: mac
  ether_type :: u16

abbreviation (input) sizeof_eth :: nat where "sizeof_eth \<equiv> 14"

definition rd_eth :: "byte list \<Rightarrow> sr_ethernet_hdr" where
  "rd_eth bs = \<lparr> ether_dhost = arr_at 0 bs, ether_shost = arr_at 6 bs, ether_type = u16_at 12 bs \<rparr>"

definition wr_eth :: "sr_ethernet_hdr \<Rightarrow> byte list" where
  "wr_eth h = list_of (ether_dhost h) @ list_of (ether_shost h) @ st16 (ether_type h)"

section \<open>IP\<close>

definition IP_DF :: u16 where "IP_DF = 0x4000"

record sr_ip_hdr =
  ip_hl :: "4 word"
  ip_v :: "4 word"
  ip_tos :: byte
  ip_len :: u16
  ip_id :: u16
  ip_off :: u16
  ip_ttl :: byte
  ip_p :: byte
  ip_sum :: u16
  ip_src :: u32
  ip_dst :: u32

abbreviation (input) sizeof_ip :: nat where "sizeof_ip \<equiv> 20"

text \<open>The little-endian branch of the struct: \<^verbatim>\<open>ip_hl\<close> is the low nibble of the first byte.\<close>

definition rd_ip :: "byte list \<Rightarrow> sr_ip_hdr" where
  "rd_ip bs = \<lparr> ip_hl = ucast (bs ! 0), ip_v = ucast (drop_bit 4 (bs ! 0)), ip_tos = bs ! 1,
     ip_len = u16_at 2 bs, ip_id = u16_at 4 bs, ip_off = u16_at 6 bs,
     ip_ttl = bs ! 8, ip_p = bs ! 9, ip_sum = u16_at 10 bs,
     ip_src = u32_at 12 bs, ip_dst = u32_at 16 bs \<rparr>"

definition wr_ip :: "sr_ip_hdr \<Rightarrow> byte list" where
  "wr_ip h = [ucast (ip_hl h) OR push_bit 4 (ucast (ip_v h))] @ [ip_tos h]
     @ st16 (ip_len h) @ st16 (ip_id h) @ st16 (ip_off h)
     @ [ip_ttl h] @ [ip_p h] @ st16 (ip_sum h) @ st32 (ip_src h) @ st32 (ip_dst h)"

section \<open>ICMP\<close>

abbreviation (input) ICMP_DATA_SIZE :: nat where "ICMP_DATA_SIZE \<equiv> 28"

record sr_icmp_hdr =
  icmp_type :: byte
  icmp_code :: byte
  icmp_sum :: u16

record sr_icmp_t3_hdr = sr_icmp_hdr +
  t3_unused :: u16
  t3_next_mtu :: u16
  t3_data :: "28 barr"

record sr_icmp_t11_hdr = sr_icmp_hdr +
  t11_unused :: u32
  t11_data :: "28 barr"

abbreviation (input) sizeof_icmp :: nat where "sizeof_icmp \<equiv> 4"
abbreviation (input) sizeof_icmp_t3 :: nat where "sizeof_icmp_t3 \<equiv> 36"
abbreviation (input) sizeof_icmp_t11 :: nat where "sizeof_icmp_t11 \<equiv> 36"

definition rd_icmp :: "byte list \<Rightarrow> sr_icmp_hdr" where
  "rd_icmp bs = \<lparr> icmp_type = bs ! 0, icmp_code = bs ! 1, icmp_sum = u16_at 2 bs \<rparr>"

definition wr_icmp :: "sr_icmp_hdr \<Rightarrow> byte list" where
  "wr_icmp h = [icmp_type h] @ [icmp_code h] @ st16 (icmp_sum h)"

definition rd_icmp_t3 :: "byte list \<Rightarrow> sr_icmp_t3_hdr" where
  "rd_icmp_t3 bs = \<lparr> icmp_type = bs ! 0, icmp_code = bs ! 1, icmp_sum = u16_at 2 bs,
     t3_unused = u16_at 4 bs, t3_next_mtu = u16_at 6 bs, t3_data = arr_at 8 bs \<rparr>"

definition wr_icmp_t3 :: "sr_icmp_t3_hdr \<Rightarrow> byte list" where
  "wr_icmp_t3 h = [icmp_type h] @ [icmp_code h] @ st16 (icmp_sum h)
     @ st16 (t3_unused h) @ st16 (t3_next_mtu h) @ list_of (t3_data h)"

definition rd_icmp_t11 :: "byte list \<Rightarrow> sr_icmp_t11_hdr" where
  "rd_icmp_t11 bs = \<lparr> icmp_type = bs ! 0, icmp_code = bs ! 1, icmp_sum = u16_at 2 bs,
     t11_unused = u32_at 4 bs, t11_data = arr_at 8 bs \<rparr>"

definition wr_icmp_t11 :: "sr_icmp_t11_hdr \<Rightarrow> byte list" where
  "wr_icmp_t11 h = [icmp_type h] @ [icmp_code h] @ st16 (icmp_sum h)
     @ st32 (t11_unused h) @ list_of (t11_data h)"

section \<open>ARP\<close>

record sr_arp_hdr =
  ar_hrd :: u16
  ar_pro :: u16
  ar_hln :: byte
  ar_pln :: byte
  ar_op :: u16
  ar_sha :: mac
  ar_sip :: u32
  ar_tha :: mac
  ar_tip :: u32

abbreviation (input) sizeof_arp :: nat where "sizeof_arp \<equiv> 28"

definition rd_arp :: "byte list \<Rightarrow> sr_arp_hdr" where
  "rd_arp bs = \<lparr> ar_hrd = u16_at 0 bs, ar_pro = u16_at 2 bs, ar_hln = bs ! 4, ar_pln = bs ! 5,
     ar_op = u16_at 6 bs, ar_sha = arr_at 8 bs, ar_sip = u32_at 14 bs,
     ar_tha = arr_at 18 bs, ar_tip = u32_at 24 bs \<rparr>"

definition wr_arp :: "sr_arp_hdr \<Rightarrow> byte list" where
  "wr_arp h = st16 (ar_hrd h) @ st16 (ar_pro h) @ [ar_hln h] @ [ar_pln h] @ st16 (ar_op h)
     @ list_of (ar_sha h) @ st32 (ar_sip h) @ list_of (ar_tha h) @ st32 (ar_tip h)"

section \<open>Protocol numbers\<close>

definition ip_protocol_icmp :: byte where "ip_protocol_icmp = 0x01"
definition ip_protocol_tcp :: byte where "ip_protocol_tcp = 0x06"
definition ip_protocol_udp :: byte where "ip_protocol_udp = 0x11"

definition ethertype_arp :: u16 where "ethertype_arp = 0x0806"
definition ethertype_ip :: u16 where "ethertype_ip = 0x0800"

definition arp_op_request :: u16 where "arp_op_request = 0x0001"
definition arp_op_reply :: u16 where "arp_op_reply = 0x0002"

definition arp_hrd_ethernet :: u16 where "arp_hrd_ethernet = 0x0001"

lemmas protocol_numbers =
  ip_protocol_icmp_def ip_protocol_tcp_def ip_protocol_udp_def ethertype_arp_def ethertype_ip_def
  arp_op_request_def arp_op_reply_def arp_hrd_ethernet_def

section \<open>Every layout is a packed struct\<close>

text \<open>Joining the regions that the fields of a decoded struct came from gives back the bytes.\<close>

lemma seg_join: "b = a + n \<Longrightarrow> seg a n xs @ seg b m xs = seg a (n + m) xs"
  by (rule seg_append_seg)

lemma seg_join_Cons: "b = Suc a \<Longrightarrow> a < length xs \<Longrightarrow> xs ! a # seg b m xs = seg a (Suc m) xs"
  by (simp add: seg_def Cons_nth_drop_Suc [symmetric])

lemma seg_whole: "length xs = n \<Longrightarrow> seg 0 n xs = xs"
  by (auto simp: seg_def)

lemma nibbles_join: "ucast (ucast b :: 4 word) OR push_bit 4 (ucast (ucast (drop_bit 4 b) :: 4 word)) = (b :: byte)"
  by (rule bit_word_eqI) (auto simp: bit_simps)

lemma nibbles_split:
  fixes l h :: "4 word"
  shows
  "ucast (ucast l OR push_bit 4 (ucast h) :: byte) = l"
  "ucast (drop_bit 4 (ucast l) OR drop_bit 4 (push_bit 4 (ucast h)) :: byte) = h"
  by (auto simp: bit_simps impossible_bit intro!: bit_word_eqI)

lemma nth_Cons_pos: "0 < k \<Longrightarrow> (x # xs) ! k = xs ! (k - 1)"
  by (cases k) simp_all

lemmas decode_simps = wire_simps nth_append nibbles_split nth_Cons_pos
lemmas encode_simps = seg_join_Cons seg_st16 seg_st32 seg_list_of seg_join seg_whole nibbles_join

interpretation eth: packed_struct sizeof_eth rd_eth wr_eth
  by unfold_locales
    (simp_all add: rd_eth_def wr_eth_def decode_simps encode_simps)

interpretation ip: packed_struct sizeof_ip rd_ip wr_ip
  by unfold_locales
    (simp_all add: rd_ip_def wr_ip_def decode_simps encode_simps)

interpretation icmp: packed_struct sizeof_icmp rd_icmp wr_icmp
  by unfold_locales
    (simp_all add: rd_icmp_def wr_icmp_def decode_simps encode_simps)

interpretation icmp_t3: packed_struct sizeof_icmp_t3 rd_icmp_t3 wr_icmp_t3
  by unfold_locales
    (simp_all add: rd_icmp_t3_def wr_icmp_t3_def decode_simps encode_simps)

interpretation icmp_t11: packed_struct sizeof_icmp_t11 rd_icmp_t11 wr_icmp_t11
  by unfold_locales
    (simp_all add: rd_icmp_t11_def wr_icmp_t11_def decode_simps encode_simps)

interpretation arp: packed_struct sizeof_arp rd_arp wr_arp
  by unfold_locales
    (simp_all add: rd_arp_def wr_arp_def decode_simps encode_simps)

text \<open>Reading and updating a struct through a pointer into a buffer.\<close>

abbreviation eth_at :: "nat \<Rightarrow> byte list \<Rightarrow> _" where "eth_at off buf \<equiv> rd_eth (seg off sizeof_eth buf)"
abbreviation mod_eth :: "nat \<Rightarrow> _ \<Rightarrow> byte list \<Rightarrow> byte list" where
  "mod_eth \<equiv> modify sizeof_eth rd_eth wr_eth"

abbreviation ip_at :: "nat \<Rightarrow> byte list \<Rightarrow> _" where "ip_at off buf \<equiv> rd_ip (seg off sizeof_ip buf)"
abbreviation mod_ip :: "nat \<Rightarrow> _ \<Rightarrow> byte list \<Rightarrow> byte list" where
  "mod_ip \<equiv> modify sizeof_ip rd_ip wr_ip"

abbreviation icmp_at :: "nat \<Rightarrow> byte list \<Rightarrow> _" where "icmp_at off buf \<equiv> rd_icmp (seg off sizeof_icmp buf)"
abbreviation mod_icmp :: "nat \<Rightarrow> _ \<Rightarrow> byte list \<Rightarrow> byte list" where
  "mod_icmp \<equiv> modify sizeof_icmp rd_icmp wr_icmp"

abbreviation icmp_t3_at :: "nat \<Rightarrow> byte list \<Rightarrow> _" where "icmp_t3_at off buf \<equiv> rd_icmp_t3 (seg off sizeof_icmp_t3 buf)"
abbreviation mod_icmp_t3 :: "nat \<Rightarrow> _ \<Rightarrow> byte list \<Rightarrow> byte list" where
  "mod_icmp_t3 \<equiv> modify sizeof_icmp_t3 rd_icmp_t3 wr_icmp_t3"

abbreviation icmp_t11_at :: "nat \<Rightarrow> byte list \<Rightarrow> _" where "icmp_t11_at off buf \<equiv> rd_icmp_t11 (seg off sizeof_icmp_t11 buf)"
abbreviation mod_icmp_t11 :: "nat \<Rightarrow> _ \<Rightarrow> byte list \<Rightarrow> byte list" where
  "mod_icmp_t11 \<equiv> modify sizeof_icmp_t11 rd_icmp_t11 wr_icmp_t11"

abbreviation arp_at :: "nat \<Rightarrow> byte list \<Rightarrow> _" where "arp_at off buf \<equiv> rd_arp (seg off sizeof_arp buf)"
abbreviation mod_arp :: "nat \<Rightarrow> _ \<Rightarrow> byte list \<Rightarrow> byte list" where
  "mod_arp \<equiv> modify sizeof_arp rd_arp wr_arp"

end
