(* ===== verification/Instance.thy ===== *)
theory Instance
  imports Protocol
begin

text \<open>
  The data structures of the router: the interface list (\<^verbatim>\<open>src/sr_if.h\<close>), the routing table
  (\<^verbatim>\<open>src/sr_rt.h\<close>), the ARP cache with its request queue (\<^verbatim>\<open>src/sr_arpcache.h\<close>) and the router
  instance that owns them (\<^verbatim>\<open>src/sr_router.h\<close>).

  A linked list of nodes is a list of records in list order. Requests of the ARP queue are
  handed around by pointer and can be freed while a caller still holds the pointer, so each
  carries its address \<open>rq_id\<close>; a request is alive while the queue holds one with its address.
  \<^verbatim>\<open>time_t\<close> is an unbounded integer of seconds. The kernel's side of the descriptors is part of
  the state: \<open>sock_out\<close> lists the buffers handed to \<^verbatim>\<open>write\<close> on the server socket, oldest first, and
  \<open>logfile\<close> is the content of the open log file, \<open>None\<close> for a null \<^verbatim>\<open>FILE *\<close>.
\<close>

abbreviation (input) sr_IFACE_NAMELEN :: nat where "sr_IFACE_NAMELEN \<equiv> 32"

type_synonym iface_name = "32 barr"

record sr_if =
  if_name :: iface_name
  if_addr :: mac
  if_ip :: u32
  if_speed :: u32

record sr_rt =
  rt_dest :: u32
  rt_gw :: u32
  rt_mask :: u32
  rt_interface :: iface_name

abbreviation (input) SR_ARPCACHE_SZ :: nat where "SR_ARPCACHE_SZ \<equiv> 100"
abbreviation (input) SR_ARPCACHE_TO :: int where "SR_ARPCACHE_TO \<equiv> 15"

record sr_packet =
  pk_buf :: "byte list"
  pk_len :: u32
  pk_iface :: iface_name

record sr_arpentry =
  ae_mac :: mac
  ae_ip :: u32
  ae_added :: int
  ae_valid :: bool

record sr_arpreq =
  rq_id :: nat
  rq_ip :: u32
  rq_sent :: int
  rq_times_sent :: u32
  rq_packets :: "sr_packet list"

record sr_arpcache =
  entries :: "sr_arpentry list"
  requests :: "sr_arpreq list"
  next_addr :: nat

record sr_instance =
  sockfd :: int
  user :: "32 barr"
  host :: "32 barr"
  template :: "30 barr"
  topo_id :: u16
  if_list :: "sr_if list"
  routing_table :: "sr_rt list"
  cache :: sr_arpcache
  logfile :: "byte list option"
  sock_out :: "byte list list"

definition INIT_TTL :: byte where "INIT_TTL = 255"

abbreviation (input) PACKET_DUMP_SIZE :: nat where "PACKET_DUMP_SIZE \<equiv> 1024"

end
