(* ===== verification/Interfaces.thy ===== *)
theory Interfaces
  imports Instance
begin

text \<open>
  The interface list, \<^verbatim>\<open>src/sr_if.c\<close>: lookup by name, appending an interface, and setting the
  addresses of the last one. The node that \<^verbatim>\<open>sr_add_interface\<close> allocates is uninitialised except
  for its name and its link; \<open>junk\<close> is that memory.
\<close>

section \<open>The code\<close>

fun if_walk :: "sr_if list \<Rightarrow> byte list \<Rightarrow> sr_if option" where
  "if_walk [] name = None"
| "if_walk (i # is) name =
     (if strneq sr_IFACE_NAMELEN (list_of (if_name i)) name then Some i else if_walk is name)"

definition sr_get_interface :: "sr_instance \<Rightarrow> byte list \<Rightarrow> sr_if option" where
  "sr_get_interface sr name = if_walk (if_list sr) name"

definition sr_add_interface :: "sr_if \<Rightarrow> sr_instance \<Rightarrow> byte list \<Rightarrow> sr_instance" where
  "sr_add_interface junk sr name =
     sr\<lparr>if_list := if_list sr @ [junk\<lparr>if_name := strncpy name\<rparr>]\<rparr>"

definition sr_set_ether_addr :: "sr_instance \<Rightarrow> mac \<Rightarrow> sr_instance res" where
  "sr_set_ether_addr sr addr = bnd (guard Assert_fail (if_list sr \<noteq> [])) (\<lambda>_.
     Inr (sr\<lparr>if_list := upd_last (\<lambda>i. i\<lparr>if_addr := addr\<rparr>) (if_list sr)\<rparr>))"

definition sr_set_ether_ip :: "sr_instance \<Rightarrow> u32 \<Rightarrow> sr_instance res" where
  "sr_set_ether_ip sr ip_nbo = bnd (guard Assert_fail (if_list sr \<noteq> [])) (\<lambda>_.
     Inr (sr\<lparr>if_list := upd_last (\<lambda>i. i\<lparr>if_ip := ip_nbo\<rparr>) (if_list sr)\<rparr>))"

section \<open>Its properties\<close>

lemma if_walk_find: "if_walk is name = find (\<lambda>i. strneq 32 (list_of (if_name i)) name) is"
  by (induction "is") simp_all

lemma if_walk_Some: "if_walk is name = Some i \<Longrightarrow> i \<in> set is \<and> strneq 32 (list_of (if_name i)) name"
  by (induction "is") (auto split: if_splits)

lemma if_walk_None: "if_walk is name = None \<longleftrightarrow> (\<forall>i \<in> set is. \<not> strneq 32 (list_of (if_name i)) name)"
  by (induction "is") auto

lemma if_walk_append:
  "if_walk (is @ js) name = (case if_walk is name of None \<Rightarrow> if_walk js name | Some i \<Rightarrow> Some i)"
  by (induction "is") auto

lemma if_walk_cong: "strneq 32 a b \<Longrightarrow> if_walk is a = if_walk is b"
  by (induction "is") (simp_all add: strneq_def)

text \<open>An interface looked up by its own, or any equal, name is the one the first lookup found.\<close>

lemma sr_get_interface_again:
  "sr_get_interface sr name = Some i \<Longrightarrow> sr_get_interface sr (list_of (if_name i)) = Some i"
  unfolding sr_get_interface_def using if_walk_Some if_walk_cong by metis

text \<open>Only the interface list matters to the lookup.\<close>

lemma sr_get_interface_frame [simp]:
  "sr_get_interface (sr\<lparr>cache := c\<rparr>) = sr_get_interface sr"
  "sr_get_interface (sr\<lparr>logfile := log\<rparr>) = sr_get_interface sr"
  "sr_get_interface (sr\<lparr>sock_out := out\<rparr>) = sr_get_interface sr"
  by (simp_all add: sr_get_interface_def fun_eq_iff)

text \<open>
  The sequence by which the server announces an interface: name, then hardware address, then
  IP address. A new name is found afterwards with exactly these addresses, and no other lookup changes.
\<close>

lemma announce_interface:
  assumes new: "sr_get_interface sr name = None"
  shows "\<exists>sr1 sr2. sr_set_ether_addr (sr_add_interface junk sr name) mac = Inr sr1
    \<and> sr_set_ether_ip sr1 ip = Inr sr2
    \<and> sr_get_interface sr2 name = Some (junk\<lparr>if_name := strncpy name, if_addr := mac, if_ip := ip\<rparr>)
    \<and> (\<forall>n. \<not> strneq 32 name n \<longrightarrow> sr_get_interface sr2 n = sr_get_interface sr n)"
  using new
  by (auto simp: sr_set_ether_addr_def sr_set_ether_ip_def sr_add_interface_def sr_get_interface_def
      if_walk_append split: option.splits)

lemma sr_set_ether_assert:
  "sr_set_ether_addr sr mac = Inl e \<longleftrightarrow> if_list sr = [] \<and> e = Assert_fail"
  "sr_set_ether_ip sr ip = Inl e \<longleftrightarrow> if_list sr = [] \<and> e = Assert_fail"
  by (auto simp: sr_set_ether_addr_def sr_set_ether_ip_def guard_def)

end
