(* ===== verification/Routing.thy ===== *)
theory Routing
  imports Interfaces
begin

text \<open>
  The routing table: appending entries (\<^verbatim>\<open>src/sr_rt.c\<close>), longest-prefix matching
  (\<^verbatim>\<open>sr_findLPMentry\<close>, \<^verbatim>\<open>src/sr_router.c\<close>) and the check of the table against the interface list
  (\<^verbatim>\<open>sr_verify_routing_table\<close>, \<^verbatim>\<open>src/sr_main.c\<close>).

  The locale \<open>best_match\<close> states what the packet handlers rely on when they look up a route, over
  any matching predicate and any weight; \<open>sr_findLPMentry\<close> is its instance, with the netmask as the
  weight and an all-zero mask never matching.
\<close>

section \<open>The code\<close>

definition sr_add_rt_entry :: "sr_instance \<Rightarrow> u32 \<Rightarrow> u32 \<Rightarrow> u32 \<Rightarrow> byte list \<Rightarrow> sr_instance" where
  "sr_add_rt_entry sr dest gw msk ifname =
     sr\<lparr>routing_table := routing_table sr @
       [\<lparr> rt_dest = dest, rt_gw = gw, rt_mask = msk, rt_interface = strncpy ifname \<rparr>]\<rparr>"

text \<open>The loop of \<^verbatim>\<open>sr_findLPMentry\<close>, with its two running variables.\<close>

fun lpm_scan :: "u32 \<Rightarrow> sr_rt option \<Rightarrow> u32 \<Rightarrow> sr_rt list \<Rightarrow> sr_rt option" where
  "lpm_scan dst lpmentry lpmmask [] = lpmentry"
| "lpm_scan dst lpmentry lpmmask (entry # rest) =
     (let msk = ntohl (rt_mask entry) in
      if (dst AND msk) = (ntohl (rt_dest entry) AND msk) \<and> msk > lpmmask
      then lpm_scan dst (Some entry) msk rest
      else lpm_scan dst lpmentry lpmmask rest)"

definition sr_findLPMentry :: "sr_rt list \<Rightarrow> u32 \<Rightarrow> sr_rt option" where
  "sr_findLPMentry rtable dst = lpm_scan (ntohl dst) None 0 rtable"

text \<open>The inner loop of \<^verbatim>\<open>sr_verify_routing_table\<close> looks for the interface of one entry.\<close>

fun verify_walk :: "sr_if list \<Rightarrow> sr_rt \<Rightarrow> bool" where
  "verify_walk [] e = False"
| "verify_walk (i # is) e =
     (if strneq sr_IFACE_NAMELEN (list_of (if_name i)) (list_of (rt_interface e)) then True
      else verify_walk is e)"

fun verify_count :: "sr_if list \<Rightarrow> sr_rt list \<Rightarrow> int \<Rightarrow> int" where
  "verify_count is [] ret = ret"
| "verify_count is (e # es) ret = verify_count is es (if verify_walk is e then ret else ret + 1)"

definition sr_verify_routing_table :: "sr_instance \<Rightarrow> int" where
  "sr_verify_routing_table sr =
     (if if_list sr = [] \<or> routing_table sr = [] then 999
      else verify_count (if_list sr) (routing_table sr) 0)"

section \<open>Best match as an interface\<close>

locale best_match =
  fixes find_best :: "'e list \<Rightarrow> 'k \<Rightarrow> 'e option"
    and hit :: "'k \<Rightarrow> 'e \<Rightarrow> bool"
    and weight :: "'e \<Rightarrow> 'w::linorder"
  assumes best_None: "find_best t k = None \<longleftrightarrow> (\<forall>e \<in> set t. \<not> hit k e)"
    and best_Some: "find_best t k = Some e \<Longrightarrow>
      \<exists>pre post. t = pre @ e # post \<and> hit k e
        \<and> (\<forall>f \<in> set pre. hit k f \<longrightarrow> weight f < weight e)
        \<and> (\<forall>f \<in> set post. hit k f \<longrightarrow> weight f \<le> weight e)"
begin

lemma best_mem: "find_best t k = Some e \<Longrightarrow> e \<in> set t"
  using best_Some by fastforce

lemma best_hit: "find_best t k = Some e \<Longrightarrow> hit k e"
  using best_Some by blast

lemma best_weight: "find_best t k = Some e \<Longrightarrow> f \<in> set t \<Longrightarrow> hit k f \<Longrightarrow> weight f \<le> weight e"
  using best_Some by fastforce

text \<open>The conditions determine the result: the first of the heaviest matching entries.\<close>

lemma best_unique:
  assumes "t = pre @ e # post" and "hit k e"
    and "\<forall>f \<in> set pre. hit k f \<longrightarrow> weight f < weight e"
    and "\<forall>f \<in> set post. hit k f \<longrightarrow> weight f \<le> weight e"
  shows "find_best t k = Some e"
proof -
  have "find_best t k \<noteq> None"
    using assms(1,2) by (auto simp: best_None)
  then obtain e' where e': "find_best t k = Some e'" by blast
  then obtain pre' post' where t': "t = pre' @ e' # post'" and h': "hit k e'"
    and pre': "\<forall>f \<in> set pre'. hit k f \<longrightarrow> weight f < weight e'"
    and post': "\<forall>f \<in> set post'. hit k f \<longrightarrow> weight f \<le> weight e'"
    using best_Some by blast
  from assms(1) t' have "pre @ e # post = pre' @ e' # post'" by simp
  then consider us where "pre' = pre @ us" "e # post = us @ e' # post'"
    | us where "pre = pre' @ us" "e' # post' = us @ e # post"
    by (auto simp: append_eq_append_conv2)
  then show ?thesis
  proof cases
    case 1
    show ?thesis
    proof (cases us)
      case Nil
      with 1 e' show ?thesis by simp
    next
      case (Cons u vs)
      with 1 have "e \<in> set pre'" and "e' \<in> set post" by auto
      with pre' assms(2,4) h' have "weight e < weight e'" and "weight e' \<le> weight e" by auto
      then show ?thesis by simp
    qed
  next
    case 2
    show ?thesis
    proof (cases us)
      case Nil
      with 2 e' show ?thesis by simp
    next
      case (Cons u vs)
      with 2 have "e' \<in> set pre" and "e \<in> set post'" by auto
      with post' assms(2,3) h' have "weight e' < weight e" and "weight e \<le> weight e'" by auto
      then show ?thesis by simp
    qed
  qed
qed

text \<open>An appended entry takes over exactly the keys it matches with a strictly greater weight.\<close>

lemma best_append:
  "find_best (t @ [n]) k =
     (case find_best t k of
        None \<Rightarrow> if hit k n then Some n else None
      | Some e \<Rightarrow> if hit k n \<and> weight e < weight n then Some n else Some e)"
proof (cases "find_best t k")
  case None
  then have "\<forall>e \<in> set t. \<not> hit k e" by (simp add: best_None)
  moreover from this have "find_best (t @ [n]) k = (if hit k n then Some n else None)"
    using best_unique [of "t @ [n]" t n "[]" k] by (auto simp: best_None)
  ultimately show ?thesis using None by simp
next
  case (Some e)
  then obtain pre post where t: "t = pre @ e # post" and h: "hit k e"
    and pre: "\<forall>f \<in> set pre. hit k f \<longrightarrow> weight f < weight e"
    and post: "\<forall>f \<in> set post. hit k f \<longrightarrow> weight f \<le> weight e"
    using best_Some by blast
  show ?thesis
  proof (cases "hit k n \<and> weight e < weight n")
    case True
    have "\<forall>f \<in> set t. hit k f \<longrightarrow> weight f < weight n"
      using True best_weight [OF Some] by fastforce
    then show ?thesis
      using True Some best_unique [of "t @ [n]" t n "[]" k] by simp
  next
    case False
    then have "find_best (t @ [n]) k = Some e"
      using t h pre post by (intro best_unique [of _ pre e "post @ [n]"]) auto
    with False Some show ?thesis by auto
  qed
qed

end

section \<open>Longest-prefix matching\<close>

definition lpm_hit :: "u32 \<Rightarrow> sr_rt \<Rightarrow> bool" where
  "lpm_hit ip e \<longleftrightarrow> ntohl (rt_mask e) \<noteq> 0
     \<and> (ntohl ip AND ntohl (rt_mask e)) = (ntohl (rt_dest e) AND ntohl (rt_mask e))"

definition lpm_weight :: "sr_rt \<Rightarrow> u32" where
  "lpm_weight e = ntohl (rt_mask e)"

text \<open>What the loop has found from a running best onwards.\<close>

lemma lpm_scan_no_better:
  "\<forall>f \<in> set t. lpm_hit ip f \<longrightarrow> lpm_weight f \<le> m \<Longrightarrow> lpm_scan (ntohl ip) b m t = b"
  by (induction t) (auto simp: Let_def lpm_hit_def lpm_weight_def linorder_not_le)

lemma lpm_scan_better:
  "\<exists>f \<in> set t. lpm_hit ip f \<and> m < lpm_weight f \<Longrightarrow>
   \<exists>pre e post. lpm_scan (ntohl ip) b m t = Some e \<and> t = pre @ e # post \<and> lpm_hit ip e
     \<and> m < lpm_weight e
     \<and> (\<forall>g \<in> set pre. lpm_hit ip g \<longrightarrow> lpm_weight g < lpm_weight e)
     \<and> (\<forall>g \<in> set post. lpm_hit ip g \<longrightarrow> lpm_weight g \<le> lpm_weight e)"
proof (induction t arbitrary: b m)
  case (Cons x t)
  let ?take = "lpm_hit ip x \<and> m < lpm_weight x"
  let ?m = "if ?take then lpm_weight x else m" and ?b = "if ?take then Some x else b"
  have step: "lpm_scan (ntohl ip) b m (x # t) = lpm_scan (ntohl ip) ?b ?m t"
    by (auto simp: Let_def lpm_hit_def lpm_weight_def)
  show ?case
  proof (cases "\<exists>g \<in> set t. lpm_hit ip g \<and> ?m < lpm_weight g")
    case True
    then obtain pre e post where e: "lpm_scan (ntohl ip) ?b ?m t = Some e" "t = pre @ e # post"
      "lpm_hit ip e" "?m < lpm_weight e"
      "\<forall>g \<in> set pre. lpm_hit ip g \<longrightarrow> lpm_weight g < lpm_weight e"
      "\<forall>g \<in> set post. lpm_hit ip g \<longrightarrow> lpm_weight g \<le> lpm_weight e"
      using Cons.IH [OF True, of ?b] by blast
    then have "m < lpm_weight e" and "lpm_hit ip x \<longrightarrow> lpm_weight x < lpm_weight e"
      by (auto split: if_splits)
    with e step show ?thesis
      by (intro exI [of _ "x # pre"] exI [of _ e] exI [of _ post]) auto
  next
    case False
    then have rest: "\<forall>g \<in> set t. lpm_hit ip g \<longrightarrow> lpm_weight g \<le> ?m" by auto
    with Cons.prems have take: ?take
      by (auto simp: linorder_not_less split: if_splits)
    from rest have "lpm_scan (ntohl ip) ?b ?m t = ?b"
      by (rule lpm_scan_no_better)
    with step take rest show ?thesis
      by (intro exI [of _ "[]"] exI [of _ x] exI [of _ t]) simp
  qed
qed simp

lemma lpm_hit_pos: "lpm_hit ip f \<Longrightarrow> 0 < lpm_weight f"
  by (simp add: lpm_hit_def lpm_weight_def word_neq_0_conv)

lemma sr_findLPMentry_hit:
  assumes "\<exists>f \<in> set t. lpm_hit ip f"
  shows "\<exists>pre e post. sr_findLPMentry t ip = Some e \<and> t = pre @ e # post \<and> lpm_hit ip e
    \<and> (\<forall>g \<in> set pre. lpm_hit ip g \<longrightarrow> lpm_weight g < lpm_weight e)
    \<and> (\<forall>g \<in> set post. lpm_hit ip g \<longrightarrow> lpm_weight g \<le> lpm_weight e)"
proof -
  have "\<exists>f \<in> set t. lpm_hit ip f \<and> 0 < lpm_weight f"
    using assms lpm_hit_pos by blast
  from lpm_scan_better [OF this, of None] show ?thesis
    unfolding sr_findLPMentry_def by blast
qed

lemma sr_findLPMentry_miss: "\<not> (\<exists>f \<in> set t. lpm_hit ip f) \<Longrightarrow> sr_findLPMentry t ip = None"
  unfolding sr_findLPMentry_def by (rule lpm_scan_no_better) blast

interpretation lpm: best_match sr_findLPMentry lpm_hit lpm_weight
proof
  show "sr_findLPMentry t ip = None \<longleftrightarrow> (\<forall>e \<in> set t. \<not> lpm_hit ip e)" for t ip
    using sr_findLPMentry_hit [of t ip] sr_findLPMentry_miss [of t ip] by force
  show "\<exists>pre post. t = pre @ e # post \<and> lpm_hit ip e
        \<and> (\<forall>f \<in> set pre. lpm_hit ip f \<longrightarrow> lpm_weight f < lpm_weight e)
        \<and> (\<forall>f \<in> set post. lpm_hit ip f \<longrightarrow> lpm_weight f \<le> lpm_weight e)"
    if "sr_findLPMentry t ip = Some e" for t ip e
    using that sr_findLPMentry_hit [of t ip] sr_findLPMentry_miss [of t ip] by (metis option.inject option.distinct(1))
qed

text \<open>The mask of a prefix of \<open>k\<close> bits; among prefix masks, a greater number is a longer prefix.\<close>

definition prefix_mask :: "nat \<Rightarrow> u32" where
  "prefix_mask k = NOT (mask (32 - k))"

lemma prefix_mask_le:
  assumes "k \<le> 32" and "l \<le> 32"
  shows "prefix_mask l \<le> prefix_mask k \<longleftrightarrow> l \<le> k"
proof -
  have n: "NOT a \<le> NOT b \<longleftrightarrow> b \<le> a" for a b :: u32
  proof -
    have u: "uint (NOT x) = mask 32 - uint x" for x :: u32
      using take_bit_word_eq_self [of 32 x]
      by (simp add: unsigned_not_eq take_bit_not_eq_mask_diff flip: unsigned_take_bit_eq)
    show ?thesis by (simp add: word_le_def u)
  qed
  have m: "uint (mask (32 - j) :: u32) = 2 ^ (32 - j) - 1" for j
    by (simp only: uint_mask_eq) (simp add: min_absorb2 mask_eq_exp_minus_1)
  have "prefix_mask l \<le> prefix_mask k \<longleftrightarrow> (mask (32 - k) :: u32) \<le> mask (32 - l)"
    by (simp add: prefix_mask_def n)
  also have "\<dots> \<longleftrightarrow> (2 :: int) ^ (32 - k) \<le> 2 ^ (32 - l)"
    unfolding word_le_def m by linarith
  also have "\<dots> \<longleftrightarrow> l \<le> k"
    using assms by simp arith
  finally show ?thesis .
qed

section \<open>The table agrees with the hardware\<close>

lemma verify_walk_iff: "verify_walk is e \<longleftrightarrow> if_walk is (list_of (rt_interface e)) \<noteq> None"
  by (induction "is") auto

lemma verify_count_length:
  "verify_count is es ret = ret + int (length (filter (\<lambda>e. \<not> verify_walk is e) es))"
  by (induction es arbitrary: ret) auto

lemma verified_route_iface:
  assumes "sr_verify_routing_table sr = 0" and "e \<in> set (routing_table sr)"
  shows "\<exists>i. sr_get_interface sr (list_of (rt_interface e)) = Some i"
proof -
  have "filter (\<lambda>e. \<not> verify_walk (if_list sr) e) (routing_table sr) = []"
    using assms(1) by (auto simp: sr_verify_routing_table_def verify_count_length split: if_splits)
  with assms(2) show ?thesis
    by (auto simp: filter_empty_conv verify_walk_iff sr_get_interface_def)
qed

lemma verified_lookup_iface:
  assumes "sr_verify_routing_table sr = 0" and "sr_findLPMentry (routing_table sr) ip = Some e"
  shows "\<exists>i. sr_get_interface sr (list_of (rt_interface e)) = Some i"
  using assms lpm.best_mem by (blast intro: verified_route_iface)

text \<open>A default route is never used: with entries of all-zero masks only, no destination has a route.\<close>

lemma default_route_ignored: "\<forall>e \<in> set t. rt_mask e = 0 \<Longrightarrow> sr_findLPMentry t ip = None"
proof -
  have "ntohl 0 = 0" by (simp add: bswap32_def st32_def u32_at_def)
  then show "\<forall>e \<in> set t. rt_mask e = 0 \<Longrightarrow> sr_findLPMentry t ip = None" by (simp add: lpm.best_None lpm_hit_def)
qed

end
