(* ===== verification/Arpcache.thy ===== *)
theory Arpcache
  imports Instance
begin

text \<open>
  The ARP cache, \<^verbatim>\<open>src/sr_arpcache.c\<close> from \<^verbatim>\<open>sr_arpcache_lookup\<close> on: the table of IP to MAC mappings and
  the queue of outstanding ARP requests with the packets that wait for an answer. The clock
  \<^verbatim>\<open>time(NULL)\<close> is an argument.

  Two contracts are stated as locales. \<open>mapping_table\<close> is what a client of the table may rely on
  (\<open>lookup\<close> against \<open>insert\<close> and the expiry of old entries). \<open>pending_queue\<close> is what a client of the
  queue may rely on: enqueueing adds a packet to the packets waiting for one address and
  answering an address hands out exactly these packets. Both are interpreted on the code's operations.
\<close>

section \<open>The code\<close>

fun entry_scan :: "u32 \<Rightarrow> sr_arpentry option \<Rightarrow> sr_arpentry list \<Rightarrow> sr_arpentry option" where
  "entry_scan ip entry [] = entry"
| "entry_scan ip entry (e # es) =
     entry_scan ip (if ae_valid e \<and> ae_ip e = ip then Some e else entry) es"

definition sr_arpcache_lookup :: "sr_arpcache \<Rightarrow> u32 \<Rightarrow> sr_arpentry option" where
  "sr_arpcache_lookup c ip = entry_scan ip None (entries c)"

text \<open>The first request of the queue for an address.\<close>

fun find_req :: "u32 \<Rightarrow> sr_arpreq list \<Rightarrow> sr_arpreq option" where
  "find_req ip [] = None"
| "find_req ip (r # rs) = (if rq_ip r = ip then Some r else find_req ip rs)"

text \<open>A store through a pointer to a request of the queue.\<close>

definition upd_req :: "nat \<Rightarrow> (sr_arpreq \<Rightarrow> sr_arpreq) \<Rightarrow> sr_arpreq list \<Rightarrow> sr_arpreq list" where
  "upd_req p f rs = map (\<lambda>r. if rq_id r = p then f r else r) rs"

definition new_req :: "nat \<Rightarrow> u32 \<Rightarrow> sr_arpreq" where
  "new_req p ip = \<lparr> rq_id = p, rq_ip = ip, rq_sent = 0, rq_times_sent = 0, rq_packets = [] \<rparr>"

text \<open>
  \<^verbatim>\<open>sr_arpcache_queuereq\<close>: null pointers are \<open>None\<close>. The result is the request's address and the new
  cache; copying more bytes than the caller's buffer has is a fault.
\<close>

definition queuereq_find :: "sr_arpcache \<Rightarrow> u32 \<Rightarrow> nat \<times> sr_arpcache" where
  "queuereq_find c ip =
     (case find_req ip (requests c) of
        Some r \<Rightarrow> (rq_id r, c)
      | None \<Rightarrow> (next_addr c,
          c\<lparr>requests := requests c @ [new_req (next_addr c) ip], next_addr := Suc (next_addr c)\<rparr>))"

definition new_pkt :: "byte list \<Rightarrow> u32 \<Rightarrow> byte list \<Rightarrow> sr_packet" where
  "new_pkt packet packet_len iface =
     \<lparr> pk_buf = take (unat packet_len) packet, pk_len = packet_len, pk_iface = strncpy iface \<rparr>"

definition sr_arpcache_queuereq ::
  "sr_arpcache \<Rightarrow> u32 \<Rightarrow> byte list option \<Rightarrow> u32 \<Rightarrow> byte list option \<Rightarrow> (nat \<times> sr_arpcache) res" where
  "sr_arpcache_queuereq c ip packet packet_len iface =
     (let (req, c1) = queuereq_find c ip in
      case (packet, iface) of
        (Some p, Some ifn) \<Rightarrow>
          if packet_len \<noteq> 0 then
            bnd (guard Oob_access (unat packet_len \<le> length p)) (\<lambda>_.
            Inr (req, c1\<lparr>requests :=
              upd_req req (\<lambda>r. r\<lparr>rq_packets := new_pkt p packet_len ifn # rq_packets r\<rparr>) (requests c1)\<rparr>))
          else Inr (req, c1)
      | _ \<Rightarrow> Inr (req, c1))"

text \<open>\<^verbatim>\<open>sr_arpcache_insert\<close> unlinks the first request for the address and fills the first free slot.\<close>

fun unlink_req :: "u32 \<Rightarrow> sr_arpreq list \<Rightarrow> sr_arpreq option \<times> sr_arpreq list" where
  "unlink_req ip [] = (None, [])"
| "unlink_req ip (r # rs) =
     (if rq_ip r = ip then (Some r, rs)
      else (let (req, rs') = unlink_req ip rs in (req, r # rs')))"

fun fill_slot :: "sr_arpentry \<Rightarrow> sr_arpentry list \<Rightarrow> sr_arpentry list" where
  "fill_slot n [] = []"
| "fill_slot n (e # es) = (if \<not> ae_valid e then n # es else e # fill_slot n es)"

definition sr_arpcache_insert ::
  "int \<Rightarrow> sr_arpcache \<Rightarrow> mac \<Rightarrow> u32 \<Rightarrow> sr_arpreq option \<times> sr_arpcache" where
  "sr_arpcache_insert now c mac ip =
     (let (req, rs) = unlink_req ip (requests c) in
      (req, c\<lparr>requests := rs,
        entries := fill_slot \<lparr> ae_mac = mac, ae_ip = ip, ae_added = now, ae_valid = True \<rparr> (entries c)\<rparr>))"

text \<open>\<^verbatim>\<open>sr_arpreq_destroy\<close> takes the request out of the queue, if it is there, and frees it.\<close>

fun remove_req :: "nat \<Rightarrow> sr_arpreq list \<Rightarrow> sr_arpreq list" where
  "remove_req p [] = []"
| "remove_req p (r # rs) = (if rq_id r = p then rs else r # remove_req p rs)"

definition sr_arpreq_destroy :: "sr_arpcache \<Rightarrow> nat option \<Rightarrow> sr_arpcache" where
  "sr_arpreq_destroy c entry =
     (case entry of None \<Rightarrow> c | Some p \<Rightarrow> c\<lparr>requests := remove_req p (requests c)\<rparr>)"

definition sr_arpcache_init :: "sr_arpcache \<Rightarrow> sr_arpcache" where
  "sr_arpcache_init c = c\<lparr>
     entries := replicate SR_ARPCACHE_SZ \<lparr> ae_mac = barr_of [], ae_ip = 0, ae_added = 0, ae_valid = False \<rparr>,
     requests := []\<rparr>"

text \<open>What \<^verbatim>\<open>sr_arpcache_destroy\<close> returns, from the results of the two calls of the thread library.\<close>

definition sr_arpcache_destroy :: "int \<Rightarrow> int \<Rightarrow> int" where
  "sr_arpcache_destroy mutex_destroy mutexattr_destroy = (if mutex_destroy \<noteq> 0 \<and> mutexattr_destroy \<noteq> 0 then 1 else 0)"

text \<open>The loop of \<^verbatim>\<open>sr_arpcache_timeout\<close> that invalidates old entries.\<close>

definition expire_entry :: "int \<Rightarrow> sr_arpentry \<Rightarrow> sr_arpentry" where
  "expire_entry curtime e =
     (if ae_valid e \<and> curtime - ae_added e > SR_ARPCACHE_TO then e\<lparr>ae_valid := False\<rparr> else e)"

definition sr_arpcache_expire :: "int \<Rightarrow> sr_arpcache \<Rightarrow> sr_arpcache" where
  "sr_arpcache_expire curtime c = c\<lparr>entries := map (expire_entry curtime) (entries c)\<rparr>"

section \<open>Invariant\<close>

definition packet_ok :: "sr_packet \<Rightarrow> bool" where
  "packet_ok p \<longleftrightarrow> pk_len p \<noteq> 0 \<and> length (pk_buf p) = unat (pk_len p)
     \<and> strncpy (list_of (pk_iface p)) = pk_iface p"

definition cache_inv :: "sr_arpcache \<Rightarrow> bool" where
  "cache_inv c \<longleftrightarrow> length (entries c) = SR_ARPCACHE_SZ
     \<and> distinct (map rq_ip (requests c)) \<and> distinct (map rq_id (requests c))
     \<and> (\<forall>r \<in> set (requests c). rq_id r < next_addr c \<and> list_all packet_ok (rq_packets r))"

lemma set_remove_req: "set (remove_req p rs) \<subseteq> set rs"
  by (induction rs) auto

lemma remove_req_absent: "distinct (map rq_id rs) \<Longrightarrow> p \<notin> rq_id ` set (remove_req p rs)"
  by (induction rs) auto

section \<open>The mapping table\<close>

lemma entry_scan_append: "entry_scan ip a (xs @ ys) = entry_scan ip (entry_scan ip a xs) ys"
  by (induction xs arbitrary: a) simp_all

lemma entry_scan_acc:
  "entry_scan ip a es = (case entry_scan ip None es of None \<Rightarrow> a | Some e \<Rightarrow> Some e)"
proof (induction es arbitrary: a)
  case (Cons e es)
  show ?case
    using Cons [of a] Cons [of "Some e"] by (simp split: option.splits)
qed simp

lemma entry_scan_None: "entry_scan ip None es = None \<longleftrightarrow> (\<forall>e \<in> set es. \<not> (ae_valid e \<and> ae_ip e = ip))"
proof (induction es)
  case (Cons e es)
  then show ?case
    using entry_scan_acc [of ip "Some e" es] by (auto split: option.splits)
qed simp

text \<open>The loop has no \<^verbatim>\<open>break\<close>: the valid entry with the greatest index is returned.\<close>

lemma entry_scan_Some:
  "entry_scan ip None es = Some e \<longleftrightarrow>
   (\<exists>xs ys. es = xs @ e # ys \<and> ae_valid e \<and> ae_ip e = ip \<and> (\<forall>f \<in> set ys. \<not> (ae_valid f \<and> ae_ip f = ip)))"
proof (induction es)
  case (Cons f es)
  show ?case
  proof (cases "entry_scan ip None es")
    case None
    then have "\<forall>g \<in> set es. \<not> (ae_valid g \<and> ae_ip g = ip)" by (simp add: entry_scan_None)
    moreover have "entry_scan ip None (f # es) = (if ae_valid f \<and> ae_ip f = ip then Some f else None)"
      using None entry_scan_acc [of ip "Some f" es] by simp
    ultimately show ?thesis
      by (auto simp: Cons_eq_append_conv)
  next
    case (Some g)
    then have "entry_scan ip None (f # es) = Some g"
      using entry_scan_acc [of ip "Some f" es] by simp
    moreover from Some Cons.IH have "\<exists>h \<in> set es. ae_valid h \<and> ae_ip h = ip"
      by (metis entry_scan_None option.distinct(1))
    ultimately show ?thesis
      using Cons.IH Some by (auto simp: Cons_eq_append_conv)
  qed
qed simp

lemma fill_slot_split:
  assumes "\<exists>e \<in> set es. \<not> ae_valid e"
  shows "\<exists>xs e ys. es = xs @ e # ys \<and> (\<forall>x \<in> set xs. ae_valid x) \<and> \<not> ae_valid e
    \<and> fill_slot n es = xs @ n # ys"
  using assms
proof (induction es)
  case (Cons a es)
  show ?case
  proof (cases "ae_valid a")
    case True
    with Cons obtain xs e ys where "es = xs @ e # ys" "\<forall>x \<in> set xs. ae_valid x" "\<not> ae_valid e"
      "fill_slot n es = xs @ n # ys" by auto
    with True show ?thesis
      by (intro exI [of _ "a # xs"] exI [of _ e] exI [of _ ys]) simp
  next
    case False
    then show ?thesis
      by (intro exI [of _ "[]"] exI [of _ a] exI [of _ es]) simp
  qed
qed simp

lemma fill_slot_full: "\<forall>e \<in> set es. ae_valid e \<Longrightarrow> fill_slot n es = es"
  by (induction es) simp_all

lemma length_fill_slot [simp]: "length (fill_slot n es) = length es"
  by (induction es) simp_all

lemma entry_scan_invalid: "\<not> ae_valid e \<Longrightarrow> entry_scan ip a (e # es) = entry_scan ip a es"
  by simp

lemma entry_scan_fill_other:
  assumes "ae_ip n \<noteq> ip"
  shows "entry_scan ip None (fill_slot n es) = entry_scan ip None es"
proof (cases "\<exists>e \<in> set es. \<not> ae_valid e")
  case True
  from fill_slot_split [OF this, of n] show ?thesis
    using assms by (force simp: entry_scan_append)
next
  case False
  then show ?thesis by (simp add: fill_slot_full)
qed

lemma entry_scan_fill_new:
  assumes "ae_valid n" and "ae_ip n = ip" and "\<exists>e \<in> set es. \<not> ae_valid e"
    and "entry_scan ip None es = None"
  shows "entry_scan ip None (fill_slot n es) = Some n"
proof -
  obtain xs e ys where "es = xs @ e # ys" "fill_slot n es = xs @ n # ys"
    using fill_slot_split [OF assms(3), of n] by blast
  moreover from this assms(4) have "entry_scan ip None ys = None"
    by (simp add: entry_scan_None)
  ultimately show ?thesis
    using assms(1,2) entry_scan_acc [of ip "Some n" ys] by (simp add: entry_scan_append)
qed

definition has_free_slot :: "sr_arpcache \<Rightarrow> bool" where
  "has_free_slot c \<longleftrightarrow> (\<exists>e \<in> set (entries c). \<not> ae_valid e)"

text \<open>What a client of the table sees: the hardware address and when it was learnt.\<close>

definition arp_view :: "sr_arpcache \<Rightarrow> u32 \<Rightarrow> (mac \<times> int) option" where
  "arp_view c ip = map_option (\<lambda>e. (ae_mac e, ae_added e)) (sr_arpcache_lookup c ip)"

definition arp_learn :: "int \<Rightarrow> mac \<Rightarrow> u32 \<Rightarrow> sr_arpcache \<Rightarrow> sr_arpcache" where
  "arp_learn now mac ip c = snd (sr_arpcache_insert now c mac ip)"

datatype table_op = Learn int mac u32 | Expire int

primrec table_step ::
  "(int \<Rightarrow> mac \<Rightarrow> u32 \<Rightarrow> 'c \<Rightarrow> 'c) \<Rightarrow> (int \<Rightarrow> 'c \<Rightarrow> 'c) \<Rightarrow> table_op \<Rightarrow> 'c \<Rightarrow> 'c" where
  "table_step learn expire (Learn now mac ip) c = learn now mac ip c"
| "table_step learn expire (Expire now) c = expire now c"

text \<open>An operation that concerns other addresses, or happens while the mapping of \<open>ip\<close> is young.\<close>

primrec keeps :: "u32 \<Rightarrow> int \<Rightarrow> table_op \<Rightarrow> bool" where
  "keeps ip t (Learn now mac ip') \<longleftrightarrow> ip' \<noteq> ip"
| "keeps ip t (Expire now) \<longleftrightarrow> now - t \<le> SR_ARPCACHE_TO"

locale mapping_table =
  fixes view :: "'c \<Rightarrow> u32 \<Rightarrow> (mac \<times> int) option"
    and learn :: "int \<Rightarrow> mac \<Rightarrow> u32 \<Rightarrow> 'c \<Rightarrow> 'c"
    and expire :: "int \<Rightarrow> 'c \<Rightarrow> 'c"
    and free :: "'c \<Rightarrow> bool"
  assumes view_learn_other: "ip \<noteq> ip' \<Longrightarrow> view (learn now m ip c) ip' = view c ip'"
    and view_learn_new: "free c \<Longrightarrow> view c ip = None \<Longrightarrow> view (learn now m ip c) ip = Some (m, now)"
    and view_learn_full: "\<not> free c \<Longrightarrow> learn now m ip c = c \<or> view (learn now m ip c) = view c"
    and view_expire_young: "view c ip = Some (m, t) \<Longrightarrow> now - t \<le> SR_ARPCACHE_TO \<Longrightarrow>
      view (expire now c) ip = Some (m, t)"
    and view_expired: "view (expire now c) ip = Some (m, t) \<Longrightarrow> now - t \<le> SR_ARPCACHE_TO"
    and view_expire_None: "view c ip = None \<Longrightarrow> view (expire now c) ip = None"
begin

lemma view_step:
  "view c ip = Some (m, t) \<Longrightarrow> keeps ip t op \<Longrightarrow> view (table_step learn expire op c) ip = Some (m, t)"
  by (cases op) (auto simp: view_learn_other view_expire_young)

lemma view_run:
  "view c ip = Some (m, t) \<Longrightarrow> list_all (keeps ip t) ops \<Longrightarrow>
   view (fold (table_step learn expire) ops c) ip = Some (m, t)"
  by (induction ops arbitrary: c) (simp_all add: view_step)

lemma learnt_until_expired:
  assumes "free c" and "view c ip = None" and "list_all (keeps ip t) ops"
  shows "view (fold (table_step learn expire) ops (learn t m ip c)) ip = Some (m, t)"
  using assms by (intro view_run view_learn_new)

end

lemma entry_scan_expire_young:
  assumes "entry_scan ip None es = Some e" and "now - ae_added e \<le> 15"
  shows "entry_scan ip None (map (expire_entry now) es) = Some e"
proof -
  obtain xs ys where "es = xs @ e # ys" "ae_valid e" "ae_ip e = ip"
    "\<forall>f \<in> set ys. \<not> (ae_valid f \<and> ae_ip f = ip)"
    using assms(1) by (auto simp: entry_scan_Some)
  moreover from this assms(2) have "expire_entry now e = e" by (simp add: expire_entry_def)
  ultimately show ?thesis
    unfolding entry_scan_Some
    by (intro exI [of _ "map (expire_entry now) xs"] exI [of _ "map (expire_entry now) ys"])
      (auto simp: expire_entry_def)
qed

lemma entry_scan_expired:
  assumes "entry_scan ip None (map (expire_entry now) es) = Some e"
  shows "now - ae_added e \<le> 15"
proof -
  obtain xs ys where "map (expire_entry now) es = xs @ e # ys" "ae_valid e"
    using assms by (auto simp: entry_scan_Some)
  then have "e \<in> set (map (expire_entry now) es)" "ae_valid e"
    by (metis in_set_conv_decomp)+
  then show ?thesis by (auto simp: expire_entry_def split: if_splits)
qed

lemma entry_scan_expire_None:
  "entry_scan ip None es = None \<Longrightarrow> entry_scan ip None (map (expire_entry now) es) = None"
  by (auto simp: entry_scan_None expire_entry_def)

lemmas table_defs = arp_view_def arp_learn_def sr_arpcache_lookup_def sr_arpcache_insert_def
  sr_arpcache_expire_def has_free_slot_def case_prod_unfold Let_def

interpretation arp_table: mapping_table arp_view arp_learn sr_arpcache_expire has_free_slot
proof
  show "arp_view (arp_learn now m ip c) ip' = arp_view c ip'" if "ip \<noteq> ip'" for ip ip' now m c
    using that by (simp add: table_defs entry_scan_fill_other)
  show "arp_view (arp_learn now m ip c) ip = Some (m, now)"
    if "has_free_slot c" "arp_view c ip = None" for ip now m c
    using that by (simp add: table_defs entry_scan_fill_new)
  show "arp_learn now m ip c = c \<or> arp_view (arp_learn now m ip c) = arp_view c"
    if "\<not> has_free_slot c" for now m ip c
    using that by (auto simp: table_defs fill_slot_full fun_eq_iff)
  show "arp_view (sr_arpcache_expire now c) ip = Some (m, t)"
    if "arp_view c ip = Some (m, t)" "now - t \<le> 15" for c ip m t now
    using that by (force simp: table_defs dest: entry_scan_expire_young)
  show "now - t \<le> 15" if "arp_view (sr_arpcache_expire now c) ip = Some (m, t)" for c ip m t now
    using that by (auto simp: table_defs dest: entry_scan_expired)
  show "arp_view (sr_arpcache_expire now c) ip = None" if "arp_view c ip = None" for c ip now
    using that by (simp add: table_defs entry_scan_expire_None)
qed

section \<open>The request queue\<close>

definition req_packets :: "sr_arpreq list \<Rightarrow> u32 \<Rightarrow> sr_packet list option" where
  "req_packets rs ip = map_option rq_packets (find_req ip rs)"

text \<open>The packets that wait for an address, newest first; \<open>None\<close> when no request is outstanding.\<close>

definition pend :: "sr_arpcache \<Rightarrow> u32 \<Rightarrow> sr_packet list option" where
  "pend c = req_packets (requests c)"

lemma find_req_Some: "find_req ip rs = Some r \<Longrightarrow> r \<in> set rs \<and> rq_ip r = ip"
  by (induction rs) (auto split: if_splits)

lemma find_req_None: "find_req ip rs = None \<longleftrightarrow> ip \<notin> rq_ip ` set rs"
  by (induction rs) auto

lemma find_req_append:
  "find_req ip (rs @ ss) = (case find_req ip rs of None \<Rightarrow> find_req ip ss | Some r \<Rightarrow> Some r)"
  by (induction rs) auto

lemma find_req_mem: "distinct (map rq_ip rs) \<Longrightarrow> r \<in> set rs \<Longrightarrow> find_req (rq_ip r) rs = Some r"
  by (induction rs) auto

lemma upd_req_simps [simp]:
  "upd_req p f [] = []"
  "upd_req p f (r # rs) = (if rq_id r = p then f r else r) # upd_req p f rs"
  by (simp_all add: upd_req_def)

lemma upd_req_append [simp]: "upd_req p f (rs @ ss) = upd_req p f rs @ upd_req p f ss"
  by (simp add: upd_req_def)

lemma upd_req_ids [simp]:
  "(\<And>r. rq_id (f r) = rq_id r) \<Longrightarrow> map rq_id (upd_req p f rs) = map rq_id rs"
  "(\<And>r. rq_ip (f r) = rq_ip r) \<Longrightarrow> map rq_ip (upd_req p f rs) = map rq_ip rs"
  by (induction rs) simp_all

lemma upd_req_not_mem: "p \<notin> rq_id ` set rs \<Longrightarrow> upd_req p f rs = rs"
  by (induction rs) auto

lemma set_upd_req: "set (upd_req p f rs) = (\<lambda>r. if rq_id r = p then f r else r) ` set rs"
  by (simp add: upd_req_def)

lemma find_req_upd:
  assumes "\<And>r. rq_ip (f r) = rq_ip r" and "distinct (map rq_id rs)" and "distinct (map rq_ip rs)"
    and "r \<in> set rs"
  shows "find_req ip (upd_req (rq_id r) f rs) = (if ip = rq_ip r then Some (f r) else find_req ip rs)"
  using assms(2-4) by (induction rs) (auto simp: assms(1) upd_req_not_mem)

text \<open>What a client of the queue may rely on, for any representation of the queue.\<close>

locale pending_queue =
  fixes inv :: "'c \<Rightarrow> bool"
    and pending :: "'c \<Rightarrow> u32 \<Rightarrow> sr_packet list option"
    and enq :: "u32 \<Rightarrow> sr_packet \<Rightarrow> 'c \<Rightarrow> 'c"
    and answer :: "u32 \<Rightarrow> 'c \<Rightarrow> sr_packet list option \<times> 'c"
  assumes inv_enq: "inv c \<Longrightarrow> packet_ok p \<Longrightarrow> inv (enq ip p c)"
    and pending_enq: "inv c \<Longrightarrow> packet_ok p \<Longrightarrow>
      pending (enq ip p c) = (pending c)(ip \<mapsto> p # (case pending c ip of None \<Rightarrow> [] | Some ps \<Rightarrow> ps))"
    and inv_answer: "inv c \<Longrightarrow> inv (snd (answer ip c))"
    and fst_answer: "inv c \<Longrightarrow> fst (answer ip c) = pending c ip"
    and pending_answer: "inv c \<Longrightarrow> pending (snd (answer ip c)) = (pending c)(ip := None)"
begin

lemma inv_enqs: "inv c \<Longrightarrow> \<forall>x \<in> set xs. packet_ok (snd x) \<Longrightarrow> inv (fold (\<lambda>(a, p). enq a p) xs c)"
  by (induction xs arbitrary: c) (auto simp: inv_enq)

lemma pending_enqs:
  "inv c \<Longrightarrow> \<forall>x \<in> set xs. packet_ok (snd x) \<Longrightarrow>
   (case pending (fold (\<lambda>(a, p). enq a p) xs c) ip of None \<Rightarrow> [] | Some ps \<Rightarrow> ps) =
     rev (map snd (filter (\<lambda>(a, p). a = ip) xs)) @ (case pending c ip of None \<Rightarrow> [] | Some ps \<Rightarrow> ps)"
proof (induction xs arbitrary: c)
  case (Cons x xs)
  obtain a p where x: "x = (a, p)" by (cases x)
  with Cons.prems have "inv (enq a p c)" "packet_ok p" by (simp_all add: inv_enq)
  with Cons.IH [of "enq a p c"] Cons.prems x show ?case
    by (simp add: pending_enq)
qed simp

text \<open>Answering an address hands out every packet queued for it since the queue was empty, once.\<close>

lemma answer_complete:
  assumes "inv c" and "pending c ip = None" and "\<forall>x \<in> set xs. packet_ok (snd x)"
  shows "(case fst (answer ip (fold (\<lambda>(a, p). enq a p) xs c)) of None \<Rightarrow> [] | Some ps \<Rightarrow> ps) =
      rev (map snd (filter (\<lambda>(a, p). a = ip) xs))"
    and "pending (snd (answer ip (fold (\<lambda>(a, p). enq a p) xs c))) ip = None"
  using assms pending_enqs [of c xs ip] inv_enqs [of c xs]
  by (simp_all add: fst_answer pending_answer)

end

text \<open>The two operations as the handlers use them.\<close>

definition enq_packet :: "u32 \<Rightarrow> sr_packet \<Rightarrow> sr_arpcache \<Rightarrow> sr_arpcache" where
  "enq_packet ip p c =
     (case sr_arpcache_queuereq c ip (Some (pk_buf p)) (pk_len p) (Some (list_of (pk_iface p))) of
        Inr (_, c') \<Rightarrow> c' | Inl _ \<Rightarrow> c)"

definition answer_req :: "int \<Rightarrow> mac \<Rightarrow> u32 \<Rightarrow> sr_arpcache \<Rightarrow> sr_packet list option \<times> sr_arpcache" where
  "answer_req now mac ip c =
     (let (req, c') = sr_arpcache_insert now c mac ip in (map_option rq_packets req, c'))"

lemma cache_invD:
  assumes "cache_inv c"
  shows "length (entries c) = 100" "distinct (map rq_ip (requests c))" "distinct (map rq_id (requests c))"
    and "r \<in> set (requests c) \<Longrightarrow> rq_id r < next_addr c"
    and "r \<in> set (requests c) \<Longrightarrow> list_all packet_ok (rq_packets r)"
  using assms by (auto simp: cache_inv_def)

lemma queuereq_find_spec:
  assumes "cache_inv c" and "queuereq_find c ip = (p, c1)"
  shows "cache_inv c1" and "entries c1 = entries c"
    and "\<exists>r \<in> set (requests c1). rq_id r = p \<and> rq_ip r = ip
      \<and> rq_packets r = (case pend c ip of None \<Rightarrow> [] | Some ps \<Rightarrow> ps)
      \<and> (pend c ip = None \<longrightarrow> r = new_req p ip)"
    and "pend c1 = (pend c)(ip \<mapsto> case pend c ip of None \<Rightarrow> [] | Some ps \<Rightarrow> ps)"
proof -
  note inv = cache_invD [OF assms(1)]
  have *: "cache_inv c1 \<and> entries c1 = entries c
    \<and> (\<exists>r \<in> set (requests c1). rq_id r = p \<and> rq_ip r = ip
        \<and> rq_packets r = (case pend c ip of None \<Rightarrow> [] | Some ps \<Rightarrow> ps)
        \<and> (pend c ip = None \<longrightarrow> r = new_req p ip))
    \<and> pend c1 = (pend c)(ip \<mapsto> case pend c ip of None \<Rightarrow> [] | Some ps \<Rightarrow> ps)"
  proof (cases "find_req ip (requests c)")
    case None
    then have c1: "c1 = c\<lparr>requests := requests c @ [new_req (next_addr c) ip], next_addr := Suc (next_addr c)\<rparr>"
      and p: "p = next_addr c"
      using assms(2) by (auto simp: queuereq_find_def)
    have pn: "pend c ip = None"
      using None by (simp add: pend_def req_packets_def)
    have "next_addr c \<notin> rq_id ` set (requests c)"
      using inv(4) by fastforce
    then have "cache_inv c1"
      using assms(1) None by (auto simp: c1 cache_inv_def new_req_def find_req_None less_SucI)
    moreover have "pend c1 = (pend c)(ip \<mapsto> [])"
      using None by (auto simp: c1 pend_def req_packets_def fun_eq_iff find_req_append new_req_def split: option.splits)
    ultimately show ?thesis
      by (auto simp: c1 p pn new_req_def)
  next
    case (Some r)
    then have "r \<in> set (requests c)" "rq_ip r = ip" by (auto dest: find_req_Some)
    with Some show ?thesis
      using assms by (auto simp: queuereq_find_def pend_def req_packets_def fun_eq_iff)
  qed
  then show "cache_inv c1" "entries c1 = entries c"
    "\<exists>r \<in> set (requests c1). rq_id r = p \<and> rq_ip r = ip
      \<and> rq_packets r = (case pend c ip of None \<Rightarrow> [] | Some ps \<Rightarrow> ps)
      \<and> (pend c ip = None \<longrightarrow> r = new_req p ip)"
    "pend c1 = (pend c)(ip \<mapsto> case pend c ip of None \<Rightarrow> [] | Some ps \<Rightarrow> ps)"
    by blast+
qed

lemma cache_inv_upd_req:
  assumes "cache_inv c" and "\<And>r. rq_id (f r) = rq_id r" and "\<And>r. rq_ip (f r) = rq_ip r"
    and "\<And>r. list_all packet_ok (rq_packets r) \<Longrightarrow> list_all packet_ok (rq_packets (f r))"
  shows "cache_inv (c\<lparr>requests := upd_req p f (requests c)\<rparr>)"
  using assms by (auto simp: cache_inv_def set_upd_req)

lemma packet_ok_new:
  "l \<noteq> 0 \<Longrightarrow> unat l \<le> length b \<Longrightarrow>
   packet_ok (new_pkt b l i)"
  by (simp add: packet_ok_def new_pkt_def strncpy_strncpy)

lemma queuereq_spec:
  assumes inv: "cache_inv c" and len: "l \<noteq> 0" "unat l \<le> length b"
  obtains p c' r where "sr_arpcache_queuereq c ip (Some b) l (Some i) = Inr (p, c')"
    and "cache_inv c'" and "entries c' = entries c"
    and "r \<in> set (requests c')" "rq_id r = p" "rq_ip r = ip"
    and "rq_packets r = new_pkt b l i # (case pend c ip of None \<Rightarrow> [] | Some ps \<Rightarrow> ps)"
    and "pend c ip = None \<longrightarrow> r = (new_req p ip)\<lparr>rq_packets := [new_pkt b l i]\<rparr>"
    and "pend c' = (pend c)(ip \<mapsto> new_pkt b l i # (case pend c ip of None \<Rightarrow> [] | Some ps \<Rightarrow> ps))"
proof -
  obtain p c1 where f: "queuereq_find c ip = (p, c1)" by fastforce
  note s = queuereq_find_spec [OF inv f]
  from s(3) obtain r where mem: "r \<in> set (requests c1)" and "rq_id r = p \<and> rq_ip r = ip
    \<and> rq_packets r = (case pend c ip of None \<Rightarrow> [] | Some ps \<Rightarrow> ps)
    \<and> (pend c ip = None \<longrightarrow> r = new_req p ip)" by (rule bexE)
  then have r: "r \<in> set (requests c1)" "rq_id r = p" "rq_ip r = ip"
    "rq_packets r = (case pend c ip of None \<Rightarrow> [] | Some ps \<Rightarrow> ps)"
    "pend c ip = None \<longrightarrow> r = new_req p ip" by simp_all
  let ?f = "\<lambda>r. r\<lparr>rq_packets := new_pkt b l i # rq_packets r\<rparr>"
  let ?c = "c1\<lparr>requests := upd_req p ?f (requests c1)\<rparr>"
  have new: "packet_ok (new_pkt b l i)"
    using len by (rule packet_ok_new)
  show thesis
  proof (rule that [of p ?c "?f r"])
    show "sr_arpcache_queuereq c ip (Some b) l (Some i) = Inr (p, ?c)"
      using len by (simp add: sr_arpcache_queuereq_def f)
    show "cache_inv ?c"
      using s(1) new by (intro cache_inv_upd_req) simp_all
    show "?f r \<in> set (requests ?c)"
      using r(1,2) by (auto simp: set_upd_req)
    have "pend ?c = (pend c1)(ip \<mapsto> new_pkt b l i # rq_packets r)"
      using find_req_upd [of ?f "requests c1" r] cache_invD(2,3) [OF s(1)] r(1-3)
      by (auto simp: pend_def req_packets_def fun_eq_iff)
    then show "pend ?c = (pend c)(ip \<mapsto> new_pkt b l i # (case pend c ip of None \<Rightarrow> [] | Some ps \<Rightarrow> ps))"
      using s(4) r(4) by simp
  qed (use r s(2) in \<open>simp_all add: new_req_def\<close>)
qed

lemma unlink_req_spec:
  "distinct (map rq_ip rs) \<Longrightarrow>
   fst (unlink_req ip rs) = find_req ip rs \<and> snd (unlink_req ip rs) = filter (\<lambda>r. rq_ip r \<noteq> ip) rs"
proof (induction rs)
  case (Cons r rs)
  then show ?case
    by (cases "rq_ip r = ip") (auto simp: case_prod_unfold filter_key_absent)
qed simp

lemma find_req_filter:
  "find_req a (filter (\<lambda>r. rq_ip r \<noteq> ip) rs) = (if a = ip then None else find_req a rs)"
  by (induction rs) auto

lemma cache_inv_filter:
  "cache_inv c \<Longrightarrow> length es = 100 \<Longrightarrow> cache_inv (c\<lparr>requests := filter P (requests c), entries := es\<rparr>)"
  by (auto simp: cache_inv_def distinct_map_filter)

lemma insert_spec:
  assumes "cache_inv c"
  shows "cache_inv (snd (sr_arpcache_insert now c mac ip))"
    and "fst (sr_arpcache_insert now c mac ip) = find_req ip (requests c)"
    and "requests (snd (sr_arpcache_insert now c mac ip)) = filter (\<lambda>r. rq_ip r \<noteq> ip) (requests c)"
    and "pend (snd (sr_arpcache_insert now c mac ip)) = (pend c)(ip := None)"
  using assms cache_invD [OF assms] unlink_req_spec [of "requests c" ip]
  by (auto simp: sr_arpcache_insert_def case_prod_unfold Let_def cache_inv_filter pend_def req_packets_def
      fun_eq_iff find_req_filter)

lemma remove_req_filter:
  "distinct (map rq_id rs) \<Longrightarrow> remove_req p rs = filter (\<lambda>r. rq_id r \<noteq> p) rs"
  by (induction rs) (auto simp: filter_key_absent)

lemma cache_inv_destroy: "cache_inv c \<Longrightarrow> cache_inv (sr_arpreq_destroy c p)"
  using cache_inv_filter [of c "entries c"]
  by (auto simp: sr_arpreq_destroy_def remove_req_filter cache_invD split: option.splits)

lemma requests_expire [simp]: "requests (sr_arpcache_expire t c) = requests c"
  by (simp add: sr_arpcache_expire_def)

lemma cache_inv_expire: "cache_inv c \<Longrightarrow> cache_inv (sr_arpcache_expire now c)"
  by (simp add: cache_inv_def sr_arpcache_expire_def)

lemma cache_inv_init: "cache_inv (sr_arpcache_init c)"
  by (simp add: cache_inv_def sr_arpcache_init_def)

interpretation arp_queue: pending_queue cache_inv pend enq_packet "answer_req now mac" for now mac
proof
  fix c p ip
  assume c: "cache_inv c" and p: "packet_ok p"
  then have l: "pk_len p \<noteq> 0" "unat (pk_len p) \<le> length (pk_buf p)"
    and eq: "new_pkt (pk_buf p) (pk_len p) (list_of (pk_iface p)) = p"
    by (simp_all add: packet_ok_def new_pkt_def)
  show "cache_inv (enq_packet ip p c)"
    by (rule queuereq_spec [OF c l, of ip "list_of (pk_iface p)"]) (simp add: enq_packet_def)
  show "pend (enq_packet ip p c) = (pend c)(ip \<mapsto> p # (case pend c ip of None \<Rightarrow> [] | Some ps \<Rightarrow> ps))"
    by (rule queuereq_spec [OF c l, of ip "list_of (pk_iface p)"]) (simp add: enq_packet_def eq)
next
  fix c ip assume c: "cache_inv c"
  show "cache_inv (snd (answer_req now mac ip c))"
    and "fst (answer_req now mac ip c) = pend c ip"
    and "pend (snd (answer_req now mac ip c)) = (pend c)(ip := None)"
    using insert_spec [OF c]
    by (simp_all add: answer_req_def case_prod_unfold Let_def pend_def req_packets_def)
qed

end
