(* ===== verification/Dumper.thy ===== *)
theory Dumper
  imports Instance
begin

text \<open>
  The packet log in tcpdump format: \<^verbatim>\<open>src/sr_dumper.c\<close>, \<^verbatim>\<open>src/sr_dumper.h\<close> and \<^verbatim>\<open>sr_log_packet\<close> of
  \<^verbatim>\<open>src/sr_vns_comm.c\<close>. A file is the list of bytes written to it; writes are taken to succeed.
  \<open>pcap_parse\<close> is a reader for such files, the reference against which the writer is proved.
\<close>

section \<open>File structures\<close>

record pcap_file_header =
  magic :: u32
  version_major :: u16
  version_minor :: u16
  thiszone :: u32
  sigfigs :: u32
  snaplen :: u32
  linktype :: u32

text \<open>\<^verbatim>\<open>struct pcap_pkthdr\<close>, the header in memory; the time stamp is a \<^verbatim>\<open>struct timeval\<close>.\<close>

record pcap_pkthdr =
  tv_sec :: int
  tv_usec :: int
  caplen :: u32
  pkt_len :: u32

record pcap_sf_pkthdr =
  sf_tv_sec :: u32
  sf_tv_usec :: u32
  sf_caplen :: u32
  sf_len :: u32

abbreviation (input) sizeof_pcap_file_header :: nat where "sizeof_pcap_file_header \<equiv> 24"
abbreviation (input) sizeof_pcap_sf_pkthdr :: nat where "sizeof_pcap_sf_pkthdr \<equiv> 16"

definition rd_pcap_file_header :: "byte list \<Rightarrow> pcap_file_header" where
  "rd_pcap_file_header bs = \<lparr> magic = u32_at 0 bs, version_major = u16_at 4 bs,
     version_minor = u16_at 6 bs, thiszone = u32_at 8 bs, sigfigs = u32_at 12 bs,
     snaplen = u32_at 16 bs, linktype = u32_at 20 bs \<rparr>"

definition wr_pcap_file_header :: "pcap_file_header \<Rightarrow> byte list" where
  "wr_pcap_file_header h = st32 (magic h) @ st16 (version_major h) @ st16 (version_minor h)
     @ st32 (thiszone h) @ st32 (sigfigs h) @ st32 (snaplen h) @ st32 (linktype h)"

definition rd_pcap_sf_pkthdr :: "byte list \<Rightarrow> pcap_sf_pkthdr" where
  "rd_pcap_sf_pkthdr bs = \<lparr> sf_tv_sec = u32_at 0 bs, sf_tv_usec = u32_at 4 bs,
     sf_caplen = u32_at 8 bs, sf_len = u32_at 12 bs \<rparr>"

definition wr_pcap_sf_pkthdr :: "pcap_sf_pkthdr \<Rightarrow> byte list" where
  "wr_pcap_sf_pkthdr h = st32 (sf_tv_sec h) @ st32 (sf_tv_usec h) @ st32 (sf_caplen h) @ st32 (sf_len h)"

interpretation pcap_file_header:
  packed_struct sizeof_pcap_file_header rd_pcap_file_header wr_pcap_file_header
  by unfold_locales (simp_all add: rd_pcap_file_header_def wr_pcap_file_header_def decode_simps encode_simps)

interpretation pcap_sf_pkthdr:
  packed_struct sizeof_pcap_sf_pkthdr rd_pcap_sf_pkthdr wr_pcap_sf_pkthdr
  by unfold_locales (simp_all add: rd_pcap_sf_pkthdr_def wr_pcap_sf_pkthdr_def decode_simps encode_simps)

section \<open>The code\<close>

definition TCPDUMP_MAGIC :: u32 where "TCPDUMP_MAGIC = 0xa1b2c3d4"
definition LINKTYPE_ETHERNET :: u32 where "LINKTYPE_ETHERNET = 1"

definition sf_write_header :: "byte list \<Rightarrow> u32 \<Rightarrow> u32 \<Rightarrow> u32 \<Rightarrow> byte list" where
  "sf_write_header fp lt zone snap = fp @ wr_pcap_file_header
     \<lparr> magic = TCPDUMP_MAGIC, version_major = 2, version_minor = 4, thiszone = zone, sigfigs = 0,
       snaplen = snap, linktype = lt \<rparr>"

text \<open>
  \<^verbatim>\<open>sr_dump_open\<close>: the name \<^verbatim>\<open>-\<close> is standard output, on which \<open>out\<close> was written before; any other name is opened
  for writing. \<open>fopen\<close> is the stream of a name, \<open>None\<close> if it cannot be opened.
\<close>

definition sr_dump_open :: "(byte list \<Rightarrow> byte list option) \<Rightarrow> byte list \<Rightarrow> byte list \<Rightarrow> u32 \<Rightarrow> u32 \<Rightarrow> byte list option" where
  "sr_dump_open fopen out fname zone snap =
     (case (if cstr fname = text_bytes ''-'' then Some out else fopen (cstr fname)) of
        None \<Rightarrow> None
      | Some fp \<Rightarrow> Some (sf_write_header fp LINKTYPE_ETHERNET zone snap))"

text \<open>A stream is what was written to it; \<^verbatim>\<open>fclose\<close> writes out what was buffered.\<close>

definition sr_dump_close :: "byte list \<Rightarrow> byte list" where
  "sr_dump_close fp = fp"

definition sr_dump :: "byte list \<Rightarrow> pcap_pkthdr \<Rightarrow> byte list \<Rightarrow> byte list res" where
  "sr_dump fp h sp =
     (let sf_hdr = \<lparr> sf_tv_sec = of_int (tv_sec h), sf_tv_usec = of_int (tv_usec h),
        sf_caplen = caplen h, sf_len = pkt_len h \<rparr> in
      bnd (guard Oob_access (unat (caplen h) \<le> length sp)) (\<lambda>_.
      Inr (fp @ wr_pcap_sf_pkthdr sf_hdr @ take (unat (caplen h)) sp)))"

text \<open>\<^verbatim>\<open>sr_log_packet\<close>; \<open>tv\<close> is what \<^verbatim>\<open>gettimeofday\<close> returns, and the length is a signed \<^verbatim>\<open>int\<close>.\<close>

definition sr_log_packet :: "int \<times> int \<Rightarrow> sr_instance \<Rightarrow> byte list \<Rightarrow> int \<Rightarrow> sr_instance res" where
  "sr_log_packet tv sr buf len =
     (case logfile sr of None \<Rightarrow> Inr sr
      | Some fp \<Rightarrow>
        (let size = (if int PACKET_DUMP_SIZE < len then int PACKET_DUMP_SIZE else len);
             h = \<lparr> tv_sec = fst tv, tv_usec = snd tv, caplen = of_int size,
               pkt_len = of_int (if size < int PACKET_DUMP_SIZE then size else int PACKET_DUMP_SIZE) \<rparr> in
         bnd (sr_dump fp h buf) (\<lambda>fp'. Inr (sr\<lparr>logfile := Some fp'\<rparr>))))"

section \<open>A reader for the log\<close>

fun pcap_records :: "nat \<Rightarrow> byte list \<Rightarrow> (pcap_sf_pkthdr \<times> byte list) list option" where
  "pcap_records fuel [] = Some []"
| "pcap_records 0 (b # bs) = None"
| "pcap_records (Suc fuel) (b # bs) =
     (let f = b # bs; h = rd_pcap_sf_pkthdr (seg 0 16 f); n = unat (sf_caplen h) in
      if length f < 16 + n then None
      else map_option (Cons (h, seg 16 n f)) (pcap_records fuel (drop (16 + n) f)))"

definition pcap_parse :: "byte list \<Rightarrow> (pcap_file_header \<times> (pcap_sf_pkthdr \<times> byte list) list) option" where
  "pcap_parse f =
     (if length f < 24 then None
      else map_option (Pair (rd_pcap_file_header (seg 0 24 f))) (pcap_records (length f) (drop 24 f)))"

definition record_bytes :: "pcap_sf_pkthdr \<times> byte list \<Rightarrow> byte list" where
  "record_bytes r = wr_pcap_sf_pkthdr (fst r) @ snd r"

lemma pcap_records_concat:
  "\<forall>r \<in> set rs. length (snd r) = unat (sf_caplen (fst r)) \<Longrightarrow>
   length (concat (map record_bytes rs)) \<le> fuel \<Longrightarrow>
   pcap_records fuel (concat (map record_bytes rs)) = Some rs"
proof (induction rs arbitrary: fuel)
  case (Cons r rs)
  obtain h d where r: "r = (h, d)" by (cases r)
  let ?rest = "concat (map record_bytes rs)"
  have f: "concat (map record_bytes (r # rs)) = wr_pcap_sf_pkthdr h @ d @ ?rest"
    by (simp add: record_bytes_def r)
  then obtain b bs where c: "concat (map record_bytes (r # rs)) = b # bs"
    by (metis append_is_Nil_conv list.exhaust list.size(3) pcap_sf_pkthdr.length_wr zero_neq_numeral)
  obtain fuel' where fuel: "fuel = Suc fuel'"
    using Cons.prems(2) unfolding c by (cases fuel) simp_all
  have d: "length d = unat (sf_caplen h)"
    using Cons.prems(1) r by simp
  have len: "16 + length d + length ?rest \<le> Suc fuel'"
    using Cons.prems(2) f fuel by simp
  have "seg 0 16 (b # bs) = wr_pcap_sf_pkthdr h" "seg 16 (unat (sf_caplen h)) (b # bs) = d"
    "drop (16 + unat (sf_caplen h)) (b # bs) = ?rest" "length (b # bs) = 16 + length d + length ?rest"
    unfolding c [symmetric] f by (simp_all add: seg_def d [symmetric])
  moreover have "pcap_records fuel' ?rest = Some rs"
    using Cons.prems(1) len by (intro Cons.IH) auto
  ultimately show ?case
    by (simp only: c fuel pcap_records.simps Let_def pcap_sf_pkthdr.rd_wr d) (simp add: r)
qed simp

text \<open>
  The invariant of a log that was opened by \<open>sr_dump_open\<close>: it parses, with the header the code
  writes, into the packets logged so far.
\<close>

definition log_holds :: "byte list \<Rightarrow> pcap_file_header \<Rightarrow> (pcap_sf_pkthdr \<times> byte list) list \<Rightarrow> bool" where
  "log_holds f h rs \<longleftrightarrow> f = wr_pcap_file_header h @ concat (map record_bytes rs)
     \<and> (\<forall>r \<in> set rs. length (snd r) = unat (sf_caplen (fst r)))"

lemma log_holds_parse: "log_holds f h rs \<Longrightarrow> pcap_parse f = Some (h, rs)"
  by (auto simp: log_holds_def pcap_parse_def seg_def intro!: pcap_records_concat)

lemma log_packet_bytes:
  assumes "logfile sr = Some f" and "0 \<le> len" and "len \<le> int (length buf)"
  shows "\<exists>h. sr_log_packet tv sr buf len =
      Inr (sr\<lparr>logfile := Some (f @ record_bytes (h, take (min 1024 (nat len)) buf))\<rparr>)
    \<and> sf_tv_sec h = of_int (fst tv) \<and> sf_tv_usec h = of_int (snd tv)
    \<and> unat (sf_caplen h) = min 1024 (nat len) \<and> sf_len h = sf_caplen h"
proof -
  let ?size = "if 1024 < len then 1024 else len"
  have n: "unat (of_int ?size :: u32) = min 1024 (nat len)"
  proof -
    have "uint (of_int ?size :: u32) = ?size mod 2 ^ 32"
      by (simp add: uint_word_of_int)
    also have "\<dots> = ?size" using assms(2) by simp
    finally show ?thesis using assms(2) by (auto simp: unat_eq_nat_uint min_def)
  qed
  let ?h = "\<lparr> sf_tv_sec = of_int (fst tv), sf_tv_usec = of_int (snd tv),
    sf_caplen = of_int ?size, sf_len = of_int ?size \<rparr> :: pcap_sf_pkthdr"
  have "(if ?size < 1024 then ?size else 1024) = ?size" by simp
  moreover have "min 1024 (nat len) \<le> length buf" using assms(2,3) by linarith
  ultimately have "sr_log_packet tv sr buf len =
      Inr (sr\<lparr>logfile := Some (f @ record_bytes (?h, take (min 1024 (nat len)) buf))\<rparr>)"
    using assms(1) n by (simp only: sr_log_packet_def sr_dump_def Let_def record_bytes_def option.case
        pcap_pkthdr.select_convs of_nat_numeral fst_conv snd_conv guard_True bnd_Inr)
  with n show ?thesis by (intro exI [of _ ?h]) simp
qed

lemma log_packet_None [simp]: "logfile sr = None \<Longrightarrow> sr_log_packet tv sr buf len = Inr sr"
  by (simp add: sr_log_packet_def)

lemma log_packet_frame:
  "sr_log_packet tv sr buf len = Inr sr' \<Longrightarrow> \<exists>f. sr' = sr\<lparr>logfile := f\<rparr>"
  by (auto simp: sr_log_packet_def Let_def split: option.splits intro: exI [of _ "logfile sr"])

end
