(* ===== verification/Vnscommand.thy ===== *)
theory Vnscommand
  imports Protocol
begin

text \<open>
  The messages between the router and the virtual network server, \<^verbatim>\<open>src/vnscommand.h\<close>: command
  numbers and the packed structs with their layout, each an instance of \<open>packed_struct\<close>. The flexible
  last members (\<^verbatim>\<open>rtable[0]\<close>, \<^verbatim>\<open>salt[0]\<close>, \<^verbatim>\<open>username[0]\<close>, \<^verbatim>\<open>msg[0]\<close>) take no space in the struct; what follows
  the fixed part is the rest of the buffer.
\<close>

section \<open>Command numbers\<close>

definition VNSOPEN :: u32 where "VNSOPEN = 1"
definition VNSCLOSE :: u32 where "VNSCLOSE = 2"
definition VNSPACKET :: u32 where "VNSPACKET = 4"
definition VNSBANNER :: u32 where "VNSBANNER = 8"
definition VNSHWINFO :: u32 where "VNSHWINFO = 16"
definition VNS_RTABLE :: u32 where "VNS_RTABLE = 32"
definition VNS_OPEN_TEMPLATE :: u32 where "VNS_OPEN_TEMPLATE = 64"
definition VNS_AUTH_REQUEST :: u32 where "VNS_AUTH_REQUEST = 128"
definition VNS_AUTH_REPLY :: u32 where "VNS_AUTH_REPLY = 256"
definition VNS_AUTH_STATUS :: u32 where "VNS_AUTH_STATUS = 512"

abbreviation (input) MAXHWENTRIES :: nat where "MAXHWENTRIES \<equiv> 256"

definition HWINTERFACE :: u32 where "HWINTERFACE = 1"
definition HWSPEED :: u32 where "HWSPEED = 2"
definition HWSUBNET :: u32 where "HWSUBNET = 4"
definition HWFIXEDIP :: u32 where "HWFIXEDIP = 16"
definition HWETHER :: u32 where "HWETHER = 32"
definition HWETHIP :: u32 where "HWETHIP = 64"
definition HWMASK :: u32 where "HWMASK = 128"

lemmas command_numbers = VNSOPEN_def VNSCLOSE_def VNSPACKET_def VNSBANNER_def VNSHWINFO_def
  VNS_RTABLE_def VNS_OPEN_TEMPLATE_def VNS_AUTH_REQUEST_def VNS_AUTH_REPLY_def VNS_AUTH_STATUS_def

lemmas hw_numbers = HWINTERFACE_def HWSPEED_def HWSUBNET_def HWFIXEDIP_def HWETHER_def HWETHIP_def
  HWMASK_def

abbreviation (input) IDSIZE :: nat where "IDSIZE \<equiv> 32"

section \<open>Messages\<close>

text \<open>Every message starts with its length and its type, in network byte order.\<close>

record c_base =
  mLen :: u32
  mType :: u32

record c_open = c_base +
  topoID :: u16
  pad :: u16
  mVirtualHostID :: "32 barr"
  mUID :: "32 barr"
  mPass :: "32 barr"

record c_packet_header = c_base +
  mInterfaceName :: "16 barr"

record c_hw_entry =
  mKey :: u32
  hw_value :: "32 barr"

record c_rtable = c_base +
  rt_mVirtualHostID :: "32 barr"

record c_open_template = c_base +
  templateName :: "30 barr"
  ot_mVirtualHostID :: "32 barr"

record c_auth_reply = c_base +
  usernameLen :: u32

record c_auth_status = c_base +
  auth_ok :: byte

abbreviation (input) sizeof_c_base :: nat where "sizeof_c_base \<equiv> 8"
abbreviation (input) sizeof_c_open :: nat where "sizeof_c_open \<equiv> 108"
abbreviation (input) sizeof_c_packet_header :: nat where "sizeof_c_packet_header \<equiv> 24"
abbreviation (input) sizeof_c_packet_ethernet_header :: nat where "sizeof_c_packet_ethernet_header \<equiv> 38"
abbreviation (input) sizeof_c_hw_entry :: nat where "sizeof_c_hw_entry \<equiv> 36"
abbreviation (input) sizeof_c_rtable :: nat where "sizeof_c_rtable \<equiv> 40"
abbreviation (input) sizeof_c_open_template :: nat where "sizeof_c_open_template \<equiv> 70"
abbreviation (input) sizeof_c_auth_reply :: nat where "sizeof_c_auth_reply \<equiv> 12"
abbreviation (input) sizeof_c_auth_status :: nat where "sizeof_c_auth_status \<equiv> 9"

definition rd_base :: "byte list \<Rightarrow> c_base" where
  "rd_base bs = \<lparr> mLen = u32_at 0 bs, mType = u32_at 4 bs \<rparr>"

definition wr_base :: "c_base \<Rightarrow> byte list" where
  "wr_base m = st32 (mLen m) @ st32 (mType m)"

definition rd_open :: "byte list \<Rightarrow> c_open" where
  "rd_open bs = \<lparr> mLen = u32_at 0 bs, mType = u32_at 4 bs, topoID = u16_at 8 bs, pad = u16_at 10 bs,
     mVirtualHostID = arr_at 12 bs, mUID = arr_at 44 bs, mPass = arr_at 76 bs \<rparr>"

definition wr_open :: "c_open \<Rightarrow> byte list" where
  "wr_open m = st32 (mLen m) @ st32 (mType m) @ st16 (topoID m) @ st16 (pad m)
     @ list_of (mVirtualHostID m) @ list_of (mUID m) @ list_of (mPass m)"

definition rd_packet_header :: "byte list \<Rightarrow> c_packet_header" where
  "rd_packet_header bs = \<lparr> mLen = u32_at 0 bs, mType = u32_at 4 bs, mInterfaceName = arr_at 8 bs \<rparr>"

definition wr_packet_header :: "c_packet_header \<Rightarrow> byte list" where
  "wr_packet_header m = st32 (mLen m) @ st32 (mType m) @ list_of (mInterfaceName m)"

definition rd_hw_entry :: "byte list \<Rightarrow> c_hw_entry" where
  "rd_hw_entry bs = \<lparr> mKey = u32_at 0 bs, hw_value = arr_at 4 bs \<rparr>"

definition wr_hw_entry :: "c_hw_entry \<Rightarrow> byte list" where
  "wr_hw_entry e = st32 (mKey e) @ list_of (hw_value e)"

definition rd_rtable :: "byte list \<Rightarrow> c_rtable" where
  "rd_rtable bs = \<lparr> mLen = u32_at 0 bs, mType = u32_at 4 bs, rt_mVirtualHostID = arr_at 8 bs \<rparr>"

definition wr_rtable :: "c_rtable \<Rightarrow> byte list" where
  "wr_rtable m = st32 (mLen m) @ st32 (mType m) @ list_of (rt_mVirtualHostID m)"

definition rd_open_template :: "byte list \<Rightarrow> c_open_template" where
  "rd_open_template bs = \<lparr> mLen = u32_at 0 bs, mType = u32_at 4 bs, templateName = arr_at 8 bs,
     ot_mVirtualHostID = arr_at 38 bs \<rparr>"

definition wr_open_template :: "c_open_template \<Rightarrow> byte list" where
  "wr_open_template m = st32 (mLen m) @ st32 (mType m) @ list_of (templateName m)
     @ list_of (ot_mVirtualHostID m)"

definition rd_auth_reply :: "byte list \<Rightarrow> c_auth_reply" where
  "rd_auth_reply bs = \<lparr> mLen = u32_at 0 bs, mType = u32_at 4 bs, usernameLen = u32_at 8 bs \<rparr>"

definition wr_auth_reply :: "c_auth_reply \<Rightarrow> byte list" where
  "wr_auth_reply m = st32 (mLen m) @ st32 (mType m) @ st32 (usernameLen m)"

definition rd_auth_status :: "byte list \<Rightarrow> c_auth_status" where
  "rd_auth_status bs = \<lparr> mLen = u32_at 0 bs, mType = u32_at 4 bs, auth_ok = bs ! 8 \<rparr>"

definition wr_auth_status :: "c_auth_status \<Rightarrow> byte list" where
  "wr_auth_status m = st32 (mLen m) @ st32 (mType m) @ [auth_ok m]"

section \<open>Every message is a packed struct\<close>

interpretation base: packed_struct sizeof_c_base rd_base wr_base
  by unfold_locales (simp_all add: rd_base_def wr_base_def decode_simps encode_simps)

interpretation open_msg: packed_struct sizeof_c_open rd_open wr_open
  by unfold_locales (simp_all add: rd_open_def wr_open_def decode_simps encode_simps)

interpretation packet_header: packed_struct sizeof_c_packet_header rd_packet_header wr_packet_header
  by unfold_locales (simp_all add: rd_packet_header_def wr_packet_header_def decode_simps encode_simps)

interpretation hw_entry: packed_struct sizeof_c_hw_entry rd_hw_entry wr_hw_entry
  by unfold_locales (simp_all add: rd_hw_entry_def wr_hw_entry_def decode_simps encode_simps)

interpretation rtable_msg: packed_struct sizeof_c_rtable rd_rtable wr_rtable
  by unfold_locales (simp_all add: rd_rtable_def wr_rtable_def decode_simps encode_simps)

interpretation open_template: packed_struct sizeof_c_open_template rd_open_template wr_open_template
  by unfold_locales (simp_all add: rd_open_template_def wr_open_template_def decode_simps encode_simps)

interpretation auth_reply: packed_struct sizeof_c_auth_reply rd_auth_reply wr_auth_reply
  by unfold_locales (simp_all add: rd_auth_reply_def wr_auth_reply_def decode_simps encode_simps)

interpretation auth_status: packed_struct sizeof_c_auth_status rd_auth_status wr_auth_status
  by unfold_locales (simp_all add: rd_auth_status_def wr_auth_status_def decode_simps encode_simps)

end
