(* ===== verification/Sending.thy ===== *)
theory Sending
  imports Interfaces Dumper Vnscommand
begin

text \<open>
  Sending a frame, \<^verbatim>\<open>sr_send_packet\<close> of \<^verbatim>\<open>src/sr_vns_comm.c\<close>: the frame is logged, its source address is
  checked against the outgoing interface, and it is written to the server socket behind a
  \<^verbatim>\<open>c_packet_header\<close>.

  What the operating system decides is in the record \<open>env\<close>: the clock, the time of day, the contents of
  fresh memory and the result of \<^verbatim>\<open>write\<close>. One event of the router sees one value of the clock.

  The locale \<open>frame_sender\<close> is what the packet handlers rely on: sending changes nothing of the
  instance but the socket and the log, and does not fault on a complete frame.
\<close>

record env =
  now :: int
  tv :: "int \<times> int"
  junk :: "nat \<Rightarrow> byte"
  write_ret :: "byte list \<Rightarrow> int"

section \<open>The code\<close>

definition sr_ether_addrs_match_interface :: "sr_instance \<Rightarrow> byte list \<Rightarrow> byte list \<Rightarrow> bool res" where
  "sr_ether_addrs_match_interface sr buf name =
     bnd (guard Oob_access (sizeof_eth \<le> length buf)) (\<lambda>_.
     let ether_hdr = rd_eth (seg 0 sizeof_eth buf) in
     (case sr_get_interface sr name of
        None \<Rightarrow> Inr False
      | Some iface \<Rightarrow> Inr (ether_shost ether_hdr = if_addr iface)))"

definition sr_send_packet ::
  "env \<Rightarrow> sr_instance \<Rightarrow> byte list \<Rightarrow> u32 \<Rightarrow> byte list \<Rightarrow> (int \<times> sr_instance) res" where
  "sr_send_packet env sr buf len iface =
     (let total_len = len + 24 in
      if unat len < sizeof_eth then Inr (- 1, sr)
      else
        bnd (guard Oob_access (unat len \<le> length buf)) (\<lambda>_.
        let sr_pkt = wr_packet_header \<lparr> mLen = htonl total_len, mType = htonl VNSPACKET,
              mInterfaceName = strncpy iface \<rparr> @ take (unat len) buf in
        bnd (sr_log_packet (tv env) sr buf (sint len)) (\<lambda>sr1.
        bnd (sr_ether_addrs_match_interface sr1 buf iface) (\<lambda>ok.
        if \<not> ok then Inr (- 1, sr1)
        else
          let msg = take (unat total_len) sr_pkt; sr2 = sr1\<lparr>sock_out := sock_out sr1 @ [msg]\<rparr> in
          if write_ret env msg < int (unat total_len) then Inr (- 1, sr2) else Inr (0, sr2)))))"

section \<open>Its contract\<close>

text \<open>Two instances that differ at most in what was sent and logged.\<close>

definition same_router :: "sr_instance \<Rightarrow> sr_instance \<Rightarrow> bool" where
  "same_router sr sr' \<longleftrightarrow> (\<exists>out log. sr' = sr\<lparr>sock_out := out, logfile := log\<rparr>)"

lemma same_router_refl [simp]: "same_router sr sr"
  unfolding same_router_def by (rule exI [of _ "sock_out sr"], rule exI [of _ "logfile sr"]) simp

lemma same_router_logfile [simp]: "same_router sr (sr\<lparr>logfile := log\<rparr>)"
  unfolding same_router_def by (rule exI [of _ "sock_out sr"], rule exI [of _ log]) simp

lemma same_router_sent [simp]: "same_router sr (sr\<lparr>logfile := log, sock_out := out\<rparr>)"
  unfolding same_router_def by (rule exI [of _ out], rule exI [of _ log]) simp

lemma same_router_trans: "same_router a b \<Longrightarrow> same_router b c \<Longrightarrow> same_router a c"
  by (force simp: same_router_def)

lemma same_router_fields:
  assumes "same_router sr sr'"
  shows "if_list sr' = if_list sr" "routing_table sr' = routing_table sr" "cache sr' = cache sr"
    "user sr' = user sr" "host sr' = host sr" "template sr' = template sr" "topo_id sr' = topo_id sr"
    "sockfd sr' = sockfd sr"
  using assms by (auto simp: same_router_def)

lemma get_interface_cong: "if_list sr' = if_list sr \<Longrightarrow> sr_get_interface sr' = sr_get_interface sr"
  by (simp add: sr_get_interface_def fun_eq_iff)

text \<open>The message that carries a frame to the server.\<close>

definition vns_frame :: "byte list \<Rightarrow> byte list \<Rightarrow> byte list" where
  "vns_frame iface frame = wr_packet_header \<lparr> mLen = htonl (of_nat (length frame) + 24),
     mType = htonl VNSPACKET, mInterfaceName = strncpy iface \<rparr> @ frame"

definition frame_ok :: "byte list \<Rightarrow> u32 \<Rightarrow> bool" where
  "frame_ok buf len \<longleftrightarrow> 14 \<le> unat len \<and> length buf = unat len \<and> unat len < 2 ^ 31 - 24"

locale frame_sender =
  fixes send :: "sr_instance \<Rightarrow> byte list \<Rightarrow> u32 \<Rightarrow> byte list \<Rightarrow> (int \<times> sr_instance) res"
  assumes send_same: "send sr buf len iface = Inr (r, sr') \<Longrightarrow> same_router sr sr'"
    and send_ok: "frame_ok buf len \<Longrightarrow> sr_get_interface sr iface = Some i \<Longrightarrow>
      ether_shost (rd_eth (seg 0 14 buf)) = if_addr i \<Longrightarrow>
      \<exists>r sr'. send sr buf len iface = Inr (r, sr') \<and> sock_out sr' = sock_out sr @ [vns_frame iface buf]"
    and send_refused: "frame_ok buf len \<Longrightarrow>
      \<not> (\<exists>i. sr_get_interface sr iface = Some i \<and> ether_shost (rd_eth (seg 0 14 buf)) = if_addr i) \<Longrightarrow>
      \<exists>sr'. send sr buf len iface = Inr (- 1, sr') \<and> sock_out sr' = sock_out sr"
begin

lemma send_total: "frame_ok buf len \<Longrightarrow> \<exists>r sr'. send sr buf len iface = Inr (r, sr')"
  using send_ok send_refused by metis

lemma send_emits:
  assumes "frame_ok buf len" and "send sr buf len iface = Inr (r, sr')"
  shows "sock_out sr' = sock_out sr @ [vns_frame iface buf] \<or> sock_out sr' = sock_out sr"
  using assms send_ok [of buf len sr iface] send_refused [of buf len sr iface] by fastforce

end

lemma sint_small: "unat (l :: u32) < 2 ^ 31 \<Longrightarrow> sint l = int (unat l)"
proof -
  assume l: "unat l < 2 ^ 31"
  have u: "uint l = int (unat l)" by simp
  have "sint l = signed_take_bit 31 (uint l)" by (simp add: sint_uint)
  also have "\<dots> = uint l"
  proof (rule signed_take_bit_int_eq_self)
    from l have "int (unat l) < int (2 ^ 31)" by (rule of_nat_less_iff [THEN iffD2])
    then show "uint l < 2 ^ 31" using u by (simp only: of_nat_power of_nat_numeral)
    show "- (2 ^ 31) \<le> uint l" by (rule order_trans [of _ 0]) simp_all
  qed
  finally show ?thesis by simp
qed

lemma unat_plus_24: "unat (l :: u32) < 2 ^ 31 - 24 \<Longrightarrow> unat (l + 24) = unat l + 24"
  by (simp add: unat_word_ariths)

lemma send_packet_steps:
  assumes "frame_ok buf len"
  shows "\<exists>log. sr_log_packet (tv env) sr buf (sint len) = Inr (sr\<lparr>logfile := log\<rparr>)"
proof (cases "logfile sr")
  case None
  then show ?thesis by (auto intro: exI [of _ None])
next
  case (Some f)
  have "sint len = int (unat len)"
    using assms by (intro sint_small) (simp add: frame_ok_def)
  then show ?thesis
    using log_packet_bytes [OF Some, of "sint len" buf "tv env"] assms by (auto simp: frame_ok_def)
qed

lemma match_interface_eq:
  assumes "14 \<le> length buf" and "if_list sr' = if_list sr"
  shows "sr_ether_addrs_match_interface sr' buf iface =
    Inr (\<exists>i. sr_get_interface sr iface = Some i \<and> ether_shost (rd_eth (seg 0 14 buf)) = if_addr i)"
  using assms
  by (simp add: sr_ether_addrs_match_interface_def get_interface_cong [OF assms(2)] split: option.splits)

lemma send_packet_eq:
  assumes "frame_ok buf len"
  shows "\<exists>log. sr_send_packet env sr buf len iface =
    (if \<exists>i. sr_get_interface sr iface = Some i \<and> ether_shost (rd_eth (seg 0 14 buf)) = if_addr i
     then Inr (if write_ret env (vns_frame iface buf) < int (length (vns_frame iface buf)) then - 1 else 0,
       sr\<lparr>logfile := log, sock_out := sock_out sr @ [vns_frame iface buf]\<rparr>)
     else Inr (- 1, sr\<lparr>logfile := log\<rparr>))"
proof -
  obtain log where l: "sr_log_packet (tv env) sr buf (sint len) = Inr (sr\<lparr>logfile := log\<rparr>)"
    using send_packet_steps [OF assms] by blast
  have len: "\<not> unat len < 14" "14 \<le> length buf" "unat len \<le> length buf" "take (unat len) buf = buf"
    and total: "unat (len + 24) = length buf + 24"
    using assms by (simp_all add: frame_ok_def unat_plus_24)
  have "len = of_nat (length buf)"
    using assms by (simp add: frame_ok_def)
  then have frame: "vns_frame iface buf = wr_packet_header \<lparr> mLen = htonl (len + 24),
      mType = htonl VNSPACKET, mInterfaceName = strncpy iface \<rparr> @ buf"
    by (simp add: vns_frame_def)
  have "length (vns_frame iface buf) = length buf + 24"
    by (simp add: vns_frame_def)
  then have msg: "take (unat (len + 24)) (vns_frame iface buf) = vns_frame iface buf"
    by (simp add: total)
  have m: "sr_ether_addrs_match_interface (sr\<lparr>logfile := log\<rparr>) buf iface =
    Inr (\<exists>i. sr_get_interface sr iface = Some i \<and> ether_shost (rd_eth (seg 0 14 buf)) = if_addr i)"
    using len(2) by (rule match_interface_eq) simp
  show ?thesis
    unfolding sr_send_packet_def Let_def len(4) frame [symmetric] msg
    by (rule exI [of _ log]) (auto simp: len(1,3) l m total \<open>length (vns_frame iface buf) = _\<close>)
qed

lemma send_packet_same:
  assumes "sr_send_packet env sr buf len iface = Inr (r, sr')"
  shows "same_router sr sr'"
proof (cases "unat len < 14")
  case True
  with assms show ?thesis by (simp add: sr_send_packet_def)
next
  case False
  with assms obtain sr1 ok where "sr_log_packet (tv env) sr buf (sint len) = Inr sr1"
    and sr': "sr' = sr1 \<or> (\<exists>m. sr' = sr1\<lparr>sock_out := sock_out sr1 @ [m]\<rparr>)"
    by (auto simp: sr_send_packet_def Let_def split: if_splits)
  then obtain log where "sr1 = sr\<lparr>logfile := log\<rparr>"
    using log_packet_frame by blast
  with sr' show ?thesis by auto
qed

interpretation vns: frame_sender "sr_send_packet env" for env
proof
  show "same_router sr sr'" if "sr_send_packet env sr buf len iface = Inr (r, sr')"
    for sr buf len iface r sr'
    using that by (rule send_packet_same)
  show "\<exists>r sr'. sr_send_packet env sr buf len iface = Inr (r, sr')
      \<and> sock_out sr' = sock_out sr @ [vns_frame iface buf]"
    if "frame_ok buf len" "sr_get_interface sr iface = Some i"
      "ether_shost (rd_eth (seg 0 14 buf)) = if_addr i" for buf len sr iface i
    using that send_packet_eq [of buf len env sr iface] by auto
  show "\<exists>sr'. sr_send_packet env sr buf len iface = Inr (- 1, sr') \<and> sock_out sr' = sock_out sr"
    if "frame_ok buf len"
      "\<not> (\<exists>i. sr_get_interface sr iface = Some i \<and> ether_shost (rd_eth (seg 0 14 buf)) = if_addr i)"
    for buf len sr iface
    using that send_packet_eq [of buf len env sr iface] by auto
qed

end
