(* ===== verification/Utils.thy ===== *)
theory Utils
  imports Protocol
begin

text \<open>
  The helpers of \<^verbatim>\<open>src/sr_utils.c\<close> that the router computes with: the Internet checksum \<open>cksum\<close> and
  the two header accessors. The checksum is kept at its width (a 32-bit accumulator, the
  end-around carry loop, the 16-bit complement), and compared with a reference definition: the
  one's complement sum of the big-endian 16-bit words of the data.
\<close>

section \<open>The code\<close>

text \<open>The loop that adds up pairs of bytes, and the odd byte after it.\<close>

fun cksum_sum :: "u32 \<Rightarrow> byte list \<Rightarrow> u32" where
  "cksum_sum acc (a # b # ds) = cksum_sum (acc + (push_bit 8 (ucast a) OR ucast b)) ds"
| "cksum_sum acc [a] = acc + push_bit 8 (ucast a)"
| "cksum_sum acc [] = acc"

text \<open>\<^verbatim>\<open>while (sum > 0xffff) sum = (sum >> 16) + (sum & 0xffff);\<close>\<close>

lemma fold_step_unat:
  "unat (drop_bit 16 s + (s AND 0xffff) :: u32) = unat s div 65536 + unat s mod 65536"
proof -
  have d: "unat (drop_bit 16 s) = unat s div 65536"
    by (simp add: drop_bit_eq_div unat_div)
  have "s AND 0xffff = take_bit 16 s"
    by (simp add: take_bit_eq_mask mask_eq_exp_minus_1)
  then have m: "unat (s AND 0xffff) = unat s mod 65536"
    by (simp add: take_bit_eq_mod unat_mod)
  have "unat s div 65536 < 65536"
    by (rule less_mult_imp_div_less) simp
  moreover have "unat s mod 65536 < 65536" by simp
  ultimately have "unat s div 65536 + unat s mod 65536 < 4294967296" by linarith
  then show ?thesis
    using d m by (simp add: unat_word_ariths)
qed

lemma fold_step_less:
  fixes n :: nat
  assumes "65535 < n"
  shows "n div 65536 + n mod 65536 < n" and "0 < n div 65536"
proof -
  show q: "0 < n div 65536" using assms by (simp add: div_greater_zero_iff)
  then show "n div 65536 + n mod 65536 < n"
    using mult_div_mod_eq [of 65536 n] by linarith
qed

function cksum_fold :: "u32 \<Rightarrow> u32" where
  "cksum_fold acc = (if acc > 0xffff then cksum_fold (drop_bit 16 acc + (acc AND 0xffff)) else acc)"
  by pat_completeness auto
termination
proof (relation "measure unat")
  fix s :: u32 assume "0xffff < s"
  then have "65535 < unat s" by (simp add: word_less_nat_alt)
  then show "(drop_bit 16 s + (s AND 0xffff), s) \<in> measure unat"
    by (simp add: fold_step_unat fold_step_less)
qed simp

declare cksum_fold.simps [simp del]

definition cksum :: "byte list \<Rightarrow> u16" where
  "cksum data = (let res = htons (ucast (NOT (cksum_fold (cksum_sum 0 data))))
     in if res \<noteq> 0 then res else 0xffff)"

definition ethertype :: "byte list \<Rightarrow> u16" where
  "ethertype buf = ntohs (ether_type (rd_eth (seg 0 sizeof_eth buf)))"

definition ip_protocol :: "byte list \<Rightarrow> byte" where
  "ip_protocol buf = ip_p (rd_ip (seg 0 sizeof_ip buf))"

section \<open>The reference: one's complement arithmetic on 16-bit words\<close>

fun be16s :: "byte list \<Rightarrow> nat list" where
  "be16s (a # b # ds) = (256 * unat a + unat b) # be16s ds"
| "be16s [a] = [256 * unat a]"
| "be16s [] = []"

definition ones_add :: "nat \<Rightarrow> nat \<Rightarrow> nat" where
  "ones_add a b = (if a + b \<le> 65535 then a + b else a + b - 65535)"

definition ones_sum :: "byte list \<Rightarrow> nat" where
  "ones_sum ds = foldl ones_add 0 (be16s ds)"

text \<open>The canonical representative of a sum modulo 65535: zero only for zero.\<close>

definition ones_norm :: "nat \<Rightarrow> nat" where
  "ones_norm n = (if n = 0 then 0 else (n - 1) mod 65535 + 1)"

lemma ones_norm_le: "ones_norm n \<le> 65535"
  by (auto simp: ones_norm_def Suc_le_eq)

lemma ones_norm_small: "n \<le> 65535 \<Longrightarrow> ones_norm n = n"
  by (auto simp: ones_norm_def)

lemma ones_norm_sub: "65535 < n \<Longrightarrow> ones_norm (n - 65535) = ones_norm n"
  by (auto simp: ones_norm_def dest!: less_imp_Suc_add)

lemma ones_norm_mod: "ones_norm n mod 65535 = n mod 65535"
  by (cases n) (auto simp: ones_norm_def mod_Suc)

lemma ones_norm_eqI: "a mod 65535 = b mod 65535 \<Longrightarrow> (a = 0 \<longleftrightarrow> b = 0) \<Longrightarrow> ones_norm a = ones_norm b"
  by (cases a; cases b) (auto simp: ones_norm_def mod_Suc split: if_splits)

lemma ones_norm_0 [simp]: "ones_norm n = 0 \<longleftrightarrow> n = 0"
  by (simp add: ones_norm_def)

lemma ones_norm_ones_norm_add: "ones_norm (ones_norm a + b) = ones_norm (a + b)"
  by (rule ones_norm_eqI) (auto intro: mod_add_cong ones_norm_mod)

lemma ones_add_norm: "a \<le> 65535 \<Longrightarrow> b \<le> 65535 \<Longrightarrow> ones_add a b = ones_norm (a + b)"
  by (auto simp: ones_add_def ones_norm_small ones_norm_sub [symmetric])

lemma be16s_le: "w \<in> set (be16s ds) \<Longrightarrow> w \<le> 65535"
proof (induction ds rule: be16s.induct)
  case (1 a b ds)
  moreover have "256 * unat a + unat b \<le> 65535"
    using unat_byte_less [of a] unat_byte_less [of b] by linarith
  ultimately show ?case by auto
next
  case (2 a)
  then show ?case using unat_byte_less [of a] by (simp del: unat_byte_less)
qed simp

lemma foldl_ones_add:
  "a \<le> 65535 \<Longrightarrow> \<forall>w \<in> set ws. w \<le> 65535 \<Longrightarrow> foldl ones_add a ws = ones_norm (a + sum_list ws)"
proof (induction ws arbitrary: a)
  case (Cons w ws)
  then show ?case
    by (simp add: ones_add_norm ones_norm_le ones_norm_ones_norm_add add.assoc)
qed (simp add: ones_norm_small)

lemma ones_sum_norm: "ones_sum ds = ones_norm (sum_list (be16s ds))"
  unfolding ones_sum_def using foldl_ones_add [of 0] be16s_le by simp

lemma sum_be16s_bound: "sum_list (be16s ds) \<le> 65535 * ((length ds + 1) div 2)"
proof (induction ds rule: be16s.induct)
  case (1 a b ds)
  have "256 * unat a + unat b \<le> 65535"
    by (rule be16s_le [of _ "a # b # ds"]) simp
  with 1 show ?case by simp
next
  case (2 a)
  have "256 * unat a \<le> 65535"
    by (rule be16s_le [of _ "[a]"]) simp
  then show ?case by simp
qed simp

lemma be16s_append: "even (length xs) \<Longrightarrow> be16s (xs @ ys) = be16s xs @ be16s ys"
  by (induction xs rule: be16s.induct) auto

section \<open>The code computes the reference\<close>

lemma unat_pair: "unat (push_bit 8 (ucast (a :: byte)) OR ucast (b :: byte) :: u32) = 256 * unat a + unat b"
proof -
  have "push_bit 8 (ucast a) OR ucast b = (push_bit 8 (ucast a) + ucast b :: u32)"
    by (rule disjunctive_add [symmetric]) (auto simp: bit_simps impossible_bit)
  moreover have "256 * unat a + unat b < 4294967296"
    using unat_byte_less [of a] unat_byte_less [of b] by linarith
  ultimately show ?thesis
    by (simp add: push_bit_eq_mult unat_word_ariths mult.commute)
qed

lemma unat_single: "unat (push_bit 8 (ucast (a :: byte)) :: u32) = 256 * unat a"
  using unat_pair [of a 0] by simp

lemma cksum_sum_unat:
  "unat s + sum_list (be16s ds) < 2 ^ 32 \<Longrightarrow> unat (cksum_sum s ds) = unat s + sum_list (be16s ds)"
proof (induction s ds rule: cksum_sum.induct)
  case (1 acc a b ds)
  then show ?case
    by (simp add: unat_pair unat_word_ariths)
next
  case (2 acc a)
  then show ?case
    by (simp add: unat_single unat_word_ariths)
qed simp

lemma cksum_fold_unat: "unat (cksum_fold s) = ones_norm (unat s)"
proof (induction s rule: cksum_fold.induct)
  case (1 s)
  show ?case
  proof (cases "0xffff < s")
    case True
    let ?t = "drop_bit 16 s + (s AND 0xffff) :: u32"
    have t: "unat ?t = unat s div 65536 + unat s mod 65536"
      by (rule fold_step_unat)
    have "65535 < unat s"
      using True by (simp add: word_less_nat_alt)
    then have "0 < unat ?t" unfolding t
      using fold_step_less(2) by simp
    moreover have "unat s mod 65535 = unat ?t mod 65535"
    proof -
      have "unat s = 65535 * (unat s div 65536) + (unat s div 65536 + unat s mod 65536)"
        using mult_div_mod_eq [of 65536 "unat s"] by linarith
      then show ?thesis unfolding t by (metis mod_mult_self4)
    qed
    ultimately have "ones_norm (unat ?t) = ones_norm (unat s)"
      using \<open>65535 < unat s\<close> by (intro ones_norm_eqI) auto
    then show ?thesis
      using 1 [OF True] True by (simp add: cksum_fold.simps [of s])
  next
    case False
    then have "unat s \<le> 65535"
      by (simp add: word_less_nat_alt not_less)
    with False show ?thesis
      by (simp add: cksum_fold.simps [of s] ones_norm_small)
  qed
qed

lemma unat_not_u16: "unat (NOT (w :: u16)) = 65535 - unat w"
proof -
  have "NOT w = - 1 - w" by (simp add: not_eq_complement)
  then have "unat (NOT w) = unat (- 1 - w)" by simp
  also have "\<dots> = unat (- 1 :: u16) - unat w"
    by (rule unat_sub) simp
  finally show ?thesis by (simp add: unsigned_minus_1_eq_mask mask_eq_exp_minus_1)
qed

lemma unat_complement: "unat s \<le> 65535 \<Longrightarrow> unat (ucast (NOT s :: u32) :: u16) = 65535 - unat s"
proof -
  assume s: "unat s \<le> 65535"
  have "ucast (NOT s) = (NOT (ucast s) :: u16)"
    by (rule bit_word_eqI) (auto simp: bit_simps)
  moreover have "unat (ucast s :: u16) = unat s"
    using s by (simp add: unsigned_ucast_eq take_bit_nat_eq_self)
  ultimately show ?thesis by (simp add: unat_not_u16)
qed

lemma cksum_unat:
  assumes "length ds \<le> 131074"
  shows "unat (ntohs (cksum ds)) =
    (if ones_sum ds = 65535 then 65535 else 65535 - ones_sum ds)"
proof -
  have "65535 * ((length ds + 1) div 2) \<le> 65535 * 65537"
    using assms by (intro mult_le_mono2) simp
  then have "sum_list (be16s ds) < 2 ^ 32"
    using sum_be16s_bound [of ds] by simp
  then have "unat (cksum_fold (cksum_sum 0 ds)) = ones_sum ds"
    by (simp add: cksum_fold_unat cksum_sum_unat ones_sum_norm)
  then have c: "unat (ucast (NOT (cksum_fold (cksum_sum 0 ds))) :: u16) = 65535 - ones_sum ds"
    using ones_norm_le [of "sum_list (be16s ds)"] by (simp add: unat_complement ones_sum_norm)
  have le: "ones_sum ds \<le> 65535"
    by (simp add: ones_sum_norm ones_norm_le)
  let ?c = "ucast (NOT (cksum_fold (cksum_sum 0 ds))) :: u16"
  have "?c = 0 \<longleftrightarrow> ones_sum ds = 65535"
    using c le by (simp add: unat_eq_0 [symmetric])
  moreover have "ntohs 0xffff = 0xffff"
    by (simp add: bswap16_def)
  ultimately show ?thesis
    using c by (simp add: cksum_def Let_def)
qed

lemma cksum_nonzero: "cksum ds \<noteq> 0"
  by (simp add: cksum_def Let_def)

lemma be16s_st16: "be16s (st16 w) = [unat (ntohs w)]"
proof -
  have "st16 w = st16 (htons (ntohs w))" by simp
  also have "\<dots> = [ucast (drop_bit 8 (ntohs w)), ucast (ntohs w)]"
    by (rule st16_htons)
  finally have st: "st16 w = [ucast (drop_bit 8 (ntohs w)), ucast (ntohs w)]" .
  have "unat (ucast (drop_bit 8 v) :: byte) = unat v div 256" for v :: u16
    by (simp add: unsigned_ucast_eq drop_bit_eq_div unat_div take_bit_nat_eq_self less_mult_imp_div_less)
  moreover have "unat (ucast v :: byte) = unat v mod 256" for v :: u16
    by (simp add: unsigned_ucast_eq take_bit_eq_mod)
  ultimately show ?thesis
    using st by simp
qed

lemma ones_norm_fill:
  "n \<le> 65535 \<Longrightarrow> ones_norm (n + (if n = 65535 then 65535 else 65535 - n)) = 65535"
  by (auto simp: ones_norm_def)

lemma ones_sum_filled:
  assumes "even (length pre)" and "length pre + length post + 2 \<le> 131074"
  shows "ones_sum (pre @ st16 (cksum (pre @ [0, 0] @ post)) @ post) = 65535"
proof -
  let ?z = "pre @ [0, 0] @ post" and ?w = "unat (ntohs (cksum (pre @ [0, 0] @ post)))"
  let ?S = "sum_list (be16s ?z)"
  have w: "?w = (if ones_norm ?S = 65535 then 65535 else 65535 - ones_norm ?S)"
    using assms(2) by (subst cksum_unat) (simp_all add: ones_sum_norm)
  have "sum_list (be16s (pre @ st16 (cksum ?z) @ post)) = ?S + ?w"
    using assms(1) by (simp add: be16s_append be16s_st16 del: bswap16_bswap16)
  then have "ones_sum (pre @ st16 (cksum ?z) @ post) = ones_norm (ones_norm ?S + ?w)"
    by (simp only: ones_sum_norm ones_norm_ones_norm_add)
  also have "\<dots> = 65535"
    unfolding w by (rule ones_norm_fill) (rule ones_norm_le)
  finally show ?thesis .
qed

end
