(* ===== verification/Frames.thy ===== *)
theory Frames
  imports Utils Instance
begin

text \<open>
  The frames the router originates, written down from the protocols rather than from the code:
  ARP requests, and the ICMP messages of types 3 and 11. Each IP and ICMP header carries its own
  checksum. The buffers that the code fills in field by field are proved equal to these frames.
\<close>

section \<open>ARP request\<close>

definition broadcast :: mac where
  "broadcast = barr_of (replicate 6 0xff)"

definition arp_request_frame :: "mac \<Rightarrow> u32 \<Rightarrow> u32 \<Rightarrow> byte list" where
  "arp_request_frame smac sip target =
     wr_eth \<lparr> ether_dhost = broadcast, ether_shost = smac, ether_type = htons ethertype_arp \<rparr> @
     wr_arp \<lparr> ar_hrd = htons arp_hrd_ethernet, ar_pro = htons ethertype_ip, ar_hln = 6, ar_pln = 4,
       ar_op = htons arp_op_request, ar_sha = smac, ar_sip = sip, ar_tha = broadcast, ar_tip = target \<rparr>"

section \<open>ICMP errors\<close>

definition ip_checksummed :: "sr_ip_hdr \<Rightarrow> sr_ip_hdr" where
  "ip_checksummed h = h\<lparr>ip_sum := cksum (wr_ip (h\<lparr>ip_sum := 0\<rparr>))\<rparr>"

definition icmp_ip_hdr :: "u16 \<Rightarrow> u32 \<Rightarrow> u32 \<Rightarrow> sr_ip_hdr" where
  "icmp_ip_hdr ident src dst = ip_checksummed
     \<lparr> ip_hl = 5, ip_v = 4, ip_tos = 0, ip_len = htons 56, ip_id = ident, ip_off = htons IP_DF,
       ip_ttl = INIT_TTL, ip_p = ip_protocol_icmp, ip_sum = 0, ip_src = src, ip_dst = dst \<rparr>"

definition icmp_t3_msg :: "byte \<Rightarrow> 28 barr \<Rightarrow> sr_icmp_t3_hdr" where
  "icmp_t3_msg code data =
     (let h = \<lparr> icmp_type = 3, icmp_code = code, icmp_sum = 0, t3_unused = 0, t3_next_mtu = 0, t3_data = data \<rparr>
      in h\<lparr>icmp_sum := cksum (wr_icmp_t3 h)\<rparr>)"

definition icmp_t11_msg :: "28 barr \<Rightarrow> sr_icmp_t11_hdr" where
  "icmp_t11_msg data =
     (let h = \<lparr> icmp_type = 11, icmp_code = 0, icmp_sum = 0, t11_unused = 0, t11_data = data \<rparr>
      in h\<lparr>icmp_sum := cksum (wr_icmp_t11 h)\<rparr>)"

definition icmp_t3_frame :: "mac \<Rightarrow> mac \<Rightarrow> u16 \<Rightarrow> u32 \<Rightarrow> u32 \<Rightarrow> byte \<Rightarrow> 28 barr \<Rightarrow> byte list" where
  "icmp_t3_frame dmac smac ident src dst code data =
     wr_eth \<lparr> ether_dhost = dmac, ether_shost = smac, ether_type = htons ethertype_ip \<rparr> @
     wr_ip (icmp_ip_hdr ident src dst) @ wr_icmp_t3 (icmp_t3_msg code data)"

definition icmp_t11_frame :: "mac \<Rightarrow> mac \<Rightarrow> u16 \<Rightarrow> u32 \<Rightarrow> u32 \<Rightarrow> 28 barr \<Rightarrow> byte list" where
  "icmp_t11_frame dmac smac ident src dst data =
     wr_eth \<lparr> ether_dhost = dmac, ether_shost = smac, ether_type = htons ethertype_ip \<rparr> @
     wr_ip (icmp_ip_hdr ident src dst) @ wr_icmp_t11 (icmp_t11_msg data)"

section \<open>Their layout\<close>

lemma buf42: "length b = 42 \<Longrightarrow> b = seg 0 14 b @ seg 14 28 b"
  by (simp add: seg_join seg_whole)

lemma buf70: "length b = 70 \<Longrightarrow> b = seg 0 14 b @ seg 14 20 b @ seg 34 36 b"
  by (simp add: seg_join seg_whole)

lemma buf42_eqI:
  "length b = 42 \<Longrightarrow> seg 0 14 b = e \<Longrightarrow> seg 14 28 b = a \<Longrightarrow> b = e @ a"
  using buf42 by blast

lemma buf70_eqI:
  "length b = 70 \<Longrightarrow> seg 0 14 b = e \<Longrightarrow> seg 14 20 b = i \<Longrightarrow> seg 34 36 b = t \<Longrightarrow> b = e @ i @ t"
  using buf70 by blast

lemma length_frames [simp]:
  "length (arp_request_frame smac sip t) = 42"
  "length (icmp_t3_frame d s ident src dst code data) = 70"
  "length (icmp_t11_frame d s ident src dst data) = 70"
  by (simp_all add: arp_request_frame_def icmp_t3_frame_def icmp_t11_frame_def)

lemma eth_of_append [simp]: "rd_eth (seg 0 14 (wr_eth h @ bs)) = h"
  by (simp add: seg_def)

lemma ip_of_append [simp]: "rd_ip (seg 14 20 (wr_eth h @ wr_ip i @ bs)) = i"
  by (simp add: seg_def)

lemma eth_of_frames [simp]:
  "rd_eth (seg 0 14 (arp_request_frame smac sip t)) =
     \<lparr> ether_dhost = broadcast, ether_shost = smac, ether_type = htons ethertype_arp \<rparr>"
  "rd_eth (seg 0 14 (icmp_t3_frame d s ident src dst code data)) =
     \<lparr> ether_dhost = d, ether_shost = s, ether_type = htons ethertype_ip \<rparr>"
  "rd_eth (seg 0 14 (icmp_t11_frame d s ident src dst data)) =
     \<lparr> ether_dhost = d, ether_shost = s, ether_type = htons ethertype_ip \<rparr>"
  by (simp_all add: arp_request_frame_def icmp_t3_frame_def icmp_t11_frame_def)

lemma ip_of_frames [simp]:
  "rd_ip (seg 14 20 (icmp_t3_frame d s ident src dst code data)) = icmp_ip_hdr ident src dst"
  "rd_ip (seg 14 20 (icmp_t11_frame d s ident src dst data)) = icmp_ip_hdr ident src dst"
  by (simp_all add: icmp_t3_frame_def icmp_t11_frame_def)

lemma set_dhost_frames [simp]:
  "mod_eth 0 (\<lambda>h. h\<lparr>ether_dhost := d'\<rparr>) (icmp_t3_frame d s ident src dst code data) =
     icmp_t3_frame d' s ident src dst code data"
  "mod_eth 0 (\<lambda>h. h\<lparr>ether_dhost := d'\<rparr>) (icmp_t11_frame d s ident src dst data) =
     icmp_t11_frame d' s ident src dst data"
  by (simp_all add: modify_def blit_def) (simp_all add: icmp_t3_frame_def icmp_t11_frame_def)

lemma icmp_ip_hdr_sel [simp]:
  "ip_src (icmp_ip_hdr ident src dst) = src" "ip_dst (icmp_ip_hdr ident src dst) = dst"
  by (simp_all add: icmp_ip_hdr_def ip_checksummed_def)

text \<open>The two checksums of an error message are those a receiver checks.\<close>

lemma wr_ip_split:
  "wr_ip h = take 10 (wr_ip h) @ st16 (ip_sum h) @ drop 12 (wr_ip h)"
  "take 10 (wr_ip (h\<lparr>ip_sum := c\<rparr>)) = take 10 (wr_ip h)"
  "drop 12 (wr_ip (h\<lparr>ip_sum := c\<rparr>)) = drop 12 (wr_ip h)"
  by (simp_all add: wr_ip_def st16_def)

lemma st16_0: "st16 0 = [0, 0]"
  by (simp add: st16_def)

lemma ip_checksummed_valid: "ones_sum (wr_ip (ip_checksummed h)) = 65535"
proof -
  let ?z = "h\<lparr>ip_sum := 0\<rparr>" and ?c = "cksum (wr_ip (h\<lparr>ip_sum := 0\<rparr>))"
  let ?pre = "take 10 (wr_ip h)" and ?post = "drop 12 (wr_ip h)"
  have z: "wr_ip ?z = ?pre @ [0, 0] @ ?post"
    using wr_ip_split(1) [of ?z] by (simp only: wr_ip_split(2,3)) (simp add: st16_0)
  have "wr_ip (ip_checksummed h) = ?pre @ st16 ?c @ ?post"
    using wr_ip_split(1) [of "ip_checksummed h"] by (simp only: ip_checksummed_def wr_ip_split(2,3)) simp
  then show ?thesis
    using ones_sum_filled [of ?pre ?post] z by simp
qed

end
