(* ===== verification/Arpreq.thy ===== *)
theory Arpreq
  imports Routing Arpcache Sending Frames
begin

text \<open>
  Driving the ARP request queue: \<^verbatim>\<open>sr_arpcache_handle_arpreq\<close>, \<^verbatim>\<open>sr_arpcache_sweepreqs\<close> and one round of
  the thread \<^verbatim>\<open>sr_arpcache_timeout\<close>, \<^verbatim>\<open>src/sr_arpcache.c\<close>.

  \<^verbatim>\<open>sr_arpcache_handle_arpreq\<close> calls itself: giving up on a request sends an ICMP error to the source
  of each waiting packet, and that error may itself have to wait for ARP. Nothing in the code bounds this
  recursion, so the model takes a bound on its depth; \<open>Out_of_fuel\<close> says that the bound was reached.
  A request that was freed is no longer in the queue: using its address is \<open>Use_after_free\<close>.
\<close>

section \<open>The code\<close>

text \<open>Dereferencing a pointer to a request of the queue.\<close>

definition req_at :: "nat \<Rightarrow> sr_instance \<Rightarrow> sr_arpreq res" where
  "req_at p sr = (case find (\<lambda>r. rq_id r = p) (requests (cache sr)) of
     None \<Rightarrow> Inl Use_after_free | Some r \<Rightarrow> Inr r)"

text \<open>The frame of an ARP request: a broadcast that asks for the address of the request.\<close>

definition arp_request_buf :: "env \<Rightarrow> sr_if \<Rightarrow> u32 \<Rightarrow> byte list" where
  "arp_request_buf env ifc target =
     (let buf = malloc (junk env) 42;
          buf = mod_eth 0 (\<lambda>h. h\<lparr>ether_type := htons ethertype_arp, ether_shost := if_addr ifc,
            ether_dhost := barr_of (replicate 6 0xff)\<rparr>) buf
      in mod_arp 14 (\<lambda>h. h\<lparr>ar_hrd := htons arp_hrd_ethernet, ar_pro := htons ethertype_ip,
            ar_hln := 6, ar_pln := 4, ar_op := htons arp_op_request, ar_sha := if_addr ifc,
            ar_sip := if_ip ifc, ar_tha := barr_of (replicate 6 0xff), ar_tip := target\<rparr>) buf)"

definition send_arp_request :: "env \<Rightarrow> sr_instance \<Rightarrow> sr_arpreq \<Rightarrow> sr_instance res" where
  "send_arp_request env sr req =
     bnd (deref (sr_findLPMentry (routing_table sr) (rq_ip req))) (\<lambda>rtentry.
     bnd (deref (sr_get_interface sr (list_of (rt_interface rtentry)))) (\<lambda>ifc.
     let buf = arp_request_buf env ifc (rq_ip req);
         sr1 = sr\<lparr>cache := (cache sr)\<lparr>requests := upd_req (rq_id req)
           (\<lambda>r. r\<lparr>rq_sent := now env, rq_times_sent := rq_times_sent r + 1\<rparr>) (requests (cache sr))\<rparr>\<rparr> in
     bnd (sr_send_packet env sr1 buf 42 (list_of (if_name ifc))) (\<lambda>(_, sr2). Inr sr2)))"

text \<open>
  The body of the loop over the waiting packets: an ICMP host unreachable message for one
  packet. \<open>rec\<close> is the recursive call.
\<close>

definition host_unreachable_buf :: "env \<Rightarrow> byte list \<Rightarrow> byte list" where
  "host_unreachable_buf env pbuf =
     (let i_hdr0 = ip_at 14 pbuf;
          buf = malloc (junk env) 70;
          buf = mod_eth 0 (\<lambda>h. h\<lparr>ether_type := htons ethertype_ip\<rparr>) buf;
          buf = mod_ip 14 (\<lambda>h. h\<lparr>ip_hl := 5, ip_v := 4, ip_tos := 0, ip_len := htons 56,
            ip_id := ip_id i_hdr0, ip_off := htons IP_DF, ip_ttl := INIT_TTL, ip_p := ip_protocol_icmp,
            ip_dst := ip_src i_hdr0\<rparr>) buf;
          buf = mod_icmp_t3 34 (\<lambda>h. h\<lparr>icmp_type := 3, icmp_code := 1, t3_unused := 0, t3_next_mtu := 0,
            t3_data := arr_at 14 pbuf, icmp_sum := 0\<rparr>) buf
      in mod_icmp_t3 34 (\<lambda>h. h\<lparr>icmp_sum := cksum (seg 34 36 buf)\<rparr>) buf)"

definition host_unreachable ::
  "(sr_instance \<Rightarrow> nat \<Rightarrow> sr_instance res) \<Rightarrow> env \<Rightarrow> sr_instance \<Rightarrow> sr_packet \<Rightarrow> sr_instance res" where
  "host_unreachable rec env sr pck =
     bnd (guard Oob_access (42 \<le> length (pk_buf pck))) (\<lambda>_.
     let i_hdr0 = ip_at 14 (pk_buf pck);
         buf = host_unreachable_buf env (pk_buf pck) in
     (case sr_findLPMentry (routing_table sr) (ip_src i_hdr0) of
        None \<Rightarrow> Inr sr
      | Some rtentry \<Rightarrow>
        bnd (deref (sr_get_interface sr (list_of (rt_interface rtentry)))) (\<lambda>ifc.
        let buf = mod_ip 14 (\<lambda>h. h\<lparr>ip_src := if_ip ifc, ip_sum := 0\<rparr>) buf;
            buf = mod_ip 14 (\<lambda>h. h\<lparr>ip_sum := cksum (seg 14 20 buf)\<rparr>) buf;
            buf = mod_eth 0 (\<lambda>h. h\<lparr>ether_shost := if_addr ifc\<rparr>) buf in
        (case sr_arpcache_lookup (cache sr) (ip_src i_hdr0) of
           Some entry \<Rightarrow>
             bnd (sr_send_packet env sr (mod_eth 0 (\<lambda>h. h\<lparr>ether_dhost := ae_mac entry\<rparr>) buf) 70
               (list_of (rt_interface rtentry))) (\<lambda>(_, sr1). Inr sr1)
         | None \<Rightarrow>
             bnd (sr_arpcache_queuereq (cache sr) (ip_dst (ip_at 14 buf)) (Some buf) 70
               (Some (list_of (rt_interface rtentry)))) (\<lambda>(req, c). rec (sr\<lparr>cache := c\<rparr>) req)))))"

text \<open>
  The loop itself, \<^verbatim>\<open>for (pck = req->packets; pck != NULL; pck = pck->next)\<close>: moving on reads the node
  of a packet that belongs to \<open>req\<close>, so \<open>req\<close> must still be alive.
\<close>

primrec unreachable_loop ::
  "(sr_instance \<Rightarrow> nat \<Rightarrow> sr_instance res) \<Rightarrow> env \<Rightarrow> nat \<Rightarrow> sr_instance \<Rightarrow> sr_packet list \<Rightarrow> sr_instance res" where
  "unreachable_loop rec env req sr [] = Inr sr"
| "unreachable_loop rec env req sr (pck # rest) =
     bnd (host_unreachable rec env sr pck) (\<lambda>sr1.
     bnd (req_at req sr1) (\<lambda>_. unreachable_loop rec env req sr1 rest))"

primrec sr_arpcache_handle_arpreq :: "nat \<Rightarrow> env \<Rightarrow> sr_instance \<Rightarrow> nat \<Rightarrow> sr_instance res" where
  "sr_arpcache_handle_arpreq 0 env sr p = Inl Out_of_fuel"
| "sr_arpcache_handle_arpreq (Suc fuel) env sr p =
     bnd (req_at p sr) (\<lambda>req.
     if now env - rq_sent req > 1 then
       if rq_times_sent req \<ge> 5 then
         bnd (unreachable_loop (sr_arpcache_handle_arpreq fuel env) env p sr (rq_packets req)) (\<lambda>sr1.
         bnd (req_at p sr1) (\<lambda>_.
         Inr (sr1\<lparr>cache := sr_arpreq_destroy (cache sr1) (Some p)\<rparr>)))
       else send_arp_request env sr req
     else Inr sr)"

text \<open>The sweep saves \<^verbatim>\<open>next\<close> before it handles a request.\<close>

fun next_req :: "nat \<Rightarrow> sr_arpreq list \<Rightarrow> nat option" where
  "next_req p [] = None"
| "next_req p [r] = None"
| "next_req p (r # s # rs) = (if rq_id r = p then Some (rq_id s) else next_req p (s # rs))"

primrec sweep_loop :: "nat \<Rightarrow> nat \<Rightarrow> env \<Rightarrow> sr_instance \<Rightarrow> nat option \<Rightarrow> sr_instance res" where
  "sweep_loop 0 fuel env sr req = (case req of None \<Rightarrow> Inr sr | Some p \<Rightarrow> Inl Out_of_fuel)"
| "sweep_loop (Suc k) fuel env sr req =
     (case req of
        None \<Rightarrow> Inr sr
      | Some p \<Rightarrow>
        bnd (req_at p sr) (\<lambda>_.
        let nxt = next_req p (requests (cache sr)) in
        bnd (sr_arpcache_handle_arpreq fuel env sr p) (\<lambda>sr1. sweep_loop k fuel env sr1 nxt)))"

definition sr_arpcache_sweepreqs :: "nat \<Rightarrow> nat \<Rightarrow> env \<Rightarrow> sr_instance \<Rightarrow> sr_instance res" where
  "sr_arpcache_sweepreqs k fuel env sr =
     sweep_loop k fuel env sr (case requests (cache sr) of [] \<Rightarrow> None | r # _ \<Rightarrow> Some (rq_id r))"

text \<open>One round of the endless loop of the timeout thread, after its \<^verbatim>\<open>sleep\<close>.\<close>

definition sr_arpcache_timeout :: "nat \<Rightarrow> nat \<Rightarrow> env \<Rightarrow> sr_instance \<Rightarrow> sr_instance res" where
  "sr_arpcache_timeout k fuel env sr =
     sr_arpcache_sweepreqs k fuel env (sr\<lparr>cache := sr_arpcache_expire (now env) (cache sr)\<rparr>)"

text \<open>The first iterations of its loop, one after the other.\<close>

definition rounds :: "nat \<Rightarrow> nat \<Rightarrow> sr_instance \<Rightarrow> env list \<Rightarrow> sr_instance res" where
  "rounds k fuel = each (\<lambda>sr env. sr_arpcache_timeout k fuel env sr)"

section \<open>Buffers\<close>

lemma arp_request_buf_eq: "arp_request_buf env ifc t = arp_request_frame (if_addr ifc) (if_ip ifc) t"
  unfolding arp_request_frame_def broadcast_def
  by (rule buf42_eqI) (simp_all add: arp_request_buf_def Let_def buf_simps)

text \<open>The destination address of a frame that has none yet is what the allocator left there.\<close>

abbreviation unset_mac :: "env \<Rightarrow> nat \<Rightarrow> mac" where
  "unset_mac env n \<equiv> ether_dhost (rd_eth (seg 0 14 (malloc (junk env) n)))"

lemma host_unreachable_buf_eq:
  "(let buf = mod_ip 14 (\<lambda>h. h\<lparr>ip_src := if_ip ifc, ip_sum := 0\<rparr>) (host_unreachable_buf env pbuf);
        buf = mod_ip 14 (\<lambda>h. h\<lparr>ip_sum := cksum (seg 14 20 buf)\<rparr>) buf
    in mod_eth 0 (\<lambda>h. h\<lparr>ether_shost := if_addr ifc\<rparr>) buf) =
   icmp_t3_frame (unset_mac env 70) (if_addr ifc) (ip_id (ip_at 14 pbuf)) (if_ip ifc)
     (ip_src (ip_at 14 pbuf)) 1 (arr_at 14 pbuf)"
proof (cases "rd_ip (seg 14 20 (malloc (junk env) 70))"; cases "rd_icmp_t3 (seg 34 36 (malloc (junk env) 70))")
  fix a1 a2 a3 a4 a5 a6 a7 a8 a9 a10 a11 b1 b2 b3 b4 b5 b6
  assume h: "rd_ip (seg 14 20 (malloc (junk env) 70)) =
      \<lparr> ip_hl = a1, ip_v = a2, ip_tos = a3, ip_len = a4, ip_id = a5, ip_off = a6, ip_ttl = a7, ip_p = a8,
        ip_sum = a9, ip_src = a10, ip_dst = a11 \<rparr>"
    "rd_icmp_t3 (seg 34 36 (malloc (junk env) 70)) =
      \<lparr> icmp_type = b1, icmp_code = b2, icmp_sum = b3, t3_unused = b4, t3_next_mtu = b5, t3_data = b6 \<rparr>"
  show ?thesis
    unfolding icmp_t3_frame_def
    by (rule buf70_eqI)
      (simp_all add: host_unreachable_buf_def Let_def buf_simps icmp_ip_hdr_def ip_checksummed_def icmp_t3_msg_def h)
qed

lemma send_ok_eq:
  assumes "frame_ok buf len" and "sr_get_interface sr iface = Some i"
    and "ether_shost (rd_eth (seg 0 14 buf)) = if_addr i"
  shows "\<exists>r log. sr_send_packet env sr buf len iface =
    Inr (r, sr\<lparr>logfile := log, sock_out := sock_out sr @ [vns_frame iface buf]\<rparr>)"
  using send_packet_eq [OF assms(1), of env sr iface] assms(2,3) by auto

lemma frame_ok_42 [simp]: "length b = 42 \<Longrightarrow> frame_ok b 42"
  by (simp add: frame_ok_def)

lemma frame_ok_70 [simp]: "length b = 70 \<Longrightarrow> frame_ok b 70"
  by (simp add: frame_ok_def)

section \<open>Sending an ARP request\<close>

definition mark_sent :: "int \<Rightarrow> nat \<Rightarrow> sr_arpcache \<Rightarrow> sr_arpcache" where
  "mark_sent t p c = c\<lparr>requests := upd_req p
     (\<lambda>r. r\<lparr>rq_sent := t, rq_times_sent := rq_times_sent r + 1\<rparr>) (requests c)\<rparr>"

lemma send_arp_request_eq:
  assumes "sr_findLPMentry (routing_table sr) (rq_ip req) = Some e"
    and i: "sr_get_interface sr (list_of (rt_interface e)) = Some i"
  shows "\<exists>log. send_arp_request env sr req = Inr (sr\<lparr>cache := mark_sent (now env) (rq_id req) (cache sr),
    logfile := log, sock_out := sock_out sr @
      [vns_frame (list_of (if_name i)) (arp_request_frame (if_addr i) (if_ip i) (rq_ip req))]\<rparr>)"
proof -
  let ?sr = "sr\<lparr>cache := mark_sent (now env) (rq_id req) (cache sr)\<rparr>"
  let ?b = "arp_request_frame (if_addr i) (if_ip i) (rq_ip req)"
  have "sr_get_interface ?sr (list_of (if_name i)) = Some i"
    using sr_get_interface_again [OF i] by simp
  then have "\<exists>r log. sr_send_packet env ?sr ?b 42 (list_of (if_name i)) =
    Inr (r, ?sr\<lparr>logfile := log, sock_out := sock_out ?sr @ [vns_frame (list_of (if_name i)) ?b]\<rparr>)"
    by (intro send_ok_eq) simp_all
  then obtain r log where eq: "sr_send_packet env ?sr ?b 42 (list_of (if_name i)) =
    Inr (r, ?sr\<lparr>logfile := log, sock_out := sock_out ?sr @ [vns_frame (list_of (if_name i)) ?b]\<rparr>)"
    by (elim exE)
  have "send_arp_request env sr req =
    bnd (sr_send_packet env ?sr ?b 42 (list_of (if_name i))) (\<lambda>(_, sr2). Inr sr2)"
    by (simp only: send_arp_request_def assms deref_Some bnd_Inr arp_request_buf_eq mark_sent_def Let_def)
  then have "send_arp_request env sr req =
    Inr (?sr\<lparr>logfile := log, sock_out := sock_out ?sr @ [vns_frame (list_of (if_name i)) ?b]\<rparr>)"
    by (simp only: eq bnd_Inr prod.case)
  then show ?thesis by (intro exI [of _ log]) simp
qed

lemma send_arp_request_no_route:
  "sr_findLPMentry (routing_table sr) (rq_ip req) = None \<Longrightarrow> send_arp_request env sr req = Inl Null_deref"
  by (simp add: send_arp_request_def)

section \<open>The ICMP error for one waiting packet\<close>

text \<open>The error message for a packet, leaving by an interface towards a hardware address.\<close>

definition unreachable_frame :: "mac \<Rightarrow> sr_if \<Rightarrow> byte list \<Rightarrow> byte list" where
  "unreachable_frame dmac ifc pbuf = icmp_t3_frame dmac (if_addr ifc) (ip_id (ip_at 14 pbuf)) (if_ip ifc)
     (ip_src (ip_at 14 pbuf)) 1 (arr_at 14 pbuf)"

lemma host_unreachable_eq:
  "host_unreachable rec env sr pck =
     (if length (pk_buf pck) < 42 then Inl Oob_access
      else let src = ip_src (ip_at 14 (pk_buf pck)) in
        (case sr_findLPMentry (routing_table sr) src of
           None \<Rightarrow> Inr sr
         | Some e \<Rightarrow>
           (case sr_get_interface sr (list_of (rt_interface e)) of
              None \<Rightarrow> Inl Null_deref
            | Some ifc \<Rightarrow>
              (case sr_arpcache_lookup (cache sr) src of
                 Some entry \<Rightarrow>
                   bnd (sr_send_packet env sr (unreachable_frame (ae_mac entry) ifc (pk_buf pck)) 70
                     (list_of (rt_interface e))) (\<lambda>(_, sr1). Inr sr1)
               | None \<Rightarrow>
                   bnd (sr_arpcache_queuereq (cache sr) src
                     (Some (unreachable_frame (unset_mac env 70) ifc (pk_buf pck))) 70
                     (Some (list_of (rt_interface e)))) (\<lambda>(req, c). rec (sr\<lparr>cache := c\<rparr>) req)))))"
proof (cases "length (pk_buf pck) < 42")
  case False
  note eq = host_unreachable_buf_eq [of _ env "pk_buf pck", unfolded Let_def]
  show ?thesis
    using False
    by (simp add: host_unreachable_def Let_def eq unreachable_frame_def split: option.splits)
qed (simp add: host_unreachable_def)

lemma unreachable_frame_simps [simp]:
  "length (unreachable_frame d i b) = 70"
  "ether_shost (rd_eth (seg 0 14 (unreachable_frame d i b))) = if_addr i"
  "ip_src (ip_at 14 (unreachable_frame d i b)) = if_ip i"
  by (simp_all add: unreachable_frame_def)

lemma host_unreachable_send:
  assumes "42 \<le> length (pk_buf pck)"
    and "sr_findLPMentry (routing_table sr) (ip_src (ip_at 14 (pk_buf pck))) = Some e"
    and "sr_get_interface sr (list_of (rt_interface e)) = Some i"
    and "sr_arpcache_lookup (cache sr) (ip_src (ip_at 14 (pk_buf pck))) = Some a"
  shows "\<exists>log. host_unreachable rec env sr pck = Inr (sr\<lparr>logfile := log, sock_out := sock_out sr @
    [vns_frame (list_of (rt_interface e)) (unreachable_frame (ae_mac a) i (pk_buf pck))]\<rparr>)"
  using assms send_ok_eq [of "unreachable_frame (ae_mac a) i (pk_buf pck)" 70 sr "list_of (rt_interface e)" i env]
  by (auto simp: host_unreachable_eq)

section \<open>Relations kept by the request queue\<close>

lemma req_at_mem: "req_at p sr = Inr r \<Longrightarrow> r \<in> set (requests (cache sr)) \<and> rq_id r = p"
  by (auto simp: req_at_def find_Some_iff split: option.splits)

text \<open>
  Handling requests is made of four steps: sending a frame, recording that an ARP request went out,
  queueing an error message of the router, and destroying a request. A reflexive and transitive relation
  that contains them contains every run of the handler, of the sweep and of the timeout loop that
  returns.
\<close>

locale arp_relation =
  fixes R :: "sr_instance \<Rightarrow> sr_instance \<Rightarrow> bool"
  assumes R_refl: "R sr sr"
    and R_trans: "R sr sr1 \<Longrightarrow> R sr1 sr2 \<Longrightarrow> R sr sr2"
    and R_send: "frame_ok buf len \<Longrightarrow> sr_send_packet env sr buf len iface = Inr (x, sr') \<Longrightarrow> R sr sr'"
    and R_mark: "r \<in> set (requests (cache sr)) \<Longrightarrow> \<not> 5 \<le> rq_times_sent r \<Longrightarrow>
      R sr (sr\<lparr>cache := mark_sent t (rq_id r) (cache sr)\<rparr>)"
    and R_queue: "sr_get_interface sr n = Some i \<Longrightarrow>
      sr_arpcache_queuereq (cache sr) ip (Some (unreachable_frame d i pbuf)) 70 (Some n) = Inr (p, c) \<Longrightarrow>
      R sr (sr\<lparr>cache := c\<rparr>)"
    and R_destroy: "R sr (sr\<lparr>cache := sr_arpreq_destroy (cache sr) (Some p)\<rparr>)"
begin

lemma R_arp_request:
  assumes "send_arp_request env sr r = Inr sr'"
    and "r \<in> set (requests (cache sr))" and "\<not> 5 \<le> rq_times_sent r"
  shows "R sr sr'"
proof -
  let ?sr = "sr\<lparr>cache := mark_sent (now env) (rq_id r) (cache sr)\<rparr>"
  from assms(1) obtain b n x where b: "sr_send_packet env ?sr b 42 n = Inr (x, sr')" "length b = 42"
    by (auto simp: send_arp_request_def mark_sent_def arp_request_buf_eq Let_def)
  then have "frame_ok b 42" by (simp add: frame_ok_def)
  then have "R ?sr sr'" using b(1) by (rule R_send)
  with R_mark [OF assms(2,3)] show ?thesis by (rule R_trans)
qed

lemma R_unreachable:
  assumes "host_unreachable rec env sr pck = Inr sr'"
    and rec: "\<And>sr p sr'. rec sr p = Inr sr' \<Longrightarrow> R sr sr'"
  shows "R sr sr'"
proof -
  from assms(1) consider "sr' = sr"
    | b n x where "sr_send_packet env sr b 70 n = Inr (x, sr')" "length b = 70"
    | s n p c i where "sr_get_interface sr n = Some i"
        "sr_arpcache_queuereq (cache sr) s (Some (unreachable_frame (unset_mac env 70) i (pk_buf pck))) 70 (Some n) = Inr (p, c)"
        "rec (sr\<lparr>cache := c\<rparr>) p = Inr sr'"
    by (auto simp: host_unreachable_eq Let_def split: if_splits option.splits)
  then show ?thesis
  proof cases
    case 1
    then show ?thesis by (simp add: R_refl)
  next
    case (2 b n x)
    then have "frame_ok b 70" by (simp add: frame_ok_def)
    then show ?thesis using 2(1) by (rule R_send)
  next
    case (3 s n p c i)
    with R_queue [OF 3(1,2)] rec [OF 3(3)] show ?thesis by (blast intro: R_trans)
  qed
qed

lemma R_loop:
  assumes rec: "\<And>sr p sr'. rec sr p = Inr sr' \<Longrightarrow> R sr sr'"
  shows "unreachable_loop rec env p sr ps = Inr sr' \<Longrightarrow> R sr sr'"
proof (induction ps arbitrary: sr)
  case (Cons q ps)
  then obtain sr1 where "host_unreachable rec env sr q = Inr sr1" "unreachable_loop rec env p sr1 ps = Inr sr'"
    by auto
  then have "R sr sr1" "R sr1 sr'"
    using rec by (auto intro: Cons.IH elim: R_unreachable)
  then show ?case by (rule R_trans)
qed (simp add: R_refl)

lemma R_handle: "sr_arpcache_handle_arpreq fuel env sr p = Inr sr' \<Longrightarrow> R sr sr'"
proof (induction fuel arbitrary: sr p sr')
  case (Suc fuel)
  then obtain r where r: "req_at p sr = Inr r" by auto
  then have mem: "r \<in> set (requests (cache sr))" by (auto dest: req_at_mem)
  consider "\<not> now env - rq_sent r > 1" | "now env - rq_sent r > 1" "\<not> 5 \<le> rq_times_sent r"
    | "now env - rq_sent r > 1" "5 \<le> rq_times_sent r" by blast
  then show ?case
  proof cases
    case 1
    with Suc.prems r show ?thesis by (simp add: R_refl)
  next
    case 2
    with Suc.prems r have "send_arp_request env sr r = Inr sr'" by simp
    then show ?thesis using mem 2(2) by (rule R_arp_request)
  next
    case 3
    with Suc.prems r obtain sr1 where
      loop: "unreachable_loop (sr_arpcache_handle_arpreq fuel env) env p sr (rq_packets r) = Inr sr1"
      and sr': "sr' = sr1\<lparr>cache := sr_arpreq_destroy (cache sr1) (Some p)\<rparr>"
      by auto
    have "R sr sr1"
      by (rule R_loop [OF _ loop]) (rule Suc.IH)
    then show ?thesis
      using R_destroy unfolding sr' by (rule R_trans)
  qed
qed simp

lemma R_sweep_loop: "sweep_loop k fuel env sr q = Inr sr' \<Longrightarrow> R sr sr'"
proof (induction k arbitrary: sr q)
  case (Suc k)
  show ?case
  proof (cases q)
    case (Some p)
    with Suc.prems obtain sr1 where "sr_arpcache_handle_arpreq fuel env sr p = Inr sr1"
      "sweep_loop k fuel env sr1 (next_req p (requests (cache sr))) = Inr sr'"
      by (auto simp: Let_def)
    then show ?thesis
      using Suc.IH R_handle R_trans by blast
  qed (use Suc.prems R_refl in simp)
qed (simp add: R_refl split: option.splits)

lemma R_sweep: "sr_arpcache_sweepreqs k fuel env sr = Inr sr' \<Longrightarrow> R sr sr'"
  unfolding sr_arpcache_sweepreqs_def by (rule R_sweep_loop)

text \<open>The timeout thread changes, besides, only the validity of old mappings.\<close>

lemma R_timeout:
  "sr_arpcache_timeout k fuel env sr = Inr sr' \<Longrightarrow>
   R (sr\<lparr>cache := sr_arpcache_expire (now env) (cache sr)\<rparr>) sr'"
  unfolding sr_arpcache_timeout_def by (rule R_sweep)

end

section \<open>What handling a request changes\<close>

definition times_ok :: "sr_arpcache \<Rightarrow> bool" where
  "times_ok c \<longleftrightarrow> (\<forall>r \<in> set (requests c). rq_times_sent r \<le> 5)"

text \<open>
  A step of the router that leaves the interfaces, the routes and the learnt mappings alone, only
  appends to the output, and keeps the invariants of the queue.
\<close>

definition router_step :: "sr_instance \<Rightarrow> sr_instance \<Rightarrow> bool" where
  "router_step sr sr' \<longleftrightarrow> if_list sr' = if_list sr \<and> routing_table sr' = routing_table sr
     \<and> entries (cache sr') = entries (cache sr) \<and> (\<exists>out. sock_out sr' = sock_out sr @ out)
     \<and> (cache_inv (cache sr) \<and> times_ok (cache sr) \<longrightarrow> cache_inv (cache sr') \<and> times_ok (cache sr'))"

lemma router_stepI:
  assumes "if_list sr' = if_list sr" "routing_table sr' = routing_table sr"
    "entries (cache sr') = entries (cache sr)" "sock_out sr' = sock_out sr @ out"
    "cache_inv (cache sr) \<Longrightarrow> times_ok (cache sr) \<Longrightarrow> cache_inv (cache sr') \<and> times_ok (cache sr')"
  shows "router_step sr sr'"
  using assms by (auto simp: router_step_def)

lemma router_stepD:
  assumes "router_step sr sr'"
  shows "if_list sr' = if_list sr" "routing_table sr' = routing_table sr"
    "entries (cache sr') = entries (cache sr)" "\<exists>out. sock_out sr' = sock_out sr @ out"
    "cache_inv (cache sr) \<Longrightarrow> times_ok (cache sr) \<Longrightarrow> cache_inv (cache sr')"
    "cache_inv (cache sr) \<Longrightarrow> times_ok (cache sr) \<Longrightarrow> times_ok (cache sr')"
  using assms by (auto simp: router_step_def)

lemma router_step_refl [simp]: "router_step sr sr"
  by (simp add: router_step_def)

lemma router_step_trans:
  assumes "router_step a b" and "router_step b c"
  shows "router_step a c"
proof -
  obtain x y where "sock_out b = sock_out a @ x" "sock_out c = sock_out b @ y"
    using router_stepD(4) [OF assms(1)] router_stepD(4) [OF assms(2)] by blast
  then show ?thesis
    using router_stepD(1-3,5,6) [OF assms(1)] router_stepD(1-3,5,6) [OF assms(2)]
    by (intro router_stepI [where out = "x @ y"]) auto
qed

text \<open>Steps that touch only the queue.\<close>

lemma router_step_cache:
  "entries c = entries (cache sr) \<Longrightarrow>
   (cache_inv (cache sr) \<Longrightarrow> times_ok (cache sr) \<Longrightarrow> cache_inv c \<and> times_ok c) \<Longrightarrow>
   router_step sr (sr\<lparr>cache := c\<rparr>)"
  by (rule router_stepI [where out = "[]"]) simp_all

lemma send_out_prefix:
  assumes "sr_send_packet env sr buf len iface = Inr (r, sr')"
  shows "\<exists>out. sock_out sr' = sock_out sr @ out"
proof (cases "unat len < 14")
  case True
  with assms show ?thesis by (simp add: sr_send_packet_def)
next
  case False
  with assms obtain sr1 where "sr_log_packet (tv env) sr buf (sint len) = Inr sr1"
    and sr': "sr' = sr1 \<or> (\<exists>m. sr' = sr1\<lparr>sock_out := sock_out sr1 @ [m]\<rparr>)"
    by (auto simp: sr_send_packet_def Let_def split: if_splits)
  then obtain log where "sr1 = sr\<lparr>logfile := log\<rparr>"
    using log_packet_frame by blast
  with sr' show ?thesis by auto
qed

lemma router_step_send:
  assumes "sr_send_packet env sr buf len iface = Inr (r, sr')"
  shows "router_step sr sr'"
proof -
  obtain out where "sock_out sr' = sock_out sr @ out"
    using send_out_prefix [OF assms] by blast
  then show ?thesis
    using same_router_fields [OF send_packet_same [OF assms]]
    by (intro router_stepI [where out = out]) simp_all
qed

lemma queuereq_cases:
  assumes "sr_arpcache_queuereq c ip packet l iface = Inr (p, c')" and "queuereq_find c ip = (p1, c1)"
  shows "p = p1" and "c' = c1 \<or> (\<exists>n. packet_ok n
    \<and> c' = c1\<lparr>requests := upd_req p (\<lambda>r. r\<lparr>rq_packets := n # rq_packets r\<rparr>) (requests c1)\<rparr>)"
  using assms packet_ok_new
  by (auto simp: sr_arpcache_queuereq_def Let_def split: option.splits if_splits)

lemma times_ok_find: "times_ok c \<Longrightarrow> queuereq_find c ip = (p, c1) \<Longrightarrow> times_ok c1"
  by (auto simp: queuereq_find_def times_ok_def new_req_def split: option.splits)

lemma times_ok_upd:
  "times_ok c \<Longrightarrow> (\<And>r. r \<in> set (requests c) \<Longrightarrow> rq_times_sent r \<le> 5 \<Longrightarrow> rq_id r = p \<Longrightarrow> rq_times_sent (f r) \<le> 5) \<Longrightarrow>
   times_ok (c\<lparr>requests := upd_req p f (requests c)\<rparr>)"
  by (auto simp: times_ok_def set_upd_req)

lemma queuereq_keeps:
  assumes q: "sr_arpcache_queuereq c ip packet l iface = Inr (p, c')"
  shows "entries c' = entries c"
    and "cache_inv c \<Longrightarrow> times_ok c \<Longrightarrow> cache_inv c' \<and> times_ok c'"
proof -
  obtain p1 c1 where f: "queuereq_find c ip = (p1, c1)" by fastforce
  have "entries c1 = entries c"
    using f by (auto simp: queuereq_find_def split: option.splits)
  with queuereq_cases(2) [OF q f] show "entries c' = entries c" by auto
  assume inv: "cache_inv c" "times_ok c"
  have inv1: "cache_inv c1" "times_ok c1"
    using queuereq_find_spec(1) [OF inv(1) f] times_ok_find [OF inv(2) f] by blast+
  from queuereq_cases(2) [OF q f] show "cache_inv c' \<and> times_ok c'"
  proof (elim disjE exE conjE)
    fix n assume "packet_ok n"
      and c': "c' = c1\<lparr>requests := upd_req p (\<lambda>r. r\<lparr>rq_packets := n # rq_packets r\<rparr>) (requests c1)\<rparr>"
    then show ?thesis
      using inv1 unfolding c' by (intro conjI cache_inv_upd_req times_ok_upd) simp_all
  qed (use inv1 in simp)
qed

lemma cache_inv_mark_sent: "cache_inv c \<Longrightarrow> cache_inv (mark_sent t p c)"
  unfolding mark_sent_def by (rule cache_inv_upd_req) simp_all

lemma u32_less_5: "(x :: u32) < 5 \<Longrightarrow> x + 1 \<le> 5"
  by (simp add: word_less_nat_alt word_le_nat_alt unat_word_ariths)

lemma times_ok_mark_sent:
  assumes "times_ok c" and "cache_inv c" and "r \<in> set (requests c)" and "\<not> 5 \<le> rq_times_sent r"
  shows "times_ok (mark_sent t (rq_id r) c)"
  unfolding mark_sent_def
proof (rule times_ok_upd [OF assms(1)])
  fix q assume "q \<in> set (requests c)" "rq_id q = rq_id r"
  then have "q = r"
    using assms(3) cache_invD(3) [OF assms(2)] by (simp add: distinct_map inj_on_def)
  then show "rq_times_sent (q\<lparr>rq_sent := t, rq_times_sent := rq_times_sent q + 1\<rparr>) \<le> 5"
    using assms(4) u32_less_5 by (simp add: linorder_not_le)
qed

lemma router_step_mark:
  assumes "r \<in> set (requests (cache sr))" and "\<not> 5 \<le> rq_times_sent r"
  shows "router_step sr (sr\<lparr>cache := mark_sent t (rq_id r) (cache sr)\<rparr>)"
  using assms by (intro router_step_cache) (simp_all add: cache_inv_mark_sent times_ok_mark_sent, simp add: mark_sent_def)

lemma router_step_destroy: "router_step sr (sr\<lparr>cache := sr_arpreq_destroy (cache sr) (Some p)\<rparr>)"
proof (rule router_step_cache)
  assume "cache_inv (cache sr)" "times_ok (cache sr)"
  then show "cache_inv (sr_arpreq_destroy (cache sr) (Some p)) \<and> times_ok (sr_arpreq_destroy (cache sr) (Some p))"
    using cache_inv_destroy [of "cache sr" "Some p"] cache_invD(3) [of "cache sr"]
    by (simp add: sr_arpreq_destroy_def times_ok_def remove_req_filter)
qed (simp add: sr_arpreq_destroy_def)

interpretation step: arp_relation router_step
proof
  show "router_step sr (sr\<lparr>cache := c\<rparr>)"
    if "sr_arpcache_queuereq (cache sr) ip (Some (unreachable_frame d i b)) 70 (Some n) = Inr (p, c)"
    for sr ip d i b n p c
    using queuereq_keeps [OF that] by (intro router_step_cache) simp_all
qed (simp, erule (1) router_step_trans, rule router_step_send, assumption, erule (1) router_step_mark, rule router_step_destroy)

lemmas router_step_handle = step.R_handle
lemmas router_step_arp_request = step.R_arp_request

lemma times_ok_expire [simp]: "times_ok (sr_arpcache_expire t c) = times_ok c"
  by (simp add: times_ok_def sr_arpcache_expire_def)

end
