(* ===== verification/Giving_up.thy ===== *)
theory Giving_up
  imports Arpreq
begin

text \<open>
  Giving up on an ARP request: when \<^verbatim>\<open>sr_arpcache_handle_arpreq\<close> returns, what it sends when it does, and
  the request on which it never returns.
\<close>

section \<open>When handling a request returns\<close>

text \<open>
  A request is exhausted when the code gives up on it. Giving up recurses on the exhausted requests for
  the sources of the waiting packets, so it returns when these dependencies have no cycle: a \<open>rank\<close>
  decreases along them. An error message of the router carries one of its own addresses as
  its source, so none of these may be exhausted.
\<close>

definition exhausted :: "env \<Rightarrow> sr_arpreq \<Rightarrow> bool" where
  "exhausted env r \<longleftrightarrow> now env - rq_sent r > 1 \<and> 5 \<le> rq_times_sent r"

definition pk_src :: "sr_packet \<Rightarrow> u32" where
  "pk_src pk = ip_src (ip_at 14 (pk_buf pk))"

definition given_up :: "env \<Rightarrow> sr_arpcache \<Rightarrow> u32 \<Rightarrow> bool" where
  "given_up env c ip \<longleftrightarrow> (\<exists>r \<in> set (requests c). exhausted env r \<and> rq_ip r = ip)"

text \<open>The waiting packets are complete frames, at least as long as what an error message quotes.\<close>

definition quotable :: "byte list \<Rightarrow> u32 \<Rightarrow> bool" where
  "quotable buf len \<longleftrightarrow> frame_ok buf len \<and> 42 \<le> length buf"

definition long_packets :: "sr_arpcache \<Rightarrow> bool" where
  "long_packets c \<longleftrightarrow> (\<forall>r \<in> set (requests c). \<forall>pk \<in> set (rq_packets r). quotable (pk_buf pk) (pk_len pk))"

definition acyclic_errors :: "env \<Rightarrow> (u32 \<Rightarrow> nat) \<Rightarrow> sr_arpcache \<Rightarrow> bool" where
  "acyclic_errors env rank c \<longleftrightarrow> (\<forall>r \<in> set (requests c). exhausted env r \<longrightarrow>
     (\<forall>pk \<in> set (rq_packets r). given_up env c (pk_src pk) \<longrightarrow> rank (pk_src pk) < rank (rq_ip r)))"

definition routes_ok :: "sr_instance \<Rightarrow> bool" where
  "routes_ok sr \<longleftrightarrow> (\<forall>e \<in> set (routing_table sr). sr_get_interface sr (list_of (rt_interface e)) \<noteq> None)"

definition calm :: "env \<Rightarrow> (u32 \<Rightarrow> nat) \<Rightarrow> sr_instance \<Rightarrow> bool" where
  "calm env rank sr \<longleftrightarrow> cache_inv (cache sr) \<and> long_packets (cache sr) \<and> routes_ok sr
     \<and> acyclic_errors env rank (cache sr) \<and> (\<forall>i \<in> set (if_list sr). \<not> given_up env (cache sr) (if_ip i))"

text \<open>How the queue changes while requests are handled: no request becomes exhausted.\<close>

definition settles :: "env \<Rightarrow> u32 set \<Rightarrow> sr_arpcache \<Rightarrow> sr_arpcache \<Rightarrow> bool" where
  "settles env own c c' \<longleftrightarrow> (cache_inv c \<longrightarrow> cache_inv c') \<and> (long_packets c \<longrightarrow> long_packets c')
     \<and> (\<forall>r' \<in> set (requests c'). exhausted env r' \<longrightarrow>
          (\<exists>r \<in> set (requests c). exhausted env r \<and> rq_ip r = rq_ip r'
            \<and> (\<forall>pk \<in> set (rq_packets r'). pk \<in> set (rq_packets r) \<or> pk_src pk \<in> own)))"

text \<open>Exhausted requests of rank at least \<open>k\<close> stay in the queue.\<close>

definition keeps_above :: "env \<Rightarrow> (u32 \<Rightarrow> nat) \<Rightarrow> nat \<Rightarrow> sr_arpcache \<Rightarrow> sr_arpcache \<Rightarrow> bool" where
  "keeps_above env rank k c c' \<longleftrightarrow> (\<forall>r \<in> set (requests c). exhausted env r \<and> k \<le> rank (rq_ip r) \<longrightarrow>
     (\<exists>r' \<in> set (requests c'). exhausted env r' \<and> rq_id r' = rq_id r \<and> rq_ip r' = rq_ip r))"

lemma settles_refl [simp]: "settles env own c c"
  by (auto simp: settles_def)

lemma settles_trans: "settles env own a b \<Longrightarrow> settles env own b c \<Longrightarrow> settles env own a c"
  unfolding settles_def by (clarsimp, metis)

lemma keeps_refl [simp]: "keeps_above env rank k c c"
  by (auto simp: keeps_above_def)

lemma keeps_trans:
  "keeps_above env rank k a b \<Longrightarrow> keeps_above env rank k b c \<Longrightarrow> keeps_above env rank k a c"
  unfolding keeps_above_def by metis

lemma keeps_mono: "keeps_above env rank k a b \<Longrightarrow> k \<le> l \<Longrightarrow> keeps_above env rank l a b"
  by (simp add: keeps_above_def)

lemma given_up_settles: "settles env own c c' \<Longrightarrow> given_up env c' ip \<Longrightarrow> given_up env c ip"
  unfolding settles_def given_up_def by metis

lemma calm_settles:
  assumes "calm env rank sr" and s: "settles env (if_ip ` set (if_list sr)) (cache sr) (cache sr')"
    and "if_list sr' = if_list sr" "routing_table sr' = routing_table sr"
  shows "calm env rank sr'"
proof -
  note g = given_up_settles [OF s]
  have "acyclic_errors env rank (cache sr')"
    unfolding acyclic_errors_def
  proof (intro ballI impI)
    fix r' pk assume r': "r' \<in> set (requests (cache sr'))" "exhausted env r'"
      and pk: "pk \<in> set (rq_packets r')" "given_up env (cache sr') (pk_src pk)"
    then obtain r where r: "r \<in> set (requests (cache sr))" "exhausted env r" "rq_ip r = rq_ip r'"
      "pk \<in> set (rq_packets r) \<or> pk_src pk \<in> if_ip ` set (if_list sr)"
      using s by (fastforce simp: settles_def)
    then show "rank (pk_src pk) < rank (rq_ip r')"
      using assms(1) g [OF pk(2)] by (fastforce simp: calm_def acyclic_errors_def)
  qed
  then show ?thesis
    using assms g by (auto simp: calm_def settles_def routes_ok_def get_interface_cong [OF assms(3)])
qed

text \<open>The three ways in which the queue changes.\<close>

lemma settles_queuereq:
  assumes q: "sr_arpcache_queuereq c ip (Some b) l (Some i) = Inr (p, c')" and inv: "cache_inv c"
    and b: "quotable b l" and own: "ip_src (ip_at 14 b) \<in> own"
  shows "settles env own c c'" and "keeps_above env rank k c c'"
proof -
  obtain p1 c1 where f: "queuereq_find c ip = (p1, c1)" by fastforce
  have l: "l \<noteq> 0" "unat l \<le> length b"
    using b by (auto simp: quotable_def frame_ok_def)
  let ?n = "new_pkt b l i"
  have c': "c' = c1\<lparr>requests := upd_req p (\<lambda>r. r\<lparr>rq_packets := ?n # rq_packets r\<rparr>) (requests c1)\<rparr>"
    using q l f by (auto simp: sr_arpcache_queuereq_def)
  have c1: "requests c1 = requests c \<or> requests c1 = requests c @ [new_req p1 ip]"
    using f by (auto simp: queuereq_find_def split: option.splits)
  have n: "pk_src ?n \<in> own" "quotable (pk_buf ?n) (pk_len ?n)"
    using own b by (auto simp: pk_src_def new_pkt_def quotable_def frame_ok_def)
  have "cache_inv c'"
    by (rule queuereq_spec [OF inv l, of ip i]) (use q in auto)
  moreover have "long_packets c'" if "long_packets c"
    using that c1 n(2) by (auto simp: long_packets_def c' set_upd_req new_req_def)
  moreover have new: "\<not> exhausted env (new_req p1 ip)" "\<not> exhausted env ((new_req p1 ip)\<lparr>rq_packets := ps\<rparr>)" for ps
    by (simp_all add: exhausted_def new_req_def)
  ultimately show "settles env own c c'"
    using c1 n(1) unfolding settles_def
    by (auto simp: c' set_upd_req exhausted_def new_req_def)
  show "keeps_above env rank k c c'"
    unfolding keeps_above_def
  proof (intro ballI impI)
    fix r assume "r \<in> set (requests c)" "exhausted env r \<and> k \<le> rank (rq_ip r)"
    then show "\<exists>r' \<in> set (requests c'). exhausted env r' \<and> rq_id r' = rq_id r \<and> rq_ip r' = rq_ip r"
      using c1 by (intro bexI [of _ "if rq_id r = p then r\<lparr>rq_packets := ?n # rq_packets r\<rparr> else r"])
        (auto simp: c' set_upd_req exhausted_def)
  qed
qed

lemma distinct_ids: "cache_inv c \<Longrightarrow> r \<in> set (requests c) \<Longrightarrow> q \<in> set (requests c) \<Longrightarrow> rq_id q = rq_id r \<Longrightarrow> q = r"
  using cache_invD(3) [of c] by (simp add: distinct_map inj_on_def)

lemma distinct_ips: "cache_inv c \<Longrightarrow> r \<in> set (requests c) \<Longrightarrow> q \<in> set (requests c) \<Longrightarrow> rq_ip q = rq_ip r \<Longrightarrow> q = r"
  using cache_invD(2) [of c] by (simp add: distinct_map inj_on_def)

lemma settles_mark_sent:
  assumes inv: "cache_inv c" and r: "r \<in> set (requests c)" "\<not> exhausted env r"
  shows "settles env own c (mark_sent (now env) (rq_id r) c)"
    and "keeps_above env rank k c (mark_sent (now env) (rq_id r) c)"
proof -
  have "\<not> exhausted env (q\<lparr>rq_sent := now env, rq_times_sent := n\<rparr>)" for q n
    by (simp add: exhausted_def)
  moreover have "cache_inv (mark_sent (now env) (rq_id r) c)"
    using inv by (rule cache_inv_mark_sent)
  moreover have "long_packets (mark_sent (now env) (rq_id r) c)" if "long_packets c"
    using that by (auto simp: long_packets_def mark_sent_def set_upd_req)
  ultimately show "settles env own c (mark_sent (now env) (rq_id r) c)"
    unfolding settles_def by (auto simp: mark_sent_def set_upd_req split: if_splits)
  show "keeps_above env rank k c (mark_sent (now env) (rq_id r) c)"
    unfolding keeps_above_def
  proof (intro ballI impI)
    fix q assume q: "q \<in> set (requests c)" "exhausted env q \<and> k \<le> rank (rq_ip q)"
    then have "rq_id q \<noteq> rq_id r"
      using distinct_ids [OF inv r(1) q(1)] r(2) by auto
    with q show "\<exists>r' \<in> set (requests (mark_sent (now env) (rq_id r) c)).
        exhausted env r' \<and> rq_id r' = rq_id q \<and> rq_ip r' = rq_ip q"
      by (intro bexI [of _ q]) (auto simp: mark_sent_def set_upd_req)
  qed
qed

lemma settles_destroy:
  assumes inv: "cache_inv c" and r: "r \<in> set (requests c)"
  shows "settles env own c (sr_arpreq_destroy c (Some (rq_id r)))"
    and "keeps_above env rank (Suc (rank (rq_ip r))) c (sr_arpreq_destroy c (Some (rq_id r)))"
proof -
  have d: "requests (sr_arpreq_destroy c (Some (rq_id r))) = filter (\<lambda>q. rq_id q \<noteq> rq_id r) (requests c)"
    using cache_invD(3) [OF inv] by (simp add: sr_arpreq_destroy_def remove_req_filter)
  show "settles env own c (sr_arpreq_destroy c (Some (rq_id r)))"
    unfolding settles_def using cache_inv_destroy [OF inv, of "Some (rq_id r)"]
    by (auto simp: d long_packets_def)
  show "keeps_above env rank (Suc (rank (rq_ip r))) c (sr_arpreq_destroy c (Some (rq_id r)))"
    unfolding keeps_above_def d using distinct_ids [OF inv r] by fastforce
qed

definition settled :: "env \<Rightarrow> (u32 \<Rightarrow> nat) \<Rightarrow> nat \<Rightarrow> sr_instance \<Rightarrow> sr_instance res \<Rightarrow> bool" where
  "settled env rank k sr res \<longleftrightarrow> (\<exists>sr'. res = Inr sr' \<and> router_step sr sr'
     \<and> settles env (if_ip ` set (if_list sr)) (cache sr) (cache sr')
     \<and> keeps_above env rank k (cache sr) (cache sr'))"

lemma settledE:
  assumes "settled env rank k sr res" and "calm env rank sr"
  obtains sr' where "res = Inr sr'" "router_step sr sr'" "calm env rank sr'"
    "settles env (if_ip ` set (if_list sr)) (cache sr) (cache sr')"
    "keeps_above env rank k (cache sr) (cache sr')"
  using assms unfolding settled_def by (auto intro: calm_settles dest: router_stepD)

lemma settledI:
  "router_step sr sr' \<Longrightarrow> settles env (if_ip ` set (if_list sr)) (cache sr) (cache sr') \<Longrightarrow>
   keeps_above env rank k (cache sr) (cache sr') \<Longrightarrow> settled env rank k sr (Inr sr')"
  by (simp add: settled_def)

lemma settled_then:
  assumes "router_step sr sr1" "settles env (if_ip ` set (if_list sr)) (cache sr) (cache sr1)"
    "keeps_above env rank k (cache sr) (cache sr1)" and "settled env rank k sr1 res"
  shows "settled env rank k sr res"
proof -
  have "if_list sr1 = if_list sr" using assms(1) by (rule router_stepD)
  with assms show ?thesis
    unfolding settled_def by (fastforce intro: router_step_trans settles_trans keeps_trans)
qed

lemma get_interface_mem: "sr_get_interface sr n = Some i \<Longrightarrow> i \<in> set (if_list sr)"
  by (auto simp: sr_get_interface_def dest: if_walk_Some)

lemma calm_route:
  assumes "calm env rank sr" and "sr_findLPMentry (routing_table sr) ip = Some e"
  obtains i where "sr_get_interface sr (list_of (rt_interface e)) = Some i"
  using assms lpm.best_mem by (fastforce simp: calm_def routes_ok_def)

lemma req_at_id: "cache_inv (cache sr) \<Longrightarrow> r \<in> set (requests (cache sr)) \<Longrightarrow> req_at (rq_id r) sr = Inr r"
proof -
  assume inv: "cache_inv (cache sr)" and r: "r \<in> set (requests (cache sr))"
  have "find (\<lambda>q. rq_id q = rq_id r) (requests (cache sr)) \<noteq> None"
    using r by (auto simp: find_None_iff)
  then obtain q where "find (\<lambda>q. rq_id q = rq_id r) (requests (cache sr)) = Some q" by blast
  moreover from this have "q \<in> set (requests (cache sr))" "rq_id q = rq_id r"
    by (auto simp: find_Some_iff)
  ultimately show ?thesis
    using distinct_ids [OF inv r] by (simp add: req_at_def)
qed

lemma unreachable_settles:
  assumes calm: "calm env rank sr" and len: "42 \<le> length (pk_buf pk)"
    and less: "given_up env (cache sr) (pk_src pk) \<Longrightarrow> rank (pk_src pk) < m"
    and rec: "\<And>sr p r. calm env rank sr \<Longrightarrow> req_at p sr = Inr r \<Longrightarrow>
      (exhausted env r \<Longrightarrow> rank (rq_ip r) < m) \<Longrightarrow> sr_findLPMentry (routing_table sr) (rq_ip r) \<noteq> None \<Longrightarrow>
      settled env rank m sr (rec sr p)"
  shows "settled env rank m sr (host_unreachable rec env sr pk)"
proof (cases "sr_findLPMentry (routing_table sr) (pk_src pk)")
  case None
  then have "host_unreachable rec env sr pk = Inr sr"
    using len by (simp add: host_unreachable_eq pk_src_def)
  then show ?thesis by (simp add: settled_def)
next
  case (Some e)
  obtain i where i: "sr_get_interface sr (list_of (rt_interface e)) = Some i"
    using calm Some by (rule calm_route)
  show ?thesis
  proof (cases "sr_arpcache_lookup (cache sr) (pk_src pk)")
    case (Some a)
    obtain log where eq: "host_unreachable rec env sr pk = Inr (sr\<lparr>logfile := log, sock_out := sock_out sr @
        [vns_frame (list_of (rt_interface e)) (unreachable_frame (ae_mac a) i (pk_buf pk))]\<rparr>)"
      using host_unreachable_send [of pk sr e i a rec env] len \<open>sr_findLPMentry _ _ = Some e\<close> i Some
      unfolding pk_src_def by blast
    show ?thesis
      unfolding eq by (rule settledI) (rule router_stepI, simp_all)
  next
    case None
    let ?b = "unreachable_frame (unset_mac env 70) i (pk_buf pk)"
    have inv: "cache_inv (cache sr)" using calm by (simp add: calm_def)
    obtain p c r where q: "sr_arpcache_queuereq (cache sr) (pk_src pk) (Some ?b) 70
        (Some (list_of (rt_interface e))) = Inr (p, c)"
      and c: "cache_inv c" "r \<in> set (requests c)" "rq_id r = p" "rq_ip r = pk_src pk"
      by (rule queuereq_spec [OF inv, of 70 ?b "pk_src pk" "list_of (rt_interface e)"]) simp_all
    let ?sr = "sr\<lparr>cache := c\<rparr>"
    have eq: "host_unreachable rec env sr pk = rec ?sr p"
      using len \<open>sr_findLPMentry _ _ = Some e\<close> i None q by (simp add: host_unreachable_eq pk_src_def)
    have s: "settles env (if_ip ` set (if_list sr)) (cache sr) c" "keeps_above env rank m (cache sr) c"
      using settles_queuereq(1) [OF q inv] settles_queuereq(2) [OF q inv, of UNIV] get_interface_mem [OF i]
      by (simp_all add: quotable_def)
    have step: "router_step sr ?sr"
      using queuereq_keeps [OF q] by (intro router_step_cache) simp_all
    have "rank (rq_ip r) < m" if "exhausted env r"
      using less given_up_settles [OF s(1), of "pk_src pk"] c that by (auto simp: given_up_def)
    then have "settled env rank m ?sr (rec ?sr p)"
      using c s(1) calm_settles [OF calm, of ?sr] req_at_id [of ?sr r] \<open>sr_findLPMentry _ _ = Some e\<close>
      by (intro rec [where r = r]) simp_all
    then show ?thesis
      unfolding eq using step s by (intro settled_then [of sr ?sr]) simp_all
  qed
qed

lemma loop_settles:
  assumes rec: "\<And>sr p r. calm env rank sr \<Longrightarrow> req_at p sr = Inr r \<Longrightarrow>
      (exhausted env r \<Longrightarrow> rank (rq_ip r) < m) \<Longrightarrow> sr_findLPMentry (routing_table sr) (rq_ip r) \<noteq> None \<Longrightarrow>
      settled env rank m sr (rec sr p)"
  shows "calm env rank sr \<Longrightarrow> r \<in> set (requests (cache sr)) \<Longrightarrow> rq_id r = p \<Longrightarrow> exhausted env r \<Longrightarrow>
    m \<le> rank (rq_ip r) \<Longrightarrow>
    \<forall>pk \<in> set ps. 42 \<le> length (pk_buf pk) \<and> (given_up env (cache sr) (pk_src pk) \<longrightarrow> rank (pk_src pk) < m) \<Longrightarrow>
    settled env rank m sr (unreachable_loop rec env p sr ps)"
proof (induction ps arbitrary: sr r)
  case Nil
  then show ?case by (simp add: settled_def)
next
  case (Cons pk ps)
  have "settled env rank m sr (host_unreachable rec env sr pk)"
    using Cons.prems rec by (intro unreachable_settles) simp_all
  then obtain sr1 where eq: "host_unreachable rec env sr pk = Inr sr1" and step: "router_step sr sr1"
    and calm: "calm env rank sr1"
    and s: "settles env (if_ip ` set (if_list sr)) (cache sr) (cache sr1)"
    and k: "keeps_above env rank m (cache sr) (cache sr1)"
    using Cons.prems(1) by (rule settledE)
  obtain r' where r': "r' \<in> set (requests (cache sr1))" "exhausted env r'" "rq_id r' = p" "rq_ip r' = rq_ip r"
    using k Cons.prems(2-5) by (auto simp: keeps_above_def)
  have "req_at p sr1 = Inr r'"
    using req_at_id [of sr1 r'] r' calm by (simp add: calm_def)
  moreover have "settled env rank m sr1 (unreachable_loop rec env p sr1 ps)"
    using Cons.prems(5,6) given_up_settles [OF s] r' calm by (intro Cons.IH [of _ r']) auto
  ultimately show ?case
    using step s k by (auto simp: eq intro: settled_then)
qed

text \<open>A request that is not exhausted is at most re-sent.\<close>

lemma handle_fresh_settles:
  assumes calm: "calm env rank sr" and at: "req_at p sr = Inr r" and fresh: "\<not> exhausted env r"
    and route: "sr_findLPMentry (routing_table sr) (rq_ip r) \<noteq> None"
  shows "settled env rank 0 sr (sr_arpcache_handle_arpreq (Suc fuel) env sr p)"
proof (cases "now env - rq_sent r > 1")
  case True
  have inv: "cache_inv (cache sr)" using calm by (simp add: calm_def)
  have r: "r \<in> set (requests (cache sr))" using req_at_mem [OF at] by auto
  obtain e where e: "sr_findLPMentry (routing_table sr) (rq_ip r) = Some e" using route by auto
  from calm_route [OF calm e] obtain i where i: "sr_get_interface sr (list_of (rt_interface e)) = Some i" .
  obtain sr' where sr': "send_arp_request env sr r = Inr sr'" "cache sr' = mark_sent (now env) (rq_id r) (cache sr)"
    using send_arp_request_eq [OF e i, of env] by force
  have eq: "sr_arpcache_handle_arpreq (Suc fuel) env sr p = Inr sr'"
    using at True fresh sr'(1) by (simp add: exhausted_def)
  have "router_step sr sr'"
    using sr'(1) r True fresh by (intro router_step_arp_request) (simp_all add: exhausted_def)
  then show ?thesis
    unfolding eq using settles_mark_sent [OF inv r fresh] by (intro settledI) (simp_all add: sr'(2))
qed (use at in \<open>simp add: settled_def\<close>)

text \<open>An exhausted request is answered and destroyed, if the calls for the error messages settle.\<close>

lemma handle_exhausted_settles:
  assumes calm0: "calm env rank sr" and at: "req_at p sr = Inr r" and ex: "exhausted env r"
    and rec: "\<And>sr1 q s. calm env rank sr1 \<Longrightarrow> req_at q sr1 = Inr s \<Longrightarrow> (exhausted env s \<Longrightarrow> rank (rq_ip s) < rank (rq_ip r)) \<Longrightarrow>
      sr_findLPMentry (routing_table sr1) (rq_ip s) \<noteq> None \<Longrightarrow>
      settled env rank (rank (rq_ip r)) sr1 (sr_arpcache_handle_arpreq fuel env sr1 q)"
  shows "settled env rank (Suc (rank (rq_ip r))) sr (sr_arpcache_handle_arpreq (Suc fuel) env sr p)"
proof -
  let ?m = "rank (rq_ip r)" and ?rec = "sr_arpcache_handle_arpreq fuel env"
  have r: "r \<in> set (requests (cache sr))" "rq_id r = p" using req_at_mem [OF at] by auto
  have "settled env rank ?m sr (unreachable_loop ?rec env p sr (rq_packets r))"
    using calm0 r ex
    by (intro loop_settles rec) (auto simp: calm_def long_packets_def quotable_def acyclic_errors_def)
  then obtain sr1 where eq: "unreachable_loop ?rec env p sr (rq_packets r) = Inr sr1"
    and step: "router_step sr sr1" and calm: "calm env rank sr1"
    and s: "settles env (if_ip ` set (if_list sr)) (cache sr) (cache sr1)"
    and k: "keeps_above env rank ?m (cache sr) (cache sr1)"
    using calm0 by (rule settledE)
  obtain r' where r': "r' \<in> set (requests (cache sr1))" "exhausted env r'" "rq_id r' = p" "rq_ip r' = rq_ip r"
    using k r ex by (auto simp: keeps_above_def)
  have inv1: "cache_inv (cache sr1)" using calm by (simp add: calm_def)
  let ?sr = "sr1\<lparr>cache := sr_arpreq_destroy (cache sr1) (Some p)\<rparr>"
  have h: "sr_arpcache_handle_arpreq (Suc fuel) env sr p = Inr ?sr"
    using at ex eq req_at_id [OF inv1 r'(1)] r'(3) by (simp add: exhausted_def)
  have "settled env rank (Suc ?m) sr1 (Inr ?sr)"
    using settles_destroy(1) [OF inv1 r'(1)] settles_destroy(2) [OF inv1 r'(1), of env rank] r'(3,4)
      router_step_destroy [of sr1 p]
    by (intro settledI) simp_all
  then show ?thesis
    unfolding h using step s keeps_mono [OF k, of "Suc ?m"] by (intro settled_then [of sr sr1]) simp_all
qed

lemma handle_settles:
  "calm env rank sr \<Longrightarrow> req_at p sr = Inr r \<Longrightarrow>
   (if exhausted env r then rank (rq_ip r) + 2 \<le> fuel
    else 1 \<le> fuel \<and> sr_findLPMentry (routing_table sr) (rq_ip r) \<noteq> None) \<Longrightarrow>
   settled env rank (if exhausted env r then Suc (rank (rq_ip r)) else 0) sr
     (sr_arpcache_handle_arpreq fuel env sr p)"
proof (induction fuel arbitrary: sr p r)
  case (Suc fuel)
  show ?case
  proof (cases "exhausted env r")
    case True
    have rec: "settled env rank (rank (rq_ip r)) sr1 (sr_arpcache_handle_arpreq fuel env sr1 q)"
      if "calm env rank sr1" "req_at q sr1 = Inr s" "exhausted env s \<Longrightarrow> rank (rq_ip s) < rank (rq_ip r)"
        "sr_findLPMentry (routing_table sr1) (rq_ip s) \<noteq> None" for sr1 q s
      using Suc.IH [OF that(1,2)] that(3,4) Suc.prems(3) True
      by (cases "exhausted env s") (auto simp: settled_def elim!: keeps_mono)
    have "settled env rank (Suc (rank (rq_ip r))) sr (sr_arpcache_handle_arpreq (Suc fuel) env sr p)"
      by (rule handle_exhausted_settles [OF Suc.prems(1,2) True]) (rule rec)
    then show ?thesis using True by (simp only: if_True)
  next
    case False
    then have "sr_findLPMentry (routing_table sr) (rq_ip r) \<noteq> None" using Suc.prems(3) by simp
    from handle_fresh_settles [OF Suc.prems(1,2) False this] show ?thesis using False by (simp only: if_False)
  qed
qed (simp split: if_splits)

section \<open>Giving up on a request\<close>

text \<open>The messages that giving up sends when every source with a route is in the cache.\<close>

definition unreachable_out :: "sr_instance \<Rightarrow> sr_packet \<Rightarrow> byte list list" where
  "unreachable_out sr pk =
     (case sr_findLPMentry (routing_table sr) (pk_src pk) of
        None \<Rightarrow> []
      | Some e \<Rightarrow>
        (case (sr_get_interface sr (list_of (rt_interface e)), sr_arpcache_lookup (cache sr) (pk_src pk)) of
           (Some i, Some a) \<Rightarrow> [vns_frame (list_of (rt_interface e)) (unreachable_frame (ae_mac a) i (pk_buf pk))]
         | _ \<Rightarrow> []))"

definition answerable :: "sr_instance \<Rightarrow> sr_packet \<Rightarrow> bool" where
  "answerable sr pk \<longleftrightarrow> 42 \<le> length (pk_buf pk)
     \<and> (case sr_findLPMentry (routing_table sr) (pk_src pk) of
          None \<Rightarrow> True
        | Some e \<Rightarrow> sr_get_interface sr (list_of (rt_interface e)) \<noteq> None
            \<and> sr_arpcache_lookup (cache sr) (pk_src pk) \<noteq> None)"

lemma host_unreachable_answerable:
  assumes "answerable sr pk"
  shows "\<exists>log. host_unreachable rec env sr pk =
    Inr (sr\<lparr>logfile := log, sock_out := sock_out sr @ unreachable_out sr pk\<rparr>)"
proof (cases "sr_findLPMentry (routing_table sr) (pk_src pk)")
  case None
  then have "host_unreachable rec env sr pk = Inr sr" "unreachable_out sr pk = []"
    using assms by (simp_all add: host_unreachable_eq answerable_def unreachable_out_def pk_src_def)
  then show ?thesis by (intro exI [of _ "logfile sr"]) simp
next
  case (Some e)
  with assms obtain i a where "42 \<le> length (pk_buf pk)"
    "sr_get_interface sr (list_of (rt_interface e)) = Some i" "sr_arpcache_lookup (cache sr) (pk_src pk) = Some a"
    by (auto simp: answerable_def)
  moreover from this Some have "unreachable_out sr pk =
      [vns_frame (list_of (rt_interface e)) (unreachable_frame (ae_mac a) i (pk_buf pk))]"
    by (simp add: unreachable_out_def)
  ultimately show ?thesis
    using host_unreachable_send [of pk sr e i a rec env] Some unfolding pk_src_def by auto
qed

lemma answerable_frame [simp]:
  "answerable (sr\<lparr>logfile := log, sock_out := out\<rparr>) = answerable sr"
  "unreachable_out (sr\<lparr>logfile := log, sock_out := out\<rparr>) = unreachable_out sr"
  "req_at p (sr\<lparr>logfile := log, sock_out := out\<rparr>) = req_at p sr"
  by (simp_all add: answerable_def unreachable_out_def req_at_def fun_eq_iff cong: option.case_cong)

lemma unreachable_loop_answerable:
  "list_all (answerable sr) ps \<Longrightarrow> req_at p sr = Inr r \<Longrightarrow>
   \<exists>log. unreachable_loop rec env p sr ps =
     Inr (sr\<lparr>logfile := log, sock_out := sock_out sr @ concat (map (unreachable_out sr) ps)\<rparr>)"
proof (induction ps arbitrary: sr)
  case Nil
  then show ?case by (intro exI [of _ "logfile sr"]) simp
next
  case (Cons pk ps)
  obtain log where h: "host_unreachable rec env sr pk =
      Inr (sr\<lparr>logfile := log, sock_out := sock_out sr @ unreachable_out sr pk\<rparr>)"
    using host_unreachable_answerable [of sr pk rec env] Cons.prems(1) by auto
  let ?sr = "sr\<lparr>logfile := log, sock_out := sock_out sr @ unreachable_out sr pk\<rparr>"
  obtain log' where "unreachable_loop rec env p ?sr ps =
      Inr (?sr\<lparr>logfile := log', sock_out := sock_out ?sr @ concat (map (unreachable_out ?sr) ps)\<rparr>)"
    using Cons.IH [of ?sr] Cons.prems by auto
  then show ?case
    using Cons.prems(2) by (intro exI [of _ log']) (simp add: h)
qed

lemma handle_gives_up:
  assumes "req_at p sr = Inr r" and "exhausted env r" and "list_all (answerable sr) (rq_packets r)"
  shows "\<exists>log. sr_arpcache_handle_arpreq (Suc fuel) env sr p =
    Inr (sr\<lparr>cache := sr_arpreq_destroy (cache sr) (Some p), logfile := log,
      sock_out := sock_out sr @ concat (map (unreachable_out sr) (rq_packets r))\<rparr>)"
proof -
  obtain log where "unreachable_loop (sr_arpcache_handle_arpreq fuel env) env p sr (rq_packets r) =
      Inr (sr\<lparr>logfile := log, sock_out := sock_out sr @ concat (map (unreachable_out sr) (rq_packets r))\<rparr>)"
    using unreachable_loop_answerable [OF assms(3,1)] by blast
  then show ?thesis
    using assms(1,2) by (intro exI [of _ log]) (simp add: exhausted_def)
qed

section \<open>A request that is never given up\<close>

text \<open>
  The packets waiting for one of the router's own addresses include an error message from that very
  address. Giving up on the request sends an error about this message to its source, which queues it
  on the same request and gives up on it again, before the request is destroyed.
\<close>

lemma handle_diverges:
  assumes "cache_inv (cache sr)" and "req_at p sr = Inr r" and "exhausted env r"
    and "sr_findLPMentry (routing_table sr) (rq_ip r) = Some e"
    and "sr_get_interface sr (list_of (rt_interface e)) = Some i" and "if_ip i = rq_ip r"
    and "sr_arpcache_lookup (cache sr) (rq_ip r) = None"
    and "rq_packets r = pk # rest" and "42 \<le> length (pk_buf pk)" and "pk_src pk = rq_ip r"
  shows "sr_arpcache_handle_arpreq fuel env sr p = Inl Out_of_fuel"
  using assms
proof (induction fuel arbitrary: sr r pk rest)
  case (Suc fuel)
  note inv = Suc.prems(1)
  have r: "r \<in> set (requests (cache sr))" "rq_id r = p"
    using req_at_mem [OF Suc.prems(2)] by auto
  have f: "find_req (rq_ip r) (requests (cache sr)) = Some r"
    using find_req_mem [OF cache_invD(2) [OF inv] r(1)] .
  let ?b = "unreachable_frame (unset_mac env 70) i (pk_buf pk)"
  let ?n = "new_pkt ?b 70 (list_of (rt_interface e))"
  let ?c = "(cache sr)\<lparr>requests := upd_req p (\<lambda>r. r\<lparr>rq_packets := ?n # rq_packets r\<rparr>) (requests (cache sr))\<rparr>"
  let ?sr = "sr\<lparr>cache := ?c\<rparr>" and ?r = "r\<lparr>rq_packets := ?n # rq_packets r\<rparr>"
  have q: "sr_arpcache_queuereq (cache sr) (rq_ip r) (Some ?b) 70 (Some (list_of (rt_interface e))) = Inr (p, ?c)"
    using f r(2) by (simp add: sr_arpcache_queuereq_def queuereq_find_def)
  have inv': "cache_inv ?c"
    by (rule queuereq_spec [OF inv, of 70 ?b "rq_ip r" "list_of (rt_interface e)"]) (use q in auto)
  have n: "42 \<le> length (pk_buf ?n)" "pk_src ?n = rq_ip r"
    using Suc.prems(6) by (simp_all add: new_pkt_def pk_src_def)
  have "?r \<in> set (requests ?c)" using r by (auto simp: set_upd_req)
  then have "req_at p ?sr = Inr ?r"
    using req_at_id [of ?sr ?r] inv' r(2) by simp
  then have "sr_arpcache_handle_arpreq fuel env ?sr p = Inl Out_of_fuel"
    using Suc.prems(3-7) inv' n
    by (intro Suc.IH [of ?sr ?r ?n "rq_packets r"]) (simp_all add: exhausted_def sr_arpcache_lookup_def)
  then have "host_unreachable (sr_arpcache_handle_arpreq fuel env) env sr pk = Inl Out_of_fuel"
    using Suc.prems(4-10) q by (simp add: host_unreachable_eq pk_src_def)
  then show ?case
    using Suc.prems(2,3,8) by (simp add: exhausted_def)
qed simp

end
