(* ===== verification/Inet.thy ===== *)
theory Inet
  imports Prelude
begin

text \<open>
  The conversions between dotted addresses and 32-bit addresses in network byte order that the
  router takes from the C library: \<^verbatim>\<open>inet_aton\<close>, \<^verbatim>\<open>inet_addr\<close> and \<^verbatim>\<open>inet_ntoa\<close>, and reading lines of a file. \<^verbatim>\<open>inet_aton\<close> accepts one to
  four numbers, each decimal, octal or hexadecimal as in C, separated by dots; all but the last
  are one byte and the last fills the remaining bytes; white space may follow.
\<close>

section \<open>Reading a number\<close>

definition digit_of :: "nat \<Rightarrow> byte \<Rightarrow> nat option" where
  "digit_of base c =
     (let v = (if 48 \<le> c \<and> c \<le> 57 then unat c - 48
               else if 97 \<le> c \<and> c \<le> 122 then unat c - 87
               else if 65 \<le> c \<and> c \<le> 90 then unat c - 55 else base)
      in if v < base then Some v else None)"

fun strtoul_digits :: "nat \<Rightarrow> nat \<Rightarrow> byte list \<Rightarrow> nat \<times> byte list" where
  "strtoul_digits base acc [] = (acc, [])"
| "strtoul_digits base acc (c # cs) =
     (case digit_of base c of
        None \<Rightarrow> (acc, c # cs)
      | Some d \<Rightarrow> strtoul_digits base (acc * base + d) cs)"

text \<open>\<^verbatim>\<open>strtoul(s, &end, 0)\<close> on a string that starts with a digit.\<close>

definition strtoul :: "byte list \<Rightarrow> nat \<times> byte list" where
  "strtoul s =
     (if s \<noteq> [] \<and> hd s = 48 then
        if 3 \<le> length s \<and> (s ! 1 = 120 \<or> s ! 1 = 88) \<and> digit_of 16 (s ! 2) \<noteq> None
        then strtoul_digits 16 0 (drop 2 s) else strtoul_digits 8 0 s
      else strtoul_digits 10 0 s)"

section \<open>Dotted addresses\<close>

definition is_digit :: "byte \<Rightarrow> bool" where
  "is_digit c \<longleftrightarrow> 48 \<le> c \<and> c \<le> 57"

definition is_space :: "byte \<Rightarrow> bool" where
  "is_space c \<longleftrightarrow> c = 32 \<or> 9 \<le> c \<and> c \<le> 13"

text \<open>
  The loop over the parts: \<open>k\<close> dots may still come, \<open>pp\<close> are the bytes of the parts before. The result
  is these bytes, the last number and the rest of the string.
\<close>

fun aton_loop :: "nat \<Rightarrow> byte list \<Rightarrow> byte list \<Rightarrow> (byte list \<times> nat \<times> byte list) option" where
  "aton_loop k pp s =
     (if s = [] \<or> \<not> is_digit (hd s) then None
      else
        let (val, rest) = strtoul s in
        if val > 0xffffffff then None
        else if rest \<noteq> [] \<and> hd rest = 46 then
          (case k of
             0 \<Rightarrow> None
           | Suc k' \<Rightarrow> if val > 0xff then None else aton_loop k' (pp @ [of_nat val]) (tl rest))
        else Some (pp, val, rest))"

declare aton_loop.simps [simp del]

definition inet_aton :: "byte list \<Rightarrow> u32 option" where
  "inet_aton cp =
     (case aton_loop 3 [] (cstr cp) of
        None \<Rightarrow> None
      | Some (pp, val, rest) \<Rightarrow>
          if rest \<noteq> [] \<and> \<not> is_space (hd rest) then None
          else if val \<ge> 2 ^ (8 * (4 - length pp)) then None
          else Some (u32_at 0 (pp @ replicate (4 - length pp) 0) OR htonl (of_nat val)))"

definition inet_addr :: "byte list \<Rightarrow> u32" where
  "inet_addr cp = (case inet_aton cp of None \<Rightarrow> 0xffffffff | Some a \<Rightarrow> a)"

text \<open>\<^verbatim>\<open>%d\<close> of a byte.\<close>

definition dig :: "nat \<Rightarrow> byte" where
  "dig d = of_nat (48 + d)"

definition dec :: "byte \<Rightarrow> byte list" where
  "dec b =
     (let n = unat b in
      if n < 10 then [dig n] else if n < 100 then [dig (n div 10), dig (n mod 10)]
      else [dig (n div 100), dig (n div 10 mod 10), dig (n mod 10)])"

definition inet_ntoa :: "u32 \<Rightarrow> byte list" where
  "inet_ntoa a = (let bs = st32 a in
     dec (bs ! 0) @ [46] @ dec (bs ! 1) @ [46] @ dec (bs ! 2) @ [46] @ dec (bs ! 3))"

section \<open>Files\<close>

text \<open>\<^verbatim>\<open>fgets(s, n, fp)\<close> on what is left of a file: up to \<open>n - 1\<close> bytes, not past the first newline.\<close>

definition fgets :: "nat \<Rightarrow> byte list \<Rightarrow> byte list" where
  "fgets n f = (let l = takeWhile (\<lambda>b. b \<noteq> 10) f in take (n - 1) (if length l < length f then l @ [10] else l))"

section \<open>Printing and reading back\<close>

lemma unat_dig: "d < 10 \<Longrightarrow> unat (dig d) = 48 + d"
  by (simp add: dig_def unat_of_nat take_bit_nat_eq_self del: of_nat_add of_nat_numeral)

lemma dig_simps [simp]:
  assumes "d < 10"
  shows "digit_of 10 (dig d) = Some d" "is_digit (dig d)" "dig d = 48 \<longleftrightarrow> d = 0" "dig d \<noteq> 0" "dig d \<noteq> 46"
  using assms by (simp_all add: digit_of_def is_digit_def word_le_nat_alt word_unat_eq_iff unat_dig)

text \<open>A number ends where no digit follows.\<close>

definition no_digit :: "byte list \<Rightarrow> bool" where
  "no_digit rest \<longleftrightarrow> rest = [] \<or> hd rest = 46"

lemma strtoul_digits_stop: "no_digit rest \<Longrightarrow> base \<le> 16 \<Longrightarrow> strtoul_digits base acc rest = (acc, rest)"
  by (cases rest) (simp_all add: no_digit_def digit_of_def Let_def)

lemma dec_cases:
  obtains "dec b = [dig (unat b)]" "unat b < 10"
  | x y where "dec b = [dig x, dig y]" "0 < x" "x < 10" "y < 10" "unat b = 10 * x + y"
  | x y z where "dec b = [dig x, dig y, dig z]" "0 < x" "x < 10" "y < 10" "z < 10"
      "unat b = 100 * x + 10 * y + z"
proof -
  let ?n = "unat b"
  consider "?n < 10" | "10 \<le> ?n" "?n < 100" | "100 \<le> ?n" by linarith
  then show thesis
  proof cases
    case 1
    then show thesis by (intro that(1)) (simp_all add: dec_def)
  next
    case 2
    then show thesis
      by (intro that(2) [of "?n div 10" "?n mod 10"]) (simp_all add: dec_def Let_def less_mult_imp_div_less)
  next
    case 3
    have "?n < 10 * 100" using unat_byte_less [of b] by linarith
    then have "?n div 100 < 10" by (rule less_mult_imp_div_less)
    moreover have "?n = 100 * (?n div 100) + 10 * (?n div 10 mod 10) + ?n mod 10"
    proof -
      have "?n div 100 = ?n div 10 div 10" using div_mult2_eq [of ?n 10 10] by simp
      then show ?thesis
        using mult_div_mod_eq [of 10 "?n div 10"] mult_div_mod_eq [of 10 ?n] by linarith
    qed
    ultimately show thesis
      using 3 by (intro that(3) [of "?n div 100" "?n div 10 mod 10" "?n mod 10"])
        (simp_all add: dec_def Let_def)
  qed
qed

lemma strtoul_dec:
  assumes "no_digit rest"
  shows "strtoul (dec b @ rest) = (unat b, rest)"
proof (cases b rule: dec_cases)
  case 1
  show ?thesis
  proof (cases "unat b = 0")
    case True
    then have "dec b = [48]" using 1 by (simp add: dig_def)
    then show ?thesis
      using assms strtoul_digits_stop [OF assms, of 8 0] True
      by (cases rest) (auto simp: strtoul_def digit_of_def no_digit_def)
  next
    case False
    with 1 show ?thesis by (simp add: strtoul_def strtoul_digits_stop [OF assms])
  qed
qed (simp_all add: strtoul_def strtoul_digits_stop [OF assms] algebra_simps)

lemma dec_props: "dec b \<noteq> []" "is_digit (hd (dec b))" "0 \<notin> set (dec b)"
  by (cases b rule: dec_cases; simp)+

lemma byte_bounds: "\<not> 255 < unat (b :: byte)" "\<not> 4294967295 < unat b"
  using unat_byte_less [of b] by linarith+

lemma aton_loop_dot:
  "aton_loop (Suc k) pp (dec b @ 46 # s) = aton_loop k (pp @ [b]) s"
  using strtoul_dec [of "46 # s" b] dec_props [of b]
  by (subst aton_loop.simps) (simp add: no_digit_def byte_bounds)

lemma aton_loop_end: "aton_loop k pp (dec b) = Some (pp, unat b, [])"
  using strtoul_dec [of "[]" b] dec_props [of b]
  by (subst aton_loop.simps) (simp add: no_digit_def byte_bounds)

lemma st32_ucast_byte: "st32 (ucast (b :: byte)) = [b, 0, 0, 0]"
  by (auto simp: st32_def bit_simps impossible_bit intro!: bit_word_eqI)

lemma last_byte: "u32_at 0 [x, y, z, 0] OR htonl (of_nat (unat b)) = u32_at 0 [x, y, z, b]"
proof -
  have "of_nat (unat b) = (ucast b :: u32)" by simp
  then have "htonl (of_nat (unat b)) = u32_at 0 [0, 0, 0, b]"
    by (simp only: bswap32_def st32_ucast_byte) simp
  then show ?thesis
    by (simp add: u32_at_def or.assoc)
qed

lemma cstr_no_zero: "0 \<notin> set s \<Longrightarrow> cstr s = s"
  by (auto simp: cstr_def takeWhile_eq_all_conv)

lemma inet_aton_ntoa: "inet_aton (inet_ntoa a) = Some a"
proof -
  obtain x y z b where a: "st32 a = [x, y, z, b]" by (simp add: st32_def)
  then have "cstr (inet_ntoa a) = dec x @ 46 # dec y @ 46 # dec z @ 46 # dec b"
    using dec_props(3) by (subst cstr_no_zero) (simp_all add: inet_ntoa_def)
  then have "aton_loop 3 [] (cstr (inet_ntoa a)) = Some ([x, y, z], unat b, [])"
    by (simp add: numeral_3_eq_3 aton_loop_dot aton_loop_end)
  moreover have "u32_at 0 [x, y, z, b] = a"
    using u32_at_st32(2) [of a] a by simp
  ultimately show ?thesis
    using last_byte [of x y z b] by (simp add: inet_aton_def linorder_not_le)
qed

text \<open>Only the string counts, and a printed address is short and holds no white space.\<close>

lemma inet_aton_cstr: "cstr s = cstr t \<Longrightarrow> inet_aton s = inet_aton t"
  by (simp add: inet_aton_def)

lemma is_space_dig: "d < 10 \<Longrightarrow> \<not> is_space (dig d)"
  by (auto simp: is_space_def word_le_nat_alt word_unat_eq_iff unat_dig)

lemma dec_text: "\<forall>x \<in> set (dec b). \<not> is_space x \<and> x \<noteq> 0" "length (dec b) \<le> 3"
  by (cases b rule: dec_cases; simp add: is_space_dig)+

lemma inet_ntoa_text: "\<forall>x \<in> set (inet_ntoa a). \<not> is_space x \<and> x \<noteq> 0" "inet_ntoa a \<noteq> []" "length (inet_ntoa a) \<le> 15"
proof -
  show "\<forall>x \<in> set (inet_ntoa a). \<not> is_space x \<and> x \<noteq> 0"
    using dec_text(1) by (auto simp: inet_ntoa_def Let_def is_space_def)
  show "inet_ntoa a \<noteq> []" by (simp add: inet_ntoa_def Let_def)
  show "length (inet_ntoa a) \<le> 15"
    using dec_text(2) [of "st32 a ! 0"] dec_text(2) [of "st32 a ! 1"] dec_text(2) [of "st32 a ! 2"] dec_text(2) [of "st32 a ! 3"]
    by (simp add: inet_ntoa_def Let_def)
qed

end
