(* ===== verification/Router.thy ===== *)
theory Router
  imports Giving_up Inet
begin

text \<open>
  The packet handler \<^verbatim>\<open>sr_handlepacket\<close> of \<^verbatim>\<open>src/sr_router.c\<close>, with one definition for each of its branches:
  echo replies, port unreachable, time exceeded, forwarding, net unreachable, answering and
  learning from ARP. The packet is the memory behind the pointer; \<open>len\<close> is the argument. The handler works
  in place, so each assignment to a header field gives the next version of the packet. A read outside
  the packet is the fault \<open>Oob_access\<close>. What \<^verbatim>\<open>ip_black_list\<close> prints is the second component of its result.

  Four branches end in the same lines: look up the next hop, then send or queue. They are \<open>transmit\<close>.
\<close>

section \<open>The code\<close>

definition ip_black_list :: "sr_ip_hdr \<Rightarrow> int \<times> byte list" where
  "ip_black_list iph =
     (let mask_addr = inet_addr (text_bytes ''255.255.255.0'');
          block_addr = inet_addr (text_bytes ''10.0.2.0'') AND mask_addr in
      if (ip_src iph AND mask_addr) = block_addr
      then (1, text_bytes ''[IP blocked] : '' @ inet_ntoa (ip_src iph) @ [10])
      else if (ip_dst iph AND mask_addr) = block_addr
      then (1, text_bytes ''[IP blocked] : '' @ inet_ntoa (ip_dst iph) @ [10])
      else (0, []))"

text \<open>Look up the hardware address of the next hop; send, or queue the packet and ask for it.\<close>

definition transmit ::
  "nat \<Rightarrow> env \<Rightarrow> sr_instance \<Rightarrow> u32 \<Rightarrow> byte list \<Rightarrow> u32 \<Rightarrow> byte list \<Rightarrow> sr_instance res" where
  "transmit fuel env sr ip buf len iface =
     (case sr_arpcache_lookup (cache sr) ip of
        Some arpentry \<Rightarrow>
          bnd (sr_send_packet env sr (mod_eth 0 (\<lambda>h. h\<lparr>ether_dhost := ae_mac arpentry\<rparr>) buf) len iface)
            (\<lambda>(_, sr1). Inr sr1)
      | None \<Rightarrow>
          bnd (sr_arpcache_queuereq (cache sr) ip (Some buf) len (Some iface))
            (\<lambda>(arpreq, c). sr_arpcache_handle_arpreq fuel env (sr\<lparr>cache := c\<rparr>) arpreq))"

text \<open>ICMP messages for the router itself: an echo request is turned into its reply.\<close>

definition echo_reply :: "nat \<Rightarrow> env \<Rightarrow> sr_instance \<Rightarrow> byte list \<Rightarrow> u32 \<Rightarrow> sr_instance res" where
  "echo_reply fuel env sr packet len =
     (let n = nat (sint (len - 34));
          checksum = icmp_sum (icmp_at 34 packet);
          packet = mod_icmp 34 (\<lambda>h. h\<lparr>icmp_sum := 0\<rparr>) packet in
      bnd (guard Oob_access (34 + n \<le> length packet)) (\<lambda>_.
      if checksum \<noteq> cksum (seg 34 n packet) then Inr sr
      else
        let packet = mod_icmp 34 (\<lambda>h. h\<lparr>icmp_sum := checksum\<rparr>) packet;
            ipaddr = ip_src (ip_at 14 packet);
            packet = mod_ip 14 (\<lambda>h. h\<lparr>ip_ttl := INIT_TTL, ip_src := ip_dst h, ip_dst := ipaddr, ip_sum := 0\<rparr>) packet;
            packet = mod_ip 14 (\<lambda>h. h\<lparr>ip_sum := cksum (seg 14 20 packet)\<rparr>) packet;
            packet = mod_icmp 34 (\<lambda>h. h\<lparr>icmp_type := 0, icmp_sum := 0\<rparr>) packet;
            packet = mod_icmp 34 (\<lambda>h. h\<lparr>icmp_sum := cksum (seg 34 n packet)\<rparr>) packet in
        (case sr_findLPMentry (routing_table sr) (ip_dst (ip_at 14 packet)) of
           None \<Rightarrow> Inr sr
         | Some rtentry \<Rightarrow>
             bnd (deref (sr_get_interface sr (list_of (rt_interface rtentry)))) (\<lambda>ifc.
             let packet = mod_eth 0 (\<lambda>h. h\<lparr>ether_shost := if_addr ifc\<rparr>) packet in
             transmit fuel env sr ipaddr packet len (list_of (rt_interface rtentry))))))"

text \<open>The error messages: a fresh buffer with an Ethernet, an IP and an ICMP header.\<close>

definition icmp_t3_buf :: "env \<Rightarrow> sr_if \<Rightarrow> byte list \<Rightarrow> byte \<Rightarrow> byte list" where
  "icmp_t3_buf env ifc packet code =
     (let i_hdr0 = ip_at 14 packet;
          buf = malloc (junk env) 70;
          buf = mod_eth 0 (\<lambda>h. h\<lparr>ether_shost := if_addr ifc, ether_type := htons ethertype_ip\<rparr>) buf;
          buf = mod_ip 14 (\<lambda>h. h\<lparr>ip_hl := 5, ip_v := 4, ip_tos := 0, ip_len := htons 56,
            ip_id := ip_id i_hdr0, ip_off := htons IP_DF, ip_ttl := INIT_TTL, ip_p := ip_protocol_icmp,
            ip_src := if_ip ifc, ip_dst := ip_src i_hdr0, ip_sum := 0\<rparr>) buf;
          buf = mod_ip 14 (\<lambda>h. h\<lparr>ip_sum := cksum (seg 14 20 buf)\<rparr>) buf;
          buf = mod_icmp_t3 34 (\<lambda>h. h\<lparr>icmp_type := 3, icmp_code := code, t3_unused := 0, t3_next_mtu := 0,
            t3_data := arr_at 14 packet, icmp_sum := 0\<rparr>) buf
      in mod_icmp_t3 34 (\<lambda>h. h\<lparr>icmp_sum := cksum (seg 34 36 buf)\<rparr>) buf)"

definition icmp_t11_buf :: "env \<Rightarrow> sr_if \<Rightarrow> byte list \<Rightarrow> byte list" where
  "icmp_t11_buf env ifc packet =
     (let i_hdr0 = ip_at 14 packet;
          buf = malloc (junk env) 70;
          buf = mod_eth 0 (\<lambda>h. h\<lparr>ether_shost := if_addr ifc, ether_type := htons ethertype_ip\<rparr>) buf;
          buf = mod_ip 14 (\<lambda>h. h\<lparr>ip_hl := 5, ip_v := 4, ip_tos := 0, ip_len := htons 56,
            ip_id := ip_id i_hdr0, ip_off := htons IP_DF, ip_ttl := INIT_TTL, ip_p := ip_protocol_icmp,
            ip_src := if_ip ifc, ip_dst := ip_src i_hdr0, ip_sum := 0\<rparr>) buf;
          buf = mod_ip 14 (\<lambda>h. h\<lparr>ip_sum := cksum (seg 14 20 buf)\<rparr>) buf;
          buf = mod_icmp_t11 34 (\<lambda>h. h\<lparr>icmp_type := 11, icmp_code := 0, t11_unused := 0,
            t11_data := arr_at 14 packet, icmp_sum := 0\<rparr>) buf
      in mod_icmp_t11 34 (\<lambda>h. h\<lparr>icmp_sum := cksum (seg 34 36 buf)\<rparr>) buf)"

definition port_unreachable ::
  "nat \<Rightarrow> env \<Rightarrow> sr_instance \<Rightarrow> byte list \<Rightarrow> u32 \<Rightarrow> byte list \<Rightarrow> sr_instance res" where
  "port_unreachable fuel env sr packet len_r interface =
     (if unat len_r + 20 < 28 then Inr sr
      else
        bnd (deref (sr_get_interface sr interface)) (\<lambda>ifc.
        bnd (guard Oob_access (42 \<le> length packet)) (\<lambda>_.
        let new_pck = icmp_t3_buf env ifc packet 3 in
        transmit fuel env sr (ip_dst (ip_at 14 new_pck)) new_pck 70 interface)))"

definition time_exceeded :: "nat \<Rightarrow> env \<Rightarrow> sr_instance \<Rightarrow> byte list \<Rightarrow> byte list \<Rightarrow> sr_instance res" where
  "time_exceeded fuel env sr packet interface =
     bnd (deref (sr_get_interface sr interface)) (\<lambda>ifc.
     bnd (guard Oob_access (42 \<le> length packet)) (\<lambda>_.
     let new_pck = icmp_t11_buf env ifc packet in
     transmit fuel env sr (ip_dst (ip_at 14 new_pck)) new_pck 70 interface))"

definition net_unreachable :: "nat \<Rightarrow> env \<Rightarrow> sr_instance \<Rightarrow> byte list \<Rightarrow> byte list \<Rightarrow> sr_instance res" where
  "net_unreachable fuel env sr packet interface =
     bnd (deref (sr_get_interface sr interface)) (\<lambda>ifc.
     bnd (guard Oob_access (42 \<le> length packet)) (\<lambda>_.
     let new_pck = icmp_t3_buf env ifc packet 0 in
     transmit fuel env sr (ip_dst (ip_at 14 new_pck)) new_pck 70 interface))"

definition forward_packet :: "nat \<Rightarrow> env \<Rightarrow> sr_instance \<Rightarrow> byte list \<Rightarrow> u32 \<Rightarrow> sr_rt \<Rightarrow> sr_instance res" where
  "forward_packet fuel env sr packet len rtentry =
     bnd (deref (sr_get_interface sr (list_of (rt_interface rtentry)))) (\<lambda>ifc.
     let packet = mod_ip 14 (\<lambda>h. h\<lparr>ip_ttl := ip_ttl h - 1, ip_sum := 0\<rparr>) packet;
         packet = mod_ip 14 (\<lambda>h. h\<lparr>ip_sum := cksum (seg 14 20 packet)\<rparr>) packet;
         packet = mod_eth 0 (\<lambda>h. h\<lparr>ether_shost := if_addr ifc\<rparr>) packet in
     transmit fuel env sr (ip_dst (ip_at 14 packet)) packet len (list_of (rt_interface rtentry)))"

text \<open>A packet for the router itself, and one for elsewhere.\<close>

definition ip_local ::
  "nat \<Rightarrow> env \<Rightarrow> sr_instance \<Rightarrow> byte list \<Rightarrow> u32 \<Rightarrow> u32 \<Rightarrow> byte list \<Rightarrow> sr_instance res" where
  "ip_local fuel env sr packet len len_r interface =
     (let i_hdr0 = ip_at 14 packet in
      if ip_p i_hdr0 = ip_protocol_icmp then
        if unat len_r < 4 then Inr sr
        else
          bnd (guard Oob_access (38 \<le> length packet)) (\<lambda>_.
          if icmp_type (icmp_at 34 packet) = 8 then echo_reply fuel env sr packet len else Inr sr)
      else if ip_p i_hdr0 = ip_protocol_tcp \<or> ip_p i_hdr0 = ip_protocol_udp
      then port_unreachable fuel env sr packet len_r interface
      else Inr sr)"

definition ip_forward :: "nat \<Rightarrow> env \<Rightarrow> sr_instance \<Rightarrow> byte list \<Rightarrow> u32 \<Rightarrow> byte list \<Rightarrow> sr_instance res" where
  "ip_forward fuel env sr packet len interface =
     (let i_hdr0 = ip_at 14 packet in
      case sr_findLPMentry (routing_table sr) (ip_dst i_hdr0) of
        Some rtentry \<Rightarrow>
          if ip_ttl i_hdr0 = 1 then time_exceeded fuel env sr packet interface
          else forward_packet fuel env sr packet len rtentry
      | None \<Rightarrow> net_unreachable fuel env sr packet interface)"

text \<open>An IP packet: validation, the black list, then delivery to the router or forwarding.\<close>

definition handle_ip ::
  "nat \<Rightarrow> env \<Rightarrow> sr_instance \<Rightarrow> byte list \<Rightarrow> u32 \<Rightarrow> u32 \<Rightarrow> byte list \<Rightarrow> sr_instance res" where
  "handle_ip fuel env sr packet len len_r interface =
     (if unat len_r < 20 then Inr sr
      else
        bnd (guard Oob_access (34 \<le> length packet)) (\<lambda>_.
        let len_r = len_r - 20;
            checksum = ip_sum (ip_at 14 packet);
            packet0 = mod_ip 14 (\<lambda>h. h\<lparr>ip_sum := 0\<rparr>) packet in
        if ip_v (ip_at 14 packet) \<noteq> 4 then Inr sr
        else if checksum \<noteq> cksum (seg 14 20 packet0) then Inr sr
        else
          let packet = mod_ip 14 (\<lambda>h. h\<lparr>ip_sum := checksum\<rparr>) packet0;
              i_hdr0 = ip_at 14 packet;
              ifc = find (\<lambda>i. ip_dst i_hdr0 = if_ip i) (if_list sr) in
          if fst (ip_black_list i_hdr0) \<noteq> 0 then Inr sr
          else if ifc \<noteq> None then ip_local fuel env sr packet len len_r interface
          else ip_forward fuel env sr packet len interface))"

text \<open>ARP: a request for the receiving interface is answered in place.\<close>

definition arp_answer :: "env \<Rightarrow> sr_instance \<Rightarrow> byte list \<Rightarrow> u32 \<Rightarrow> sr_if \<Rightarrow> byte list \<Rightarrow> sr_instance res" where
  "arp_answer env sr packet len ifc interface =
     (let packet = mod_arp 14 (\<lambda>h. h\<lparr>ar_op := htons arp_op_reply, ar_tip := ar_sip h, ar_sip := if_ip ifc\<rparr>) packet;
          packet = mod_eth 0 (\<lambda>h. h\<lparr>ether_dhost := ether_shost h\<rparr>) packet;
          packet = mod_arp 14 (\<lambda>h. h\<lparr>ar_tha := ar_sha h\<rparr>) packet;
          packet = mod_eth 0 (\<lambda>h. h\<lparr>ether_shost := if_addr ifc\<rparr>) packet;
          packet = mod_arp 14 (\<lambda>h. h\<lparr>ar_sha := if_addr ifc\<rparr>) packet
      in bnd (sr_send_packet env sr packet len interface) (\<lambda>(_, sr1). Inr sr1))"

text \<open>A reply is learnt and the packets that waited for it are sent.\<close>

primrec flush_packets :: "env \<Rightarrow> mac \<Rightarrow> sr_instance \<Rightarrow> sr_packet list \<Rightarrow> sr_instance res" where
  "flush_packets env sha sr [] = Inr sr"
| "flush_packets env sha sr (en_pck # rest) =
     bnd (guard Oob_access (6 \<le> length (pk_buf en_pck))) (\<lambda>_.
     bnd (sr_send_packet env sr (blit 0 (list_of sha) (pk_buf en_pck)) (pk_len en_pck) (list_of (pk_iface en_pck)))
       (\<lambda>(_, sr1). flush_packets env sha sr1 rest))"

definition arp_learn_reply :: "env \<Rightarrow> sr_instance \<Rightarrow> byte list \<Rightarrow> sr_instance res" where
  "arp_learn_reply env sr packet =
     (let a_hdr0 = arp_at 14 packet;
          (arpreq, c) = sr_arpcache_insert (now env) (cache sr) (ar_sha a_hdr0) (ar_sip a_hdr0);
          sr1 = sr\<lparr>cache := c\<rparr> in
      (case arpreq of
         None \<Rightarrow> Inr sr1
       | Some req \<Rightarrow>
           bnd (flush_packets env (ar_sha a_hdr0) sr1 (rq_packets req)) (\<lambda>sr2.
           Inr (sr2\<lparr>cache := sr_arpreq_destroy (cache sr2) (Some (rq_id req))\<rparr>))))"

definition handle_arp :: "env \<Rightarrow> sr_instance \<Rightarrow> byte list \<Rightarrow> u32 \<Rightarrow> u32 \<Rightarrow> byte list \<Rightarrow> sr_instance res" where
  "handle_arp env sr packet len len_r interface =
     (if unat len_r < 28 then Inr sr
      else
        bnd (guard Oob_access (42 \<le> length packet)) (\<lambda>_.
        bnd (deref (sr_get_interface sr interface)) (\<lambda>ifc.
        let a_hdr0 = arp_at 14 packet in
        if ar_tip a_hdr0 = if_ip ifc then
          if ar_op a_hdr0 = htons arp_op_request then arp_answer env sr packet len ifc interface
          else if ar_op a_hdr0 = htons arp_op_reply then arp_learn_reply env sr packet
          else Inr sr
        else Inr sr)))"

definition sr_handlepacket ::
  "nat \<Rightarrow> env \<Rightarrow> sr_instance \<Rightarrow> byte list \<Rightarrow> u32 \<Rightarrow> byte list \<Rightarrow> sr_instance res" where
  "sr_handlepacket fuel env sr packet len interface =
     (if unat len < 14 then Inr sr
      else
        bnd (guard Oob_access (14 \<le> length packet)) (\<lambda>_.
        let len_r = len - 14; e_hdr0 = eth_at 0 packet in
        if ether_type e_hdr0 = htons ethertype_ip then handle_ip fuel env sr packet len len_r interface
        else if ether_type e_hdr0 = htons ethertype_arp then handle_arp env sr packet len len_r interface
        else Inr sr))"

text \<open>
  \<^verbatim>\<open>sr_init\<close>: the ARP cache is initialised. The rounds of the thread that is started here are part of the main loop of \<open>Startup\<close> and of
  the transition system of \<open>System\<close>.
\<close>

definition sr_init :: "sr_instance \<Rightarrow> sr_instance" where
  "sr_init sr = sr\<lparr>cache := sr_arpcache_init (cache sr)\<rparr>"

section \<open>The black list\<close>

text \<open>The blocked network: the first three bytes of the address are 10, 0 and 2.\<close>

definition blocked_net :: "u32 \<Rightarrow> bool" where
  "blocked_net a \<longleftrightarrow> take 3 (st32 a) = [10, 0, 2]"

lemma black_list_texts:
  "text_bytes ''255.255.255.0'' = inet_ntoa 0x00ffffff"
  "text_bytes ''10.0.2.0'' = inet_ntoa 0x0002000a"
  by (simp_all add: text_bytes_def inet_ntoa_def st32_def dec_def dig_def of_char_def)

lemma black_list_addrs:
  "inet_addr (text_bytes ''255.255.255.0'') = 0x00ffffff"
  "inet_addr (text_bytes ''10.0.2.0'') = 0x0002000a"
  by (simp_all add: black_list_texts inet_addr_def inet_aton_ntoa)

lemma st32_inject [simp]: "st32 a = st32 b \<longleftrightarrow> a = b"
  by (metis u32_at_st32(2))

lemma st32_mask: "st32 (a AND 0x00ffffff) = take 3 (st32 a) @ [0]"
proof -
  have m: "0x00ffffff = (mask 24 :: u32)" by (simp add: mask_eq_exp_minus_1)
  show ?thesis
    unfolding m by (auto simp: st32_def bit_simps intro!: bit_word_eqI)
qed

lemma masked_eq: "(a AND 0x00ffffff) = 0x0002000a \<longleftrightarrow> blocked_net a"
proof -
  have "(a AND 0x00ffffff) = 0x0002000a \<longleftrightarrow> st32 (a AND 0x00ffffff) = st32 0x0002000a" by simp
  also have "st32 0x0002000a = [10, 0, 2] @ [0]" by code_simp
  finally show ?thesis by (simp only: st32_mask blocked_net_def append_same_eq)
qed

lemma black_list_iff: "fst (ip_black_list h) \<noteq> 0 \<longleftrightarrow> blocked_net (ip_src h) \<or> blocked_net (ip_dst h)"
proof -
  have b: "(0x0002000a AND 0x00ffffff :: u32) = 0x0002000a" by code_simp
  show ?thesis by (simp add: ip_black_list_def black_list_addrs b masked_eq)
qed

text \<open>The printed line shows the blocked address, the source if both are blocked.\<close>

lemma black_list_eq:
  "ip_black_list h =
    (if blocked_net (ip_src h) then (1, text_bytes ''[IP blocked] : '' @ inet_ntoa (ip_src h) @ [10])
     else if blocked_net (ip_dst h) then (1, text_bytes ''[IP blocked] : '' @ inet_ntoa (ip_dst h) @ [10])
     else (0, []))"
proof -
  have b: "(0x0002000a AND 0x00ffffff :: u32) = 0x0002000a" by code_simp
  show ?thesis by (simp add: ip_black_list_def black_list_addrs b masked_eq)
qed

section \<open>The cases of the IP handler\<close>

definition ip_valid :: "sr_ip_hdr \<Rightarrow> bool" where
  "ip_valid h \<longleftrightarrow> ip_v h = 4 \<and> ip_sum h = cksum (wr_ip (h\<lparr>ip_sum := 0\<rparr>))"

definition own_addr :: "sr_instance \<Rightarrow> u32 \<Rightarrow> bool" where
  "own_addr sr ip \<longleftrightarrow> ip \<in> if_ip ` set (if_list sr)"

lemma restore_sum:
  "34 \<le> length p \<Longrightarrow>
   mod_ip 14 (\<lambda>h. h\<lparr>ip_sum := ip_sum (ip_at 14 p)\<rparr>) (mod_ip 14 (\<lambda>h. h\<lparr>ip_sum := 0\<rparr>) p) = p"
  using ip.put_at [of 14 p] by (simp add: ip.modify_modify) (simp add: modify_def)

lemma restore_icmp_sum:
  "38 \<le> length p \<Longrightarrow>
   mod_icmp 34 (\<lambda>h. h\<lparr>icmp_sum := icmp_sum (icmp_at 34 p)\<rparr>) (mod_icmp 34 (\<lambda>h. h\<lparr>icmp_sum := 0\<rparr>) p) = p"
  using icmp.put_at [of 34 p] by (simp add: icmp.modify_modify) (simp add: modify_def)

lemma find_own: "find (\<lambda>i. ip = if_ip i) (if_list sr) \<noteq> None \<longleftrightarrow> own_addr sr ip"
  by (auto simp: find_None_iff own_addr_def)

lemma handle_ip_eq:
  assumes "34 \<le> length packet" and "20 \<le> unat len_r" and h: "h = ip_at 14 packet"
  shows "handle_ip fuel env sr packet len len_r interface =
    (if \<not> ip_valid h \<or> blocked_net (ip_src h) \<or> blocked_net (ip_dst h) then Inr sr
     else if own_addr sr (ip_dst h) then
       (if ip_p h = ip_protocol_icmp then
          if unat (len_r - 20) < 4 then Inr sr
          else
            bnd (guard Oob_access (38 \<le> length packet)) (\<lambda>_.
            if icmp_type (icmp_at 34 packet) = 8 then echo_reply fuel env sr packet len else Inr sr)
        else if ip_p h = ip_protocol_tcp \<or> ip_p h = ip_protocol_udp
        then port_unreachable fuel env sr packet (len_r - 20) interface
        else Inr sr)
     else
       (case sr_findLPMentry (routing_table sr) (ip_dst h) of
          Some rtentry \<Rightarrow>
            if ip_ttl h = 1 then time_exceeded fuel env sr packet interface
            else forward_packet fuel env sr packet len rtentry
        | None \<Rightarrow> net_unreachable fuel env sr packet interface))"
proof -
  note own = find_own [of "ip_dst h" sr]
  have r: "mod_ip 14 (\<lambda>h'. h'\<lparr>ip_sum := ip_sum h\<rparr>) (mod_ip 14 (\<lambda>h. h\<lparr>ip_sum := 0\<rparr>) packet) = packet"
    using restore_sum [OF assms(1)] h by simp
  have z: "seg 14 20 (mod_ip 14 (\<lambda>h. h\<lparr>ip_sum := 0\<rparr>) packet) = wr_ip (h\<lparr>ip_sum := 0\<rparr>)"
    using assms(1) h by (simp add: ip.seg_modify_same)
  have g: "34 \<le> length packet \<longleftrightarrow> True" "unat len_r < 20 \<longleftrightarrow> False" using assms(1,2) by simp_all
  show ?thesis
    unfolding handle_ip_def ip_local_def ip_forward_def Let_def h [symmetric] r black_list_iff z own g guard_True bnd_Inr ip_valid_def
    by simp
qed

section \<open>The frames the handler makes\<close>

lemma buf34_eqI:
  assumes "34 \<le> length b" "seg 0 14 b = e" "seg 14 20 b = i" "drop 34 b = t"
  shows "b = e @ i @ t"
proof -
  have "b = seg 0 34 b @ drop 34 b" by (simp add: seg_def)
  also have "seg 0 34 b = seg 0 14 b @ seg 14 20 b" by (simp add: seg_join)
  finally show ?thesis using assms by simp
qed

lemma drop_modify_ge:
  "off + length (wr (f (rd (seg off sz b)))) \<le> n \<Longrightarrow> n \<le> length b \<Longrightarrow>
   drop n (modify sz rd wr off f b) = drop n b"
  by (simp add: modify_def blit_def)

definition forward_frame :: "mac \<Rightarrow> mac \<Rightarrow> byte list \<Rightarrow> byte list" where
  "forward_frame dmac smac packet =
     wr_eth ((eth_at 0 packet)\<lparr>ether_dhost := dmac, ether_shost := smac\<rparr>) @
     wr_ip (ip_checksummed ((ip_at 14 packet)\<lparr>ip_ttl := ip_ttl (ip_at 14 packet) - 1\<rparr>)) @ drop 34 packet"

definition echo_frame :: "mac \<Rightarrow> mac \<Rightarrow> byte list \<Rightarrow> byte list" where
  "echo_frame dmac smac packet =
     (let h = ip_at 14 packet; c = (icmp_at 34 packet)\<lparr>icmp_type := 0, icmp_sum := 0\<rparr>; d = drop 38 packet in
      wr_eth ((eth_at 0 packet)\<lparr>ether_dhost := dmac, ether_shost := smac\<rparr>) @
      wr_ip (ip_checksummed (h\<lparr>ip_ttl := INIT_TTL, ip_src := ip_dst h, ip_dst := ip_src h\<rparr>)) @
      wr_icmp (c\<lparr>icmp_sum := cksum (wr_icmp c @ d)\<rparr>) @ d)"

definition arp_reply_frame :: "sr_if \<Rightarrow> byte list \<Rightarrow> byte list" where
  "arp_reply_frame ifc packet =
     (let a = arp_at 14 packet; e = eth_at 0 packet in
      wr_eth (e\<lparr>ether_dhost := ether_shost e, ether_shost := if_addr ifc\<rparr>) @
      wr_arp (a\<lparr>ar_op := htons arp_op_reply, ar_sha := if_addr ifc, ar_sip := if_ip ifc,
        ar_tha := ar_sha a, ar_tip := ar_sip a\<rparr>) @ drop 42 packet)"

lemma icmp_t3_buf_eq:
  "icmp_t3_buf env ifc packet code =
   icmp_t3_frame (unset_mac env 70) (if_addr ifc) (ip_id (ip_at 14 packet)) (if_ip ifc)
     (ip_src (ip_at 14 packet)) code (arr_at 14 packet)"
proof (cases "rd_ip (seg 14 20 (malloc (junk env) 70))"; cases "rd_icmp_t3 (seg 34 36 (malloc (junk env) 70))")
  fix a1 a2 a3 a4 a5 a6 a7 a8 a9 a10 a11 b1 b2 b3 b4 b5 b6
  assume h: "rd_ip (seg 14 20 (malloc (junk env) 70)) =
      \<lparr> ip_hl = a1, ip_v = a2, ip_tos = a3, ip_len = a4, ip_id = a5, ip_off = a6, ip_ttl = a7, ip_p = a8,
        ip_sum = a9, ip_src = a10, ip_dst = a11 \<rparr>"
    "rd_icmp_t3 (seg 34 36 (malloc (junk env) 70)) =
      \<lparr> icmp_type = b1, icmp_code = b2, icmp_sum = b3, t3_unused = b4, t3_next_mtu = b5, t3_data = b6 \<rparr>"
  show ?thesis
    unfolding icmp_t3_frame_def
    by (rule buf70_eqI)
      (simp_all add: icmp_t3_buf_def Let_def buf_simps icmp_ip_hdr_def ip_checksummed_def icmp_t3_msg_def h)
qed

lemma icmp_t11_buf_eq:
  "icmp_t11_buf env ifc packet =
   icmp_t11_frame (unset_mac env 70) (if_addr ifc) (ip_id (ip_at 14 packet)) (if_ip ifc)
     (ip_src (ip_at 14 packet)) (arr_at 14 packet)"
proof (cases "rd_ip (seg 14 20 (malloc (junk env) 70))"; cases "rd_icmp_t11 (seg 34 36 (malloc (junk env) 70))")
  fix a1 a2 a3 a4 a5 a6 a7 a8 a9 a10 a11 b1 b2 b3 b4 b5
  assume h: "rd_ip (seg 14 20 (malloc (junk env) 70)) =
      \<lparr> ip_hl = a1, ip_v = a2, ip_tos = a3, ip_len = a4, ip_id = a5, ip_off = a6, ip_ttl = a7, ip_p = a8,
        ip_sum = a9, ip_src = a10, ip_dst = a11 \<rparr>"
    "rd_icmp_t11 (seg 34 36 (malloc (junk env) 70)) =
      \<lparr> icmp_type = b1, icmp_code = b2, icmp_sum = b3, t11_unused = b4, t11_data = b5 \<rparr>"
  show ?thesis
    unfolding icmp_t11_frame_def
    by (rule buf70_eqI)
      (simp_all add: icmp_t11_buf_def Let_def buf_simps icmp_ip_hdr_def ip_checksummed_def icmp_t11_msg_def h)
qed

lemma forward_buf_eq:
  assumes "34 \<le> length packet"
  shows "(let packet = mod_ip 14 (\<lambda>h. h\<lparr>ip_ttl := ip_ttl h - 1, ip_sum := 0\<rparr>) packet;
      packet = mod_ip 14 (\<lambda>h. h\<lparr>ip_sum := cksum (seg 14 20 packet)\<rparr>) packet
      in mod_eth 0 (\<lambda>h. h\<lparr>ether_shost := smac\<rparr>) packet) =
    forward_frame (ether_dhost (eth_at 0 packet)) smac packet"
  unfolding forward_frame_def using assms
  by (intro buf34_eqI) (simp_all add: Let_def buf_simps ip_checksummed_def drop_modify_ge)

lemma seg_drop: "length p = k + n \<Longrightarrow> seg k n p = drop k p"
  by (simp add: seg_def)

lemma buf38_eqI:
  assumes "38 \<le> length b" "seg 0 14 b = e" "seg 14 20 b = i" "seg 34 4 b = c" "drop 38 b = t"
  shows "b = e @ i @ c @ t"
proof -
  have "b = seg 0 38 b @ drop 38 b" by (simp add: seg_def)
  also have "seg 0 38 b = seg 0 14 b @ seg 14 20 b @ seg 34 4 b" by (simp add: seg_join)
  finally show ?thesis using assms by simp
qed

lemma drop_34_split: "38 \<le> length b \<Longrightarrow> drop 34 b = seg 34 4 b @ drop 38 b"
  using append_take_drop_id [symmetric, of "drop 34 b" 4] by (simp add: seg_def)

lemma arp_reply_buf_eq:
  assumes "42 \<le> length packet"
  shows "(let packet = mod_arp 14 (\<lambda>h. h\<lparr>ar_op := htons arp_op_reply, ar_tip := ar_sip h, ar_sip := if_ip ifc\<rparr>) packet;
          packet = mod_eth 0 (\<lambda>h. h\<lparr>ether_dhost := ether_shost h\<rparr>) packet;
          packet = mod_arp 14 (\<lambda>h. h\<lparr>ar_tha := ar_sha h\<rparr>) packet;
          packet = mod_eth 0 (\<lambda>h. h\<lparr>ether_shost := if_addr ifc\<rparr>) packet
      in mod_arp 14 (\<lambda>h. h\<lparr>ar_sha := if_addr ifc\<rparr>) packet) = arp_reply_frame ifc packet"
    (is "?b = _")
proof -
  have "?b = seg 0 14 ?b @ seg 14 28 ?b @ drop 42 ?b"
    using assms by (simp add: seg_join flip: append_assoc) (simp add: seg_def)
  then show ?thesis
    using assms by (simp add: arp_reply_frame_def Let_def buf_simps drop_modify_ge)
qed

lemma echo_buf_eq:
  assumes "38 \<le> length packet" and n: "n = length packet - 34"
  shows "(let packet = mod_ip 14 (\<lambda>h. h\<lparr>ip_ttl := INIT_TTL, ip_src := ip_dst h,
            ip_dst := ip_src (ip_at 14 packet), ip_sum := 0\<rparr>) packet;
          packet = mod_ip 14 (\<lambda>h. h\<lparr>ip_sum := cksum (seg 14 20 packet)\<rparr>) packet;
          packet = mod_icmp 34 (\<lambda>h. h\<lparr>icmp_type := 0, icmp_sum := 0\<rparr>) packet;
          packet = mod_icmp 34 (\<lambda>h. h\<lparr>icmp_sum := cksum (seg 34 n packet)\<rparr>) packet
      in mod_eth 0 (\<lambda>h. h\<lparr>ether_shost := smac\<rparr>) packet) =
    echo_frame (ether_dhost (eth_at 0 packet)) smac packet"
proof -
  have s: "seg 34 n b = seg 34 4 b @ drop 38 b" if "length b = length packet" for b :: "byte list"
    using drop_34_split [of b] seg_drop [of b 34 n] that assms by simp
  show ?thesis
    unfolding echo_frame_def Let_def using assms(1)
    by (intro buf38_eqI) (simp_all add: s buf_simps ip_checksummed_def drop_modify_ge)
qed

lemma length_handler_frames [simp]:
  "34 \<le> length p \<Longrightarrow> length (forward_frame d s p) = length p"
  "38 \<le> length p \<Longrightarrow> length (echo_frame d s p) = length p"
  "42 \<le> length p \<Longrightarrow> length (arp_reply_frame i p) = length p"
  by (simp_all add: forward_frame_def echo_frame_def arp_reply_frame_def Let_def)

lemma eth_handler_frames [simp]:
  "rd_eth (seg 0 14 (forward_frame d s p)) = (eth_at 0 p)\<lparr>ether_dhost := d, ether_shost := s\<rparr>"
  "rd_eth (seg 0 14 (echo_frame d s p)) = (eth_at 0 p)\<lparr>ether_dhost := d, ether_shost := s\<rparr>"
  "ether_shost (rd_eth (seg 0 14 (arp_reply_frame i p))) = if_addr i"
  by (simp_all add: forward_frame_def echo_frame_def arp_reply_frame_def Let_def)

lemma ip_handler_frames [simp]:
  "rd_ip (seg 14 20 (forward_frame d s p)) =
     ip_checksummed ((ip_at 14 p)\<lparr>ip_ttl := ip_ttl (ip_at 14 p) - 1\<rparr>)"
  "ip_dst (rd_ip (seg 14 20 (echo_frame d s p))) = ip_src (ip_at 14 p)"
  by (simp_all add: forward_frame_def echo_frame_def Let_def ip_checksummed_def)

lemma set_dhost_handler [simp]:
  "mod_eth 0 (\<lambda>h. h\<lparr>ether_dhost := d'\<rparr>) (forward_frame d s p) = forward_frame d' s p"
  "mod_eth 0 (\<lambda>h. h\<lparr>ether_dhost := d'\<rparr>) (echo_frame d s p) = echo_frame d' s p"
  by (simp_all add: modify_def blit_def) (simp_all add: forward_frame_def echo_frame_def Let_def)

lemma ip_checksummed_sel [simp]:
  "ip_dst (ip_checksummed h) = ip_dst h" "ip_src (ip_checksummed h) = ip_src h" "ip_ttl (ip_checksummed h) = ip_ttl h"
  by (simp_all add: ip_checksummed_def)

section \<open>Sending towards a next hop\<close>

lemma transmit_hit:
  assumes "sr_arpcache_lookup (cache sr) ip = Some a" and "frame_ok buf len"
    and "sr_get_interface sr iface = Some i" and "ether_shost (eth_at 0 buf) = if_addr i"
  shows "\<exists>log. transmit fuel env sr ip buf len iface = Inr (sr\<lparr>logfile := log,
    sock_out := sock_out sr @ [vns_frame iface (mod_eth 0 (\<lambda>h. h\<lparr>ether_dhost := ae_mac a\<rparr>) buf)]\<rparr>)"
proof -
  let ?b = "mod_eth 0 (\<lambda>h. h\<lparr>ether_dhost := ae_mac a\<rparr>) buf"
  have len: "14 \<le> length buf" using assms(2) by (simp add: frame_ok_def)
  then have "frame_ok ?b len" "ether_shost (rd_eth (seg 0 14 ?b)) = if_addr i"
    using assms(2,4) by (simp_all add: frame_ok_def buf_simps)
  from send_ok_eq [OF this(1) assms(3) this(2), of env] obtain r log where
    "sr_send_packet env sr ?b len iface =
      Inr (r, sr\<lparr>logfile := log, sock_out := sock_out sr @ [vns_frame iface ?b]\<rparr>)" by blast
  then show ?thesis
    using assms(1) by (intro exI [of _ log]) (simp add: transmit_def)
qed

text \<open>
  Without a mapping the packet waits. The first packet for an address makes the router ask for it at
  once; later ones wait with it while the request is fresh.
\<close>

text \<open>The queue after \<^verbatim>\<open>sr_arpcache_queuereq\<close> when nothing waited for the address.\<close>

lemma queue_new:
  assumes inv: "cache_inv c" and "find_req ip (requests c) = None" and "l \<noteq> 0" "unat l \<le> length b"
  shows "sr_arpcache_queuereq c ip (Some b) l (Some i) =
    Inr (next_addr c, c\<lparr>requests := requests c @ [(new_req (next_addr c) ip)\<lparr>rq_packets := [new_pkt b l i]\<rparr>], next_addr := Suc (next_addr c)\<rparr>)"
proof -
  have "upd_req (next_addr c) f (requests c) = requests c" for f
    using cache_invD(4) [OF inv] by (fastforce simp: upd_req_def intro!: map_idI)
  then show ?thesis
    using assms(2-4) by (simp add: sr_arpcache_queuereq_def queuereq_find_def upd_req_def new_req_def)
qed

lemma transmit_first:
  assumes inv: "cache_inv (cache sr)" and "sr_arpcache_lookup (cache sr) ip = None" and "frame_ok buf len"
    and "pend (cache sr) ip = None" and "now env > 1"
    and "sr_findLPMentry (routing_table sr) ip = Some e"
    and "sr_get_interface sr (list_of (rt_interface e)) = Some i"
  shows "\<exists>log c. transmit (Suc fuel) env sr ip buf len iface = Inr (sr\<lparr>cache := c, logfile := log,
      sock_out := sock_out sr @
        [vns_frame (list_of (if_name i)) (arp_request_frame (if_addr i) (if_ip i) ip)]\<rparr>)
    \<and> entries c = entries (cache sr) \<and> cache_inv c
    \<and> pend c = (pend (cache sr))(ip \<mapsto> [new_pkt buf len iface])"
proof -
  have len: "len \<noteq> 0" "unat len \<le> length buf"
    using assms(3) by (auto simp: frame_ok_def)
  obtain p c r where q: "sr_arpcache_queuereq (cache sr) ip (Some buf) len (Some iface) = Inr (p, c)"
    and c: "cache_inv c" "entries c = entries (cache sr)"
    and r: "r \<in> set (requests c)" "rq_id r = p" "rq_ip r = ip"
      "pend (cache sr) ip = None \<longrightarrow> r = (new_req p ip)\<lparr>rq_packets := [new_pkt buf len iface]\<rparr>"
    and pend: "pend c = (pend (cache sr))(ip \<mapsto> new_pkt buf len iface #
        (case pend (cache sr) ip of None \<Rightarrow> [] | Some ps \<Rightarrow> ps))"
    by (rule queuereq_spec [OF inv len, of ip iface])
  let ?sr = "sr\<lparr>cache := c\<rparr>"
  have at: "req_at p ?sr = Inr r" using req_at_id [of ?sr r] c(1) r by simp
  have fresh: "rq_sent r = 0" "rq_times_sent r = 0"
    using r(4) assms(4) by (simp_all add: new_req_def)
  have h: "transmit (Suc fuel) env sr ip buf len iface = send_arp_request env ?sr r"
    using assms(2,5) q at fresh by (simp add: transmit_def)
  obtain log where s: "send_arp_request env ?sr r = Inr (?sr\<lparr>cache := mark_sent (now env) (rq_id r) (cache ?sr),
      logfile := log, sock_out := sock_out ?sr @
      [vns_frame (list_of (if_name i)) (arp_request_frame (if_addr i) (if_ip i) (rq_ip r))]\<rparr>)"
    using send_arp_request_eq [of ?sr r e i env] assms(6,7) r(3) by auto
  have "pend (mark_sent (now env) p c) = pend c"
    using find_req_upd [of "\<lambda>r. r\<lparr>rq_sent := now env, rq_times_sent := rq_times_sent r + 1\<rparr>" "requests c" r]
      cache_invD(2,3) [OF c(1)] find_req_mem [OF cache_invD(2) [OF c(1)] r(1)] r(1,2)
    by (auto simp: pend_def req_packets_def mark_sent_def fun_eq_iff)
  then show ?thesis
    using h s c pend assms(4) r(2,3) cache_inv_mark_sent [OF c(1), of "now env" p]
    by (intro exI [of _ log] exI [of _ "mark_sent (now env) p c"]) (simp add: mark_sent_def)
qed

lemma transmit_no_route:
  assumes inv: "cache_inv (cache sr)" and "sr_arpcache_lookup (cache sr) ip = None" and "frame_ok buf len"
    and "pend (cache sr) ip = None" and "now env > 1" and "sr_findLPMentry (routing_table sr) ip = None"
  shows "transmit (Suc fuel) env sr ip buf len iface = Inl Null_deref"
proof -
  have len: "len \<noteq> 0" "unat len \<le> length buf"
    using assms(3) by (auto simp: frame_ok_def)
  obtain p c r where q: "sr_arpcache_queuereq (cache sr) ip (Some buf) len (Some iface) = Inr (p, c)"
    and c: "cache_inv c" and r: "r \<in> set (requests c)" "rq_id r = p" "rq_ip r = ip"
      "pend (cache sr) ip = None \<longrightarrow> r = (new_req p ip)\<lparr>rq_packets := [new_pkt buf len iface]\<rparr>"
    by (rule queuereq_spec [OF inv len, of ip iface])
  let ?sr = "sr\<lparr>cache := c\<rparr>"
  have at: "req_at p ?sr = Inr r" using req_at_id [of ?sr r] c r by simp
  have "rq_sent r = 0" "rq_times_sent r = 0"
    using r(4) assms(4) by (simp_all add: new_req_def)
  then have "transmit (Suc fuel) env sr ip buf len iface = send_arp_request env ?sr r"
    using assms(2,5) q at by (simp add: transmit_def)
  also have "\<dots> = Inl Null_deref"
    using assms(6) r(3) by (intro send_arp_request_no_route) simp
  finally show ?thesis .
qed

lemma transmit_waiting:
  assumes inv: "cache_inv (cache sr)" and "sr_arpcache_lookup (cache sr) ip = None" and "frame_ok buf len"
    and f: "find_req ip (requests (cache sr)) = Some r" and "now env - rq_sent r \<le> 1"
  shows "\<exists>c. transmit (Suc fuel) env sr ip buf len iface = Inr (sr\<lparr>cache := c\<rparr>)
    \<and> entries c = entries (cache sr) \<and> cache_inv c
    \<and> pend c = (pend (cache sr))(ip \<mapsto> new_pkt buf len iface # rq_packets r)"
proof -
  have len: "len \<noteq> 0" "unat len \<le> length buf"
    using assms(3) by (auto simp: frame_ok_def)
  let ?c = "(cache sr)\<lparr>requests := upd_req (rq_id r) (\<lambda>r. r\<lparr>rq_packets := new_pkt buf len iface # rq_packets r\<rparr>)
    (requests (cache sr))\<rparr>"
  let ?r = "r\<lparr>rq_packets := new_pkt buf len iface # rq_packets r\<rparr>"
  have q: "sr_arpcache_queuereq (cache sr) ip (Some buf) len (Some iface) = Inr (rq_id r, ?c)"
    using f len by (simp add: sr_arpcache_queuereq_def queuereq_find_def)
  have pr: "pend (cache sr) ip = Some (rq_packets r)" using f by (simp add: pend_def req_packets_def)
  have c: "cache_inv ?c" "pend ?c = (pend (cache sr))(ip \<mapsto> new_pkt buf len iface # rq_packets r)"
    by (rule queuereq_spec [OF inv len, of ip iface]; use q pr in auto)+
  have "?r \<in> set (requests ?c)" using find_req_Some [OF f] by (auto simp: set_upd_req)
  then have "req_at (rq_id r) (sr\<lparr>cache := ?c\<rparr>) = Inr ?r"
    using req_at_id [of "sr\<lparr>cache := ?c\<rparr>" ?r] c(1) by simp
  then have "transmit (Suc fuel) env sr ip buf len iface = Inr (sr\<lparr>cache := ?c\<rparr>)"
    using assms(2,5) q by (simp add: transmit_def)
  then show ?thesis using c by (intro exI [of _ ?c]) simp
qed

section \<open>Each branch in terms of its frame\<close>

lemma forward_packet_eq:
  assumes "34 \<le> length packet"
  shows "forward_packet fuel env sr packet len rt =
    (case sr_get_interface sr (list_of (rt_interface rt)) of
       None \<Rightarrow> Inl Null_deref
     | Some ifc \<Rightarrow> transmit fuel env sr (ip_dst (ip_at 14 packet))
         (forward_frame (ether_dhost (eth_at 0 packet)) (if_addr ifc) packet) len (list_of (rt_interface rt)))"
  using assms forward_buf_eq [OF assms, unfolded Let_def]
  by (simp add: forward_packet_def Let_def split: option.splits)

definition icmp_valid :: "byte list \<Rightarrow> bool" where
  "icmp_valid packet \<longleftrightarrow> icmp_sum (icmp_at 34 packet) =
     cksum (wr_icmp ((icmp_at 34 packet)\<lparr>icmp_sum := 0\<rparr>) @ drop 38 packet)"

lemma echo_reply_eq:
  assumes l: "38 \<le> length packet" "length packet = unat len" "unat len < 2 ^ 31"
  shows "echo_reply fuel env sr packet len =
    (if \<not> icmp_valid packet then Inr sr
     else
       (case sr_findLPMentry (routing_table sr) (ip_src (ip_at 14 packet)) of
          None \<Rightarrow> Inr sr
        | Some rt \<Rightarrow>
            (case sr_get_interface sr (list_of (rt_interface rt)) of
               None \<Rightarrow> Inl Null_deref
             | Some ifc \<Rightarrow> transmit fuel env sr (ip_src (ip_at 14 packet))
                 (echo_frame (ether_dhost (eth_at 0 packet)) (if_addr ifc) packet) len
                 (list_of (rt_interface rt)))))"
proof -
  have "unat (len - 34) = unat len - 34"
    using l by (simp add: unat_sub word_le_nat_alt)
  moreover from this l have "sint (len - 34) = int (unat (len - 34))"
    by (intro sint_small) simp
  ultimately have n: "nat (sint (len - 34)) = length packet - 34"
    using l(2) by (simp only: nat_int)
  let ?z = "mod_icmp 34 (\<lambda>h. h\<lparr>icmp_sum := 0\<rparr>) packet"
  have len: "34 + (length packet - 34) \<le> length ?z \<longleftrightarrow> True" using l(1) by simp
  have z: "seg 34 (length packet - 34) ?z = wr_icmp ((icmp_at 34 packet)\<lparr>icmp_sum := 0\<rparr>) @ drop 38 packet"
    using drop_34_split [of ?z] seg_drop [of ?z 34 "length packet - 34"] l(1)
    by (simp add: buf_simps drop_modify_ge)
  note e = echo_buf_eq [OF l(1) refl, unfolded Let_def]
  let ?p1 = "mod_ip 14 (\<lambda>h. h\<lparr>ip_ttl := INIT_TTL, ip_src := ip_dst h,
      ip_dst := ip_src (ip_at 14 packet), ip_sum := 0\<rparr>) packet"
  let ?p2 = "mod_ip 14 (\<lambda>h. h\<lparr>ip_sum := cksum (seg 14 20 ?p1)\<rparr>) ?p1"
  let ?p3 = "mod_icmp 34 (\<lambda>h. h\<lparr>icmp_type := 0, icmp_sum := 0\<rparr>) ?p2"
  let ?p4 = "mod_icmp 34 (\<lambda>h. h\<lparr>icmp_sum := cksum (seg 34 (length packet - 34) ?p3)\<rparr>) ?p3"
  have d: "ip_dst (ip_at 14 ?p4) = ip_src (ip_at 14 packet)"
    using l(1) by (simp add: buf_simps)
  show ?thesis
    unfolding echo_reply_def Let_def n len guard_True bnd_Inr z restore_icmp_sum [OF l(1)] icmp_valid_def [symmetric] e d
    by (simp split: option.splits)
qed

text \<open>The error messages go back out of the receiving interface.\<close>

lemma port_unreachable_eq:
  assumes "8 \<le> unat len_r"
  shows "port_unreachable fuel env sr packet len_r interface =
    (case sr_get_interface sr interface of
       None \<Rightarrow> Inl Null_deref
     | Some ifc \<Rightarrow>
         if length packet < 42 then Inl Oob_access
         else transmit fuel env sr (ip_src (ip_at 14 packet)) (icmp_t3_frame (unset_mac env 70) (if_addr ifc)
           (ip_id (ip_at 14 packet)) (if_ip ifc) (ip_src (ip_at 14 packet)) 3 (arr_at 14 packet)) 70 interface)"
  using assms by (auto simp: port_unreachable_def icmp_t3_buf_eq guard_def split: option.splits)

lemma net_unreachable_eq:
  "net_unreachable fuel env sr packet interface =
    (case sr_get_interface sr interface of
       None \<Rightarrow> Inl Null_deref
     | Some ifc \<Rightarrow>
         if length packet < 42 then Inl Oob_access
         else transmit fuel env sr (ip_src (ip_at 14 packet)) (icmp_t3_frame (unset_mac env 70) (if_addr ifc)
           (ip_id (ip_at 14 packet)) (if_ip ifc) (ip_src (ip_at 14 packet)) 0 (arr_at 14 packet)) 70 interface)"
  by (auto simp: net_unreachable_def icmp_t3_buf_eq guard_def split: option.splits)

lemma time_exceeded_eq:
  "time_exceeded fuel env sr packet interface =
    (case sr_get_interface sr interface of
       None \<Rightarrow> Inl Null_deref
     | Some ifc \<Rightarrow>
         if length packet < 42 then Inl Oob_access
         else transmit fuel env sr (ip_src (ip_at 14 packet)) (icmp_t11_frame (unset_mac env 70) (if_addr ifc)
           (ip_id (ip_at 14 packet)) (if_ip ifc) (ip_src (ip_at 14 packet)) (arr_at 14 packet)) 70 interface)"
  by (auto simp: time_exceeded_def icmp_t11_buf_eq guard_def split: option.splits)

lemma arp_answer_eq:
  assumes "42 \<le> length packet"
  shows "arp_answer env sr packet len ifc interface =
    bnd (sr_send_packet env sr (arp_reply_frame ifc packet) len interface) (\<lambda>(_, sr1). Inr sr1)"
  using arp_reply_buf_eq [OF assms, unfolded Let_def] by (simp add: arp_answer_def Let_def)

section \<open>Dispatch\<close>

text \<open>An IP packet that passes the validation and the black list.\<close>

definition accepted :: "byte list \<Rightarrow> u32 \<Rightarrow> bool" where
  "accepted packet len \<longleftrightarrow> length packet = unat len \<and> 34 \<le> unat len \<and> unat len < 2 ^ 31 - 24
     \<and> ether_type (eth_at 0 packet) = htons ethertype_ip \<and> ip_valid (ip_at 14 packet)
     \<and> \<not> blocked_net (ip_src (ip_at 14 packet)) \<and> \<not> blocked_net (ip_dst (ip_at 14 packet))"

lemma minus_14: "14 \<le> unat (l :: u32) \<Longrightarrow> unat (l - 14) = unat l - 14"
  by (simp add: unat_sub word_le_nat_alt)

lemma minus_34: "34 \<le> unat (l :: u32) \<Longrightarrow> unat (l - 34) = unat l - 34"
  by (simp add: unat_sub word_le_nat_alt)

lemma handlepacket_accepted:
  assumes "accepted packet len"
  shows "sr_handlepacket fuel env sr packet len interface =
    (if own_addr sr (ip_dst (ip_at 14 packet)) then
       (if ip_p (ip_at 14 packet) = ip_protocol_icmp then
          if length packet < 38 then Inr sr
          else if icmp_type (icmp_at 34 packet) = 8 then echo_reply fuel env sr packet len else Inr sr
        else if ip_p (ip_at 14 packet) = ip_protocol_tcp \<or> ip_p (ip_at 14 packet) = ip_protocol_udp
        then port_unreachable fuel env sr packet (len - 14 - 20) interface
        else Inr sr)
     else
       (case sr_findLPMentry (routing_table sr) (ip_dst (ip_at 14 packet)) of
          Some rtentry \<Rightarrow>
            if ip_ttl (ip_at 14 packet) = 1 then time_exceeded fuel env sr packet interface
            else forward_packet fuel env sr packet len rtentry
        | None \<Rightarrow> net_unreachable fuel env sr packet interface))"
proof -
  have l: "length packet = unat len" "34 \<le> unat len" using assms by (simp_all add: accepted_def)
  have "sr_handlepacket fuel env sr packet len interface = handle_ip fuel env sr packet len (len - 14) interface"
    using assms by (simp add: sr_handlepacket_def accepted_def)
  also have "\<dots> = (if own_addr sr (ip_dst (ip_at 14 packet)) then
       (if ip_p (ip_at 14 packet) = ip_protocol_icmp then
          if unat (len - 14 - 20) < 4 then Inr sr
          else
            bnd (guard Oob_access (38 \<le> length packet)) (\<lambda>_.
            if icmp_type (icmp_at 34 packet) = 8 then echo_reply fuel env sr packet len else Inr sr)
        else if ip_p (ip_at 14 packet) = ip_protocol_tcp \<or> ip_p (ip_at 14 packet) = ip_protocol_udp
        then port_unreachable fuel env sr packet (len - 14 - 20) interface
        else Inr sr)
     else
       (case sr_findLPMentry (routing_table sr) (ip_dst (ip_at 14 packet)) of
          Some rtentry \<Rightarrow>
            if ip_ttl (ip_at 14 packet) = 1 then time_exceeded fuel env sr packet interface
            else forward_packet fuel env sr packet len rtentry
        | None \<Rightarrow> net_unreachable fuel env sr packet interface))"
    using assms l handle_ip_eq [OF _ _ refl, of packet "len - 14" fuel env sr len interface]
    by (simp add: accepted_def minus_14)
  finally show ?thesis
    using l minus_34 [OF l(2)] by (simp add: guard_def) linarith
qed

text \<open>Everything the router drops.\<close>

definition dropped :: "byte list \<Rightarrow> bool" where
  "dropped packet \<longleftrightarrow>
     (let t = ether_type (eth_at 0 packet); h = ip_at 14 packet in
      length packet < 14
      \<or> t \<noteq> htons ethertype_ip \<and> t \<noteq> htons ethertype_arp
      \<or> t = htons ethertype_ip \<and> (length packet < 34 \<or> \<not> ip_valid h \<or> blocked_net (ip_src h) \<or> blocked_net (ip_dst h))
      \<or> t = htons ethertype_arp \<and> length packet < 42)"

lemma handlepacket_dropped:
  assumes "length packet = unat len" and "dropped packet"
  shows "sr_handlepacket fuel env sr packet len interface = Inr sr"
proof -
  consider "length packet < 14" | "14 \<le> length packet" "ether_type (eth_at 0 packet) = htons ethertype_ip"
    | "14 \<le> length packet" "ether_type (eth_at 0 packet) \<noteq> htons ethertype_ip" by linarith
  then show ?thesis
  proof cases
    case 1
    then show ?thesis using assms by (simp add: sr_handlepacket_def)
  next
    case 2
    then have "sr_handlepacket fuel env sr packet len interface = handle_ip fuel env sr packet len (len - 14) interface"
      using assms(1) by (simp add: sr_handlepacket_def)
    also have "\<dots> = Inr sr"
    proof (cases "length packet < 34")
      case True
      then show ?thesis using assms 2 by (simp add: handle_ip_def minus_14 less_diff_conv)
    next
      case False
      then have l: "34 \<le> length packet" "20 \<le> unat (len - 14)"
        using assms(1) by (simp_all add: minus_14)
      have "htons ethertype_ip \<noteq> htons ethertype_arp" by (simp add: protocol_numbers)
      then show ?thesis
        using assms(2) 2 l handle_ip_eq [OF l refl] by (auto simp: dropped_def)
    qed
    finally show ?thesis .
  next
    case 3
    then show ?thesis
      using assms by (auto simp: sr_handlepacket_def handle_arp_def dropped_def minus_14 less_diff_conv)
  qed
qed

text \<open>The cases of the handler, for the proofs about all packets.\<close>

lemma accepted_cases [consumes 1, case_names echo port ttl fwd net nothing]:
  assumes acc: "accepted packet len"
  obtains "own_addr sr (ip_dst (ip_at 14 packet))" "ip_p (ip_at 14 packet) = ip_protocol_icmp"
      "38 \<le> length packet" "icmp_type (icmp_at 34 packet) = 8" "unat len < 2 ^ 31"
      "sr_handlepacket fuel env sr packet len interface = echo_reply fuel env sr packet len"
  | "own_addr sr (ip_dst (ip_at 14 packet))"
      "ip_p (ip_at 14 packet) = ip_protocol_tcp \<or> ip_p (ip_at 14 packet) = ip_protocol_udp"
      "sr_handlepacket fuel env sr packet len interface = port_unreachable fuel env sr packet (len - 14 - 20) interface"
  | "sr_handlepacket fuel env sr packet len interface = time_exceeded fuel env sr packet interface"
  | e where "sr_findLPMentry (routing_table sr) (ip_dst (ip_at 14 packet)) = Some e"
      "sr_handlepacket fuel env sr packet len interface = forward_packet fuel env sr packet len e"
  | "sr_handlepacket fuel env sr packet len interface = net_unreachable fuel env sr packet interface"
  | "sr_handlepacket fuel env sr packet len interface = Inr sr"
proof (cases "own_addr sr (ip_dst (ip_at 14 packet))")
  case True
  have l: "unat len < 2 ^ 31" using acc by (simp add: accepted_def)
  note eq = handlepacket_accepted [OF acc, of fuel env sr interface]
  show thesis
  proof (cases "ip_p (ip_at 14 packet) = ip_protocol_icmp")
    case icmp: True
    show thesis
    proof (cases "38 \<le> length packet \<and> icmp_type (icmp_at 34 packet) = 8")
      case True
      with icmp l eq \<open>own_addr sr _\<close> show thesis by (intro that(1)) simp_all
    next
      case False
      with icmp eq \<open>own_addr sr _\<close> show thesis by (intro that(6)) auto
    qed
  next
    case False
    with True eq show thesis
      by (cases "ip_p (ip_at 14 packet) = ip_protocol_tcp \<or> ip_p (ip_at 14 packet) = ip_protocol_udp")
        (rule that(2) that(6); simp)+
  qed
next
  case False
  note eq = handlepacket_accepted [OF acc, of fuel env sr interface]
  show thesis
  proof (cases "sr_findLPMentry (routing_table sr) (ip_dst (ip_at 14 packet))")
    case None
    with False eq show thesis by (intro that(5)) simp
  next
    case (Some e)
    with False eq show thesis by (cases "ip_ttl (ip_at 14 packet) = 1") (rule that(3) that(4); simp)+
  qed
qed

lemma packet_cases [consumes 2, case_names drop accept arp]:
  assumes "length packet = unat len" "unat len < 2 ^ 31 - 24"
  obtains "dropped packet" | "accepted packet len"
    | "14 \<le> unat len" "ether_type (eth_at 0 packet) = htons ethertype_arp" "ether_type (eth_at 0 packet) \<noteq> htons ethertype_ip"
proof -
  have ne: "htons ethertype_ip \<noteq> htons ethertype_arp" by (simp add: protocol_numbers)
  show thesis
  proof (cases "dropped packet")
    case False
    show thesis
    proof (cases "ether_type (eth_at 0 packet) = htons ethertype_ip")
      case True
      with False have "accepted packet len" using assms ne by (simp add: dropped_def accepted_def Let_def)
      then show thesis by (rule that(2))
    next
      case False
      with \<open>\<not> dropped packet\<close> show thesis using assms(1) that(3) by (simp add: dropped_def Let_def)
    qed
  qed (rule that(1))
qed

end
