(* ===== verification/Receiving.thy ===== *)
theory Receiving
  imports Prelude
begin

text \<open>
  Reading from the server socket, the two loops at the start of \<^verbatim>\<open>sr_read_from_server_expect\<close>
  (\<^verbatim>\<open>src/sr_vns_comm.c\<close>). TCP delivers bytes in pieces of any size, a signal can interrupt a call, and a call can
  fail: the input is the list of what the following calls of \<^verbatim>\<open>recv\<close> find. An empty list is a
  connection that the server has closed: every further call returns 0.

  A loop may run forever, so it is a partial function: \<open>None\<close> is a loop that never ends.
\<close>

section \<open>The code\<close>

datatype net_event = Data "byte list" | Interrupted | Failed

datatype recv_ret = Received "byte list" | Eintr | Recv_error

fun recv :: "nat \<Rightarrow> net_event list \<Rightarrow> recv_ret \<times> net_event list" where
  "recv n [] = (Received [], [])"
| "recv n (Data bs # es) = (Received (take n bs), if length bs \<le> n then es else Data (drop n bs) # es)"
| "recv n (Interrupted # es) = (Eintr, es)"
| "recv n (Failed # es) = (Recv_error, es)"

text \<open>
  \<^verbatim>\<open>while (bytes_read < n)\<close> with the \<^verbatim>\<open>do ... while (errno == EINTR)\<close> inside: \<open>got\<close> are the bytes read so far.
  The result is the bytes, or \<open>None\<close> where the function returns -1.
\<close>

partial_function (option) recv_loop ::
  "nat \<Rightarrow> byte list \<Rightarrow> net_event list \<Rightarrow> (byte list option \<times> net_event list) option" where
  "recv_loop n got es =
     (if length got < n then
        (case recv (n - length got) es of
           (Received bs, es') \<Rightarrow> recv_loop n (got @ bs) es'
         | (Eintr, es') \<Rightarrow> recv_loop n got es'
         | (Recv_error, es') \<Rightarrow> Some (None, es'))
      else Some (Some got, es))"

section \<open>The input as a stream of bytes\<close>

text \<open>The bytes that arrive before a call fails, however they are cut into pieces.\<close>

fun stream :: "net_event list \<Rightarrow> byte list" where
  "stream [] = []"
| "stream (Data bs # es) = bs @ stream es"
| "stream (Interrupted # es) = stream es"
| "stream (Failed # es) = []"

text \<open>The loop takes exactly the next bytes of the stream.\<close>

lemma recv_loop_stream:
  "length got + k = n \<Longrightarrow> k \<le> length (stream es) \<Longrightarrow>
   \<exists>es'. recv_loop n got es = Some (Some (got @ take k (stream es)), es') \<and> stream es' = drop k (stream es)"
proof (induction es arbitrary: got k)
  case Nil
  then show ?case by (auto simp: recv_loop.simps)
next
  case (Cons e es)
  show ?case
  proof (cases "k = 0")
    case True
    then show ?thesis using Cons.prems by (simp add: recv_loop.simps)
  next
    case False
    then have less: "length got < n" "n - length got = k" using Cons.prems(1) by auto
    show ?thesis
    proof (cases e)
      case (Data bs)
      show ?thesis
      proof (cases "length bs \<le> k")
        case True
        then have "length (got @ bs) + (k - length bs) = n" "k - length bs \<le> length (stream es)"
          using Cons.prems Data by auto
        from Cons.IH [OF this] show ?thesis
          using less True Data by (subst recv_loop.simps) simp
      next
        case False
        then show ?thesis
          using less Data Cons.prems(1) by (subst recv_loop.simps) (simp, subst recv_loop.simps, simp)
      qed
    next
      case Interrupted
      then show ?thesis
        using Cons.IH [OF Cons.prems(1)] Cons.prems(2) less by (subst recv_loop.simps) simp
    next
      case Failed
      then show ?thesis using Cons.prems(2) False by simp
    qed
  qed
qed

text \<open>
  When the server closes the connection before the bytes are complete, \<^verbatim>\<open>recv\<close> returns 0 again and
  again and the loop never ends: the code does not look at a return value of 0.
\<close>

lemma stream_recv:
  assumes "Failed \<notin> set es" and "recv m es = (r, es')"
  shows "Failed \<notin> set es' \<and> (\<exists>bs. r = Received bs \<and> stream es = bs @ stream es' \<or> r = Eintr \<and> stream es' = stream es)"
  using assms by (cases es; cases "hd es") (auto split: if_splits dest: in_set_dropD)

lemma recv_loop_ends:
  assumes "recv_loop n got es = Some r"
  shows "Failed \<in> set es \<or> n \<le> length got + length (stream es)"
proof (rule recv_loop.raw_induct [OF _ assms, where P = "\<lambda>n got es r. Failed \<in> set es \<or> n \<le> length got + length (stream es)"])
  fix loop n got es r
  assume IH: "\<And>n got es r. loop n got es = Some r \<Longrightarrow> Failed \<in> set es \<or> n \<le> length got + length (stream es)"
    and body: "(if length got < n then
        (case recv (n - length got) es of
           (Received bs, es') \<Rightarrow> loop n (got @ bs) es'
         | (Eintr, es') \<Rightarrow> loop n got es'
         | (Recv_error, es') \<Rightarrow> Some (None, es'))
      else Some (Some got, es)) = Some r"
  obtain x es' where r: "recv (n - length got) es = (x, es')" by (cases "recv (n - length got) es")
  show "Failed \<in> set es \<or> n \<le> length got + length (stream es)"
  proof (rule disjCI)
    assume "\<not> n \<le> length got + length (stream es)"
    then show "Failed \<in> set es"
      using stream_recv [OF _ r] body r by (fastforce dest: IH split: if_splits)
  qed
qed

lemma recv_loop_closed:
  "Failed \<notin> set es \<Longrightarrow> length got + length (stream es) < n \<Longrightarrow> recv_loop n got es = None"
  using recv_loop_ends [of n got es] by (cases "recv_loop n got es") auto

text \<open>A call that fails makes the loop return -1.\<close>

lemma recv_loop_failed:
  "length got + length (stream es) < n \<Longrightarrow> Failed \<in> set es \<Longrightarrow> \<exists>es'. recv_loop n got es = Some (None, es')"
proof (induction es arbitrary: got)
  case (Cons e es)
  then show ?case
    by (cases e) (subst recv_loop.simps, force)+
qed simp

text \<open>No call fails later that would not have failed before.\<close>

lemma recv_loop_no_failure:
  assumes "recv_loop n got es = Some (r, es')" and "Failed \<notin> set es"
  shows "Failed \<notin> set es'"
proof -
  have "Failed \<in> set (snd (r, es')) \<longrightarrow> Failed \<in> set es"
  proof (rule recv_loop.raw_induct [OF _ assms(1), where P = "\<lambda>n got es x. Failed \<in> set (snd x) \<longrightarrow> Failed \<in> set es"])
    fix loop n got es x
    assume IH: "\<And>n got es x. loop n got es = Some x \<Longrightarrow> Failed \<in> set (snd x) \<longrightarrow> Failed \<in> set es"
      and body: "(if length got < n then
        (case recv (n - length got) es of
           (Received bs, es') \<Rightarrow> loop n (got @ bs) es'
         | (Eintr, es') \<Rightarrow> loop n got es'
         | (Recv_error, es') \<Rightarrow> Some (None, es'))
      else Some (Some got, es)) = Some x"
    obtain y es1 where r: "recv (n - length got) es = (y, es1)" by (cases "recv (n - length got) es")
    then show "Failed \<in> set (snd x) \<longrightarrow> Failed \<in> set es"
      using stream_recv [OF _ r] body by (fastforce dest: IH split: if_splits recv_ret.splits)
  qed
  then show ?thesis using assms(2) by simp
qed

end
