(* ===== verification/Sha1.thy ===== *)
theory Sha1
  imports Prelude
begin

text \<open>
  The message digest of \<^verbatim>\<open>src/sha1.c\<close>, which the authentication with the server uses, and its
  refinement: the incremental interface (\<^verbatim>\<open>SHA1Reset\<close>, \<^verbatim>\<open>SHA1Input\<close>, \<^verbatim>\<open>SHA1Result\<close>) computes the function that
  the standard defines on whole messages, however the message is cut into pieces, and never
  writes outside its block buffer.
\<close>

section \<open>The code\<close>

record SHA1Context =
  Message_Digest :: "u32 list"
  Length_Low :: u32
  Length_High :: u32
  Message_Block :: "byte list"
  Message_Block_Index :: nat
  Computed :: bool
  Corrupted :: bool

definition SHA1CircularShift :: "nat \<Rightarrow> u32 \<Rightarrow> u32" where
  "SHA1CircularShift n w = (push_bit n w AND 0xFFFFFFFF) OR drop_bit (32 - n) w"

definition SHA1Reset :: "SHA1Context \<Rightarrow> SHA1Context" where
  "SHA1Reset context = context\<lparr>Length_Low := 0, Length_High := 0, Message_Block_Index := 0,
     Message_Digest := [0x67452301, 0xEFCDAB89, 0x98BADCFE, 0x10325476, 0xC3D2E1F0],
     Computed := False, Corrupted := False\<rparr>"

text \<open>The word sequence: 16 words from the block, then 64 from earlier words.\<close>

definition load_words :: "byte list \<Rightarrow> u32 list" where
  "load_words b = map (\<lambda>t. push_bit 24 (ucast (b ! (t * 4))) OR push_bit 16 (ucast (b ! (t * 4 + 1)))
     OR push_bit 8 (ucast (b ! (t * 4 + 2))) OR ucast (b ! (t * 4 + 3))) [0..<16]"

primrec extend_words :: "nat \<Rightarrow> u32 list \<Rightarrow> u32 list" where
  "extend_words 0 W = W"
| "extend_words (Suc n) W = extend_words n (let t = length W in
     W @ [SHA1CircularShift 1 (W ! (t - 3) XOR W ! (t - 8) XOR W ! (t - 14) XOR W ! (t - 16))])"

type_synonym regs = "u32 \<times> u32 \<times> u32 \<times> u32 \<times> u32"

text \<open>One of the four loops of twenty steps: \<open>f\<close> is its Boolean function and \<open>k\<close> its constant.\<close>

definition sha_step :: "(u32 \<Rightarrow> u32 \<Rightarrow> u32 \<Rightarrow> u32) \<Rightarrow> u32 \<Rightarrow> regs \<Rightarrow> u32 \<Rightarrow> regs" where
  "sha_step f k = (\<lambda>(A, B, C, D, E) w.
     let temp = SHA1CircularShift 5 A + f B C D + E + w + k
     in (temp, A, SHA1CircularShift 30 B, C, D))"

definition SHA1ProcessMessageBlock :: "SHA1Context \<Rightarrow> SHA1Context" where
  "SHA1ProcessMessageBlock context =
     (let W = extend_words 64 (load_words (Message_Block context));
          H = Message_Digest context;
          r = (H ! 0, H ! 1, H ! 2, H ! 3, H ! 4);
          r = foldl (sha_step (\<lambda>B C D. (B AND C) OR (NOT B AND D)) 0x5A827999) r (map ((!) W) [0..<20]);
          r = foldl (sha_step (\<lambda>B C D. B XOR C XOR D) 0x6ED9EBA1) r (map ((!) W) [20..<40]);
          r = foldl (sha_step (\<lambda>B C D. (B AND C) OR (B AND D) OR (C AND D)) 0x8F1BBCDC) r (map ((!) W) [40..<60]);
          (A, B, C, D, E) = foldl (sha_step (\<lambda>B C D. B XOR C XOR D) 0xCA62C1D6) r (map ((!) W) [60..<80])
      in context\<lparr>Message_Digest := [H ! 0 + A, H ! 1 + B, H ! 2 + C, H ! 3 + D, H ! 4 + E],
           Message_Block_Index := 0\<rparr>)"

text \<open>\<^verbatim>\<open>context->Message_Block[context->Message_Block_Index++] = b\<close>\<close>

definition store_byte :: "SHA1Context \<Rightarrow> byte \<Rightarrow> SHA1Context res" where
  "store_byte context b =
     bnd (guard Oob_access (Message_Block_Index context < 64)) (\<lambda>_.
     Inr (context\<lparr>Message_Block := (Message_Block context)[Message_Block_Index context := b],
       Message_Block_Index := Message_Block_Index context + 1\<rparr>))"

text \<open>The body of the loop of \<^verbatim>\<open>SHA1Input\<close>.\<close>

definition input_byte :: "SHA1Context \<Rightarrow> byte \<Rightarrow> SHA1Context res" where
  "input_byte context b =
     bnd (store_byte context b) (\<lambda>context.
     let context = context\<lparr>Length_Low := Length_Low context + 8\<rparr>;
         context = (if Length_Low context = 0
           then let context = context\<lparr>Length_High := Length_High context + 1\<rparr>
             in if Length_High context = 0 then context\<lparr>Corrupted := True\<rparr> else context
           else context)
     in Inr (if Message_Block_Index context = 64 then SHA1ProcessMessageBlock context else context))"

primrec input_loop :: "nat \<Rightarrow> SHA1Context \<Rightarrow> byte list \<Rightarrow> SHA1Context res" where
  "input_loop 0 context message_array = Inr context"
| "input_loop (Suc n) context message_array =
     (if Corrupted context then Inr context
      else case message_array of
        [] \<Rightarrow> Inl Oob_access
      | b # bs \<Rightarrow> bnd (input_byte context b) (\<lambda>context. input_loop n context bs))"

definition SHA1Input :: "SHA1Context \<Rightarrow> byte list \<Rightarrow> u32 \<Rightarrow> SHA1Context res" where
  "SHA1Input context message_array len =
     (if len = 0 then Inr context
      else if Computed context \<or> Corrupted context then Inr (context\<lparr>Corrupted := True\<rparr>)
      else input_loop (unat len) context message_array)"

text \<open>\<^verbatim>\<open>while (context->Message_Block_Index < n)\<close> the next byte is zero.\<close>

function zero_to :: "nat \<Rightarrow> SHA1Context \<Rightarrow> SHA1Context res" where
  "zero_to n context =
     (if Message_Block_Index context < n then bnd (store_byte context 0) (zero_to n) else Inr context)"
  by pat_completeness auto
termination
  by (relation "measure (\<lambda>(n, c). n - Message_Block_Index c)") (auto simp: store_byte_def)

declare zero_to.simps [simp del]

text \<open>The length of the message as the last eight bytes of the block, which is then processed.\<close>

definition last_block :: "SHA1Context \<Rightarrow> SHA1Context" where
  "last_block context =
     (let H = Length_High context; L = Length_Low context;
          tail = [ucast (drop_bit 24 H), ucast (drop_bit 16 H), ucast (drop_bit 8 H), ucast H,
            ucast (drop_bit 24 L), ucast (drop_bit 16 L), ucast (drop_bit 8 L), ucast L]
      in SHA1ProcessMessageBlock (context\<lparr>Message_Block := blit 56 tail (Message_Block context)\<rparr>))"

definition SHA1PadMessage :: "SHA1Context \<Rightarrow> SHA1Context res" where
  "SHA1PadMessage context =
     bnd (if Message_Block_Index context > 55
          then
            bnd (store_byte context 0x80) (\<lambda>context.
            bnd (zero_to 64 context) (\<lambda>context.
            zero_to 56 (SHA1ProcessMessageBlock context)))
          else bnd (store_byte context 0x80) (zero_to 56))
       (\<lambda>context. Inr (last_block context))"

definition SHA1Result :: "SHA1Context \<Rightarrow> (bool \<times> SHA1Context) res" where
  "SHA1Result context =
     (if Corrupted context then Inr (False, context)
      else if \<not> Computed context
      then bnd (SHA1PadMessage context) (\<lambda>context. Inr (True, context\<lparr>Computed := True\<rparr>))
      else Inr (True, context))"

section \<open>The standard\<close>

text \<open>The function on whole messages, from FIPS 180-1: message schedule, step functions and padding.\<close>

definition be32 :: "byte list \<Rightarrow> u32" where
  "be32 b = of_nat (unat (b ! 0) * 2 ^ 24 + unat (b ! 1) * 2 ^ 16 + unat (b ! 2) * 2 ^ 8 + unat (b ! 3))"

function sha_W :: "byte list \<Rightarrow> nat \<Rightarrow> u32" where
  "sha_W blk t = (if t < 16 then be32 (seg (4 * t) 4 blk)
     else word_rotl 1 (sha_W blk (t - 3) XOR sha_W blk (t - 8) XOR sha_W blk (t - 14) XOR sha_W blk (t - 16)))"
  by pat_completeness auto
termination
  by (relation "measure snd") auto

declare sha_W.simps [simp del]

definition sha_f :: "nat \<Rightarrow> u32 \<Rightarrow> u32 \<Rightarrow> u32 \<Rightarrow> u32" where
  "sha_f t B C D = (if t < 20 then (B AND C) OR (NOT B AND D)
     else if t < 40 then B XOR C XOR D
     else if t < 60 then (B AND C) OR (B AND D) OR (C AND D)
     else B XOR C XOR D)"

definition sha_K :: "nat \<Rightarrow> u32" where
  "sha_K t = (if t < 20 then 0x5A827999 else if t < 40 then 0x6ED9EBA1 else if t < 60 then 0x8F1BBCDC else 0xCA62C1D6)"

definition sha_round :: "byte list \<Rightarrow> regs \<Rightarrow> nat \<Rightarrow> regs" where
  "sha_round blk = (\<lambda>(A, B, C, D, E) t.
     (word_rotl 5 A + sha_f t B C D + E + sha_W blk t + sha_K t, A, word_rotl 30 B, C, D))"

definition sha_compress :: "regs \<Rightarrow> byte list \<Rightarrow> regs" where
  "sha_compress H blk =
     (let (h0, h1, h2, h3, h4) = H; (A, B, C, D, E) = foldl (sha_round blk) H [0..<80]
      in (h0 + A, h1 + B, h2 + C, h3 + D, h4 + E))"

definition sha_init :: regs where
  "sha_init = (0x67452301, 0xEFCDAB89, 0x98BADCFE, 0x10325476, 0xC3D2E1F0)"

definition be64 :: "nat \<Rightarrow> byte list" where
  "be64 n = map (\<lambda>i. of_nat (n div 2 ^ (8 * (7 - i)))) [0..<8]"

text \<open>One bit, zeros up to eight bytes before the end of a block, then the length in bits.\<close>

definition sha_pad :: "byte list \<Rightarrow> byte list" where
  "sha_pad msg = msg @ [0x80] @ replicate ((119 - length msg mod 64) mod 64) 0 @ be64 (8 * length msg)"

fun blocks :: "byte list \<Rightarrow> byte list list" where
  "blocks bs = (if length bs < 64 then [] else take 64 bs # blocks (drop 64 bs))"

declare blocks.simps [simp del]

definition sha1 :: "byte list \<Rightarrow> regs" where
  "sha1 msg = foldl sha_compress sha_init (blocks (sha_pad msg))"

section \<open>One block\<close>

lemma rotl_shifts:
  assumes "0 < n" and "n < 32"
  shows "push_bit n w OR drop_bit (32 - n) w = word_rotl n (w :: u32)"
proof (rule bit_word_eqI)
  fix m assume m: "m < LENGTH(32)"
  show "bit (push_bit n w OR drop_bit (32 - n) w) m \<longleftrightarrow> bit (word_rotl n w) m"
  proof (cases "n \<le> m")
    case True
    then have "(m + (32 - n)) mod 32 = m - n"
      using m assms by (simp add: mod_if)
    moreover have "\<not> bit w (32 - n + m)"
      using True assms by (intro impossible_bit) simp
    ultimately show ?thesis
      using True m assms by (simp add: bit_simps)
  next
    case False
    then have "(m + (32 - n)) mod 32 = 32 - n + m" using m assms by simp
    then show ?thesis
      using False m assms by (simp add: bit_simps)
  qed
qed

lemma circular_shift_rotl:
  "SHA1CircularShift 1 w = word_rotl 1 w" "SHA1CircularShift 5 w = word_rotl 5 w" "SHA1CircularShift 30 w = word_rotl 30 w"
proof -
  have "(0xFFFFFFFF :: u32) = mask 32" by (simp add: mask_eq_exp_minus_1)
  then have f: "x AND 0xFFFFFFFF = x" for x :: u32
    by (simp only: flip: take_bit_eq_mask) (rule take_bit_word_eq_self, simp)
  show "SHA1CircularShift 1 w = word_rotl 1 w" "SHA1CircularShift 5 w = word_rotl 5 w" "SHA1CircularShift 30 w = word_rotl 30 w"
    using rotl_shifts [of 1 w] rotl_shifts [of 5 w] rotl_shifts [of 30 w] by (simp_all add: SHA1CircularShift_def f)
qed

lemma or_bytes_be32:
  "push_bit 24 (ucast a) OR push_bit 16 (ucast b) OR push_bit 8 (ucast c) OR ucast d = be32 [a, b, c, d]"
proof -
  have s: "push_bit 24 (ucast a :: u32) OR push_bit 16 (ucast b) OR push_bit 8 (ucast c) OR ucast d =
      push_bit 24 (ucast a) + (push_bit 16 (ucast b) + (push_bit 8 (ucast c) + ucast d))"
  proof -
    have 1: "push_bit 8 (ucast c :: u32) OR ucast d = push_bit 8 (ucast c) + ucast d"
      by (rule disjunctive_add [symmetric]) (auto simp: bit_simps impossible_bit)
    have 2: "push_bit 16 (ucast b :: u32) OR (push_bit 8 (ucast c) OR ucast d) =
        push_bit 16 (ucast b) + (push_bit 8 (ucast c) OR ucast d)"
      by (rule disjunctive_add [symmetric]) (auto simp: bit_simps impossible_bit)
    have 3: "push_bit 24 (ucast a :: u32) OR (push_bit 16 (ucast b) OR (push_bit 8 (ucast c) OR ucast d)) =
        push_bit 24 (ucast a) + (push_bit 16 (ucast b) OR (push_bit 8 (ucast c) OR ucast d))"
      by (rule disjunctive_add [symmetric]) (auto simp: bit_simps impossible_bit)
    show ?thesis using 1 2 3 by (simp add: or.assoc)
  qed
  have "(ucast x :: u32) = of_nat (unat x)" for x :: byte by simp
  then show ?thesis
    unfolding s by (simp add: be32_def push_bit_eq_mult)
qed

lemma seg_4: "t + 4 \<le> length b \<Longrightarrow> seg t 4 b = [b ! t, b ! (t + 1), b ! (t + 2), b ! (t + 3)]"
  by (rule nth_equalityI) (auto simp: seg_def nth_Cons numeral_eq_Suc split: nat.splits)

lemma load_words_nth: "length b = 64 \<Longrightarrow> t < 16 \<Longrightarrow> load_words b ! t = sha_W b t"
  by (subst sha_W.simps) (simp add: load_words_def seg_4 or_bytes_be32 mult.commute [of 4])

lemma length_extend: "length (extend_words n W) = length W + n"
  by (induction n arbitrary: W) (simp_all add: Let_def)

lemma extend_words_nth:
  "16 \<le> length W \<Longrightarrow> \<forall>t < length W. W ! t = sha_W b t \<Longrightarrow> t < length W + n \<Longrightarrow> extend_words n W ! t = sha_W b t"
proof (induction n arbitrary: W)
  case (Suc n)
  let ?t = "length W"
  let ?w = "SHA1CircularShift 1 (W ! (?t - 3) XOR W ! (?t - 8) XOR W ! (?t - 14) XOR W ! (?t - 16))"
  have "?w = sha_W b ?t"
    using Suc.prems(1,2) by (subst sha_W.simps) (simp add: circular_shift_rotl [unfolded One_nat_def])
  then have "\<forall>t < length (W @ [?w]). (W @ [?w]) ! t = sha_W b t"
    using Suc.prems(2) by (simp add: nth_append less_Suc_eq)
  then have "extend_words n (W @ [?w]) ! t = sha_W b t"
    using Suc.prems(1,3) by (intro Suc.IH) simp_all
  then show ?case by (simp add: Let_def)
qed simp

lemma words_nth: "length b = 64 \<Longrightarrow> t < 80 \<Longrightarrow> extend_words 64 (load_words b) ! t = sha_W b t"
  using extend_words_nth [of "load_words b" b t 64] load_words_nth [of b] by (simp add: load_words_def)

lemma foldl_step_round:
  assumes "length b = 64" and "hi \<le> 80"
    and "\<And>t. lo \<le> t \<Longrightarrow> t < hi \<Longrightarrow> sha_f t = f \<and> sha_K t = k"
  shows "foldl (sha_step f k) r (map ((!) (extend_words 64 (load_words b))) [lo..<hi]) = foldl (sha_round b) r [lo..<hi]"
proof -
  have "sha_step f k r (extend_words 64 (load_words b) ! t) = sha_round b r t" if "lo \<le> t" "t < hi" for r t
    using assms that words_nth [of b t]
    by (simp add: sha_step_def sha_round_def circular_shift_rotl Let_def case_prod_unfold)
  then show ?thesis
    by (simp add: foldl_map) (rule foldl_cong, simp_all)
qed

text \<open>The registers as a tuple.\<close>

definition digest :: "SHA1Context \<Rightarrow> regs" where
  "digest c = (let H = Message_Digest c in (H ! 0, H ! 1, H ! 2, H ! 3, H ! 4))"

lemma upt_split: "i \<le> j \<Longrightarrow> j \<le> k \<Longrightarrow> [i..<j] @ [j..<k] = [i..<k]"
  using upt_add_eq_append [of i j "k - j"] by simp

lemma process_block:
  assumes "length (Message_Block c) = 64"
  shows "digest (SHA1ProcessMessageBlock c) = sha_compress (digest c) (Message_Block c)"
proof -
  have r: "foldl (sha_round (Message_Block c)) r [0..<80] =
      foldl (sha_round (Message_Block c)) (foldl (sha_round (Message_Block c)) (foldl (sha_round (Message_Block c))
        (foldl (sha_round (Message_Block c)) r [0..<20]) [20..<40]) [40..<60]) [60..<80]" for r
    unfolding foldl_append [symmetric] by (simp only: upt_split [of 0 20 40] upt_split [of 0 40 60] upt_split [of 0 60 80])
  note step = foldl_step_round [OF assms, symmetric]
  have 1: "foldl (sha_round (Message_Block c)) r [0..<20] = foldl (sha_step (\<lambda>B C D. (B AND C) OR (NOT B AND D)) 0x5A827999) r
      (map ((!) (extend_words 64 (load_words (Message_Block c)))) [0..<20])" for r
    by (rule step) (auto simp: sha_f_def sha_K_def fun_eq_iff)
  have 2: "foldl (sha_round (Message_Block c)) r [20..<40] = foldl (sha_step (\<lambda>B C D. B XOR C XOR D) 0x6ED9EBA1) r
      (map ((!) (extend_words 64 (load_words (Message_Block c)))) [20..<40])" for r
    by (rule step) (auto simp: sha_f_def sha_K_def fun_eq_iff)
  have 3: "foldl (sha_round (Message_Block c)) r [40..<60] = foldl (sha_step (\<lambda>B C D. (B AND C) OR (B AND D) OR (C AND D)) 0x8F1BBCDC) r
      (map ((!) (extend_words 64 (load_words (Message_Block c)))) [40..<60])" for r
    by (rule step) (auto simp: sha_f_def sha_K_def fun_eq_iff)
  have 4: "foldl (sha_round (Message_Block c)) r [60..<80] = foldl (sha_step (\<lambda>B C D. B XOR C XOR D) 0xCA62C1D6) r
      (map ((!) (extend_words 64 (load_words (Message_Block c)))) [60..<80])" for r
    by (rule step) (auto simp: sha_f_def sha_K_def fun_eq_iff)
  show "digest (SHA1ProcessMessageBlock c) = sha_compress (digest c) (Message_Block c)"
    unfolding SHA1ProcessMessageBlock_def sha_compress_def Let_def digest_def r 1 2 3 4 case_prod_unfold
    by (simp del: upt_rec_numeral foldl_Cons list.map)
qed

lemma process_fields [simp]:
  "Message_Block (SHA1ProcessMessageBlock c) = Message_Block c"
  "Message_Block_Index (SHA1ProcessMessageBlock c) = 0"
  "Length_Low (SHA1ProcessMessageBlock c) = Length_Low c"
  "Length_High (SHA1ProcessMessageBlock c) = Length_High c"
  "Computed (SHA1ProcessMessageBlock c) = Computed c"
  "Corrupted (SHA1ProcessMessageBlock c) = Corrupted c"
  by (simp_all add: SHA1ProcessMessageBlock_def Let_def case_prod_unfold)

section \<open>The block buffer\<close>

text \<open>The whole blocks \<open>full\<close> of a message are in the registers, the rest \<open>part\<close> is in the buffer.\<close>

definition holds :: "SHA1Context \<Rightarrow> byte list \<Rightarrow> byte list \<Rightarrow> bool" where
  "holds c full part \<longleftrightarrow> length (Message_Block c) = 64 \<and> \<not> Computed c \<and> \<not> Corrupted c
     \<and> 64 dvd length full \<and> length part < 64
     \<and> Message_Block_Index c = length part \<and> take (length part) (Message_Block c) = part
     \<and> digest c = foldl sha_compress sha_init (blocks full)
     \<and> unat (Length_High c) * 2 ^ 32 + unat (Length_Low c) = 8 * (length full + length part)"

lemma blocks_append: "64 dvd length xs \<Longrightarrow> blocks (xs @ ys) = blocks xs @ blocks ys"
proof (induction xs rule: blocks.induct)
  case (1 xs)
  show ?case
  proof (cases "length xs < 64")
    case True
    with 1(2) have "xs = []" by (auto elim: dvdE)
    then show ?thesis by (simp add: blocks.simps [of "[]"])
  next
    case False
    then have "64 dvd length (drop 64 xs)" using 1(2) by (simp add: dvd_diff_nat)
    then show ?thesis
      using False 1(1) by (subst (1 2) blocks.simps) simp
  qed
qed

lemma blocks_one: "length b = 64 \<Longrightarrow> blocks b = [b]"
  by (subst blocks.simps) (simp add: blocks.simps [of "[]"])

lemma holds_reset: "length (Message_Block c) = 64 \<Longrightarrow> holds (SHA1Reset c) [] []"
  by (simp add: holds_def SHA1Reset_def digest_def sha_init_def blocks.simps [of "[]"])

lemma store_byte_Inr:
  "Message_Block_Index c < 64 \<Longrightarrow> store_byte c b =
     Inr (c\<lparr>Message_Block := (Message_Block c)[Message_Block_Index c := b], Message_Block_Index := Suc (Message_Block_Index c)\<rparr>)"
  by (simp add: store_byte_def)

text \<open>Counting the bits of one more byte.\<close>

lemma count_bits:
  fixes hi lo :: u32
  assumes n: "unat hi * 2 ^ 32 + unat lo = 8 * n" and less: "8 * (n + 1) < 2 ^ 64"
  shows "lo + 8 \<noteq> 0 \<Longrightarrow> unat hi * 2 ^ 32 + unat (lo + 8) = 8 * (n + 1)"
    and "lo + 8 = 0 \<Longrightarrow> hi + 1 \<noteq> 0 \<and> unat (hi + 1) * 2 ^ 32 + unat (lo + 8) = 8 * (n + 1)"
proof -
  have "8 dvd unat hi * 2 ^ 32 + unat lo" using n by simp
  moreover have "8 dvd unat hi * 2 ^ 32" by (rule dvd_mult) simp
  ultimately have "8 dvd unat lo" by (simp add: dvd_add_right_iff)
  then obtain k where k: "unat lo = 8 * k" by (auto elim: dvdE)
  have "8 * k < 4294967296" using unat_u32_less [of lo] k by simp
  then have "k < 536870912" by simp
  then have le: "unat lo + 8 \<le> 4294967296" using k by simp
  have sum: "unat (lo + 8) = (unat lo + 8) mod 4294967296" by (simp add: unat_word_ariths)
  show "unat hi * 2 ^ 32 + unat (lo + 8) = 8 * (n + 1)" if "lo + 8 \<noteq> 0"
  proof -
    have "unat (lo + 8) \<noteq> 0" using that by (simp add: unat_eq_0)
    then have "unat lo + 8 < 4294967296" using sum le by (cases "unat lo + 8 = 4294967296") simp_all
    then show ?thesis using sum n by simp
  qed
  show "hi + 1 \<noteq> 0 \<and> unat (hi + 1) * 2 ^ 32 + unat (lo + 8) = 8 * (n + 1)" if "lo + 8 = 0"
  proof -
    have "unat (lo + 8) = 0" using that by simp
    then have w: "unat lo + 8 = 4294967296" using sum le by (cases "unat lo + 8 = 4294967296") simp_all
    then have "(unat hi + 1) * 4294967296 = 8 * (n + 1)" using n by simp
    then have "unat hi + 1 < 4294967296" using less by simp
    then have "unat (hi + 1) = unat hi + 1" by (simp add: unat_word_ariths)
    then show ?thesis using w n that by (auto simp: unat_eq_0 [symmetric])
  qed
qed


lemma counted_byte:
  fixes c :: SHA1Context
  assumes n: "unat (Length_High c) * 2 ^ 32 + unat (Length_Low c) = 8 * n" and less: "8 * (n + 1) < 2 ^ 64"
    and "Message_Block_Index c < 64"
  obtains hi lo where "unat hi * 2 ^ 32 + unat lo = 8 * (n + 1)"
    and "input_byte c b = (let d = c\<lparr>Message_Block := (Message_Block c)[Message_Block_Index c := b],
        Message_Block_Index := Suc (Message_Block_Index c), Length_Low := lo, Length_High := hi\<rparr>
      in Inr (if Suc (Message_Block_Index c) = 64 then SHA1ProcessMessageBlock d else d))"
proof (cases "Length_Low c + 8 = 0")
  case True
  show ?thesis
    by (rule that [of "Length_High c + 1" "0"])
      (use count_bits(2) [OF n less True] True assms(3) in \<open>simp_all add: input_byte_def store_byte_Inr Let_def\<close>)
next
  case False
  show ?thesis
    by (rule that [of "Length_High c" "Length_Low c + 8"])
      (use count_bits(1) [OF n less False] False assms(3) in \<open>simp_all add: input_byte_def store_byte_Inr Let_def\<close>)
qed

definition absorbed :: "SHA1Context \<Rightarrow> byte list \<Rightarrow> bool" where
  "absorbed c msg \<longleftrightarrow> (\<exists>full part. msg = full @ part \<and> holds c full part)"

lemma take_Suc_update: "i < length xs \<Longrightarrow> take (Suc i) (xs[i := x]) = take i xs @ [x]"
  by (simp add: take_Suc_conv_app_nth)

lemma input_byte_absorbed:
  assumes "absorbed c msg" and "8 * (length msg + 1) < 2 ^ 64"
  shows "\<exists>c'. input_byte c b = Inr c' \<and> absorbed c' (msg @ [b])"
proof -
  obtain full part where msg: "msg = full @ part" and h: "holds c full part"
    using assms(1) by (auto simp: absorbed_def)
  let ?p = "length part" and ?B = "(Message_Block c)[length part := b]"
  have idx: "Message_Block_Index c = ?p" "?p < 64" "length (Message_Block c) = 64" "64 dvd length full"
    using h by (auto simp: holds_def)
  obtain hi lo where len: "unat hi * 2 ^ 32 + unat lo = 8 * (length msg + 1)"
    and run: "input_byte c b = (let d = c\<lparr>Message_Block := ?B, Message_Block_Index := Suc ?p, Length_Low := lo, Length_High := hi\<rparr>
      in Inr (if Suc ?p = 64 then SHA1ProcessMessageBlock d else d))"
    by (rule counted_byte [of c "length msg"]) (use h assms(2) idx msg in \<open>auto simp: holds_def\<close>)
  define d where "d = c\<lparr>Message_Block := ?B, Message_Block_Index := Suc ?p, Length_Low := lo, Length_High := hi\<rparr>"
  have part: "take (Suc ?p) ?B = part @ [b]" using h idx by (simp add: take_Suc_update holds_def)
  show ?thesis
  proof (cases "Suc ?p = 64")
    case True
    have B: "Message_Block d = part @ [b]" using part idx True by (simp add: d_def)
    have dig: "digest d = digest c" by (simp add: d_def digest_def)
    have "digest (SHA1ProcessMessageBlock d) = foldl sha_compress sha_init (blocks (full @ part @ [b]))"
      using process_block [of d] h True
      by (simp add: B dig holds_def blocks_append blocks_one)
    then have "holds (SHA1ProcessMessageBlock d) (full @ part @ [b]) []"
      using h len idx B True by (simp add: holds_def) (simp add: d_def msg)
    then show ?thesis using run True msg by (auto simp: d_def Let_def absorbed_def)
  next
    case False
    have "holds d full (part @ [b])"
      using h part len False msg by (simp add: holds_def d_def digest_def Let_def)
    then show ?thesis using run False msg by (auto simp: d_def Let_def absorbed_def)
  qed
qed


lemma input_loop_absorbed:
  "absorbed c msg \<Longrightarrow> n \<le> length bs \<Longrightarrow> 8 * (length msg + n) < 2 ^ 64 \<Longrightarrow>
   \<exists>c'. input_loop n c bs = Inr c' \<and> absorbed c' (msg @ take n bs)"
proof (induction n arbitrary: c msg bs)
  case (Suc n)
  then obtain b bs' where bs: "bs = b # bs'" by (cases bs) auto
  obtain c1 where c1: "input_byte c b = Inr c1" "absorbed c1 (msg @ [b])"
    using input_byte_absorbed [of c msg b] Suc.prems by auto
  obtain c2 where "input_loop n c1 bs' = Inr c2" "absorbed c2 ((msg @ [b]) @ take n bs')"
    using Suc.IH [OF c1(2), of bs'] Suc.prems bs by auto
  moreover have "\<not> Corrupted c" using Suc.prems(1) by (auto simp: absorbed_def holds_def)
  ultimately show ?case using bs c1 by auto
qed auto

lemma SHA1Input_absorbed:
  assumes "absorbed c msg" and "unat n \<le> length bs" and "8 * (length msg + unat n) < 2 ^ 64"
  shows "\<exists>c'. SHA1Input c bs n = Inr c' \<and> absorbed c' (msg @ take (unat n) bs)"
proof (cases "n = 0")
  case False
  have "\<not> Corrupted c \<and> \<not> Computed c" using assms(1) by (auto simp: absorbed_def holds_def)
  then show ?thesis using False input_loop_absorbed [OF assms] by (simp add: SHA1Input_def)
qed (use assms(1) in \<open>simp add: SHA1Input_def\<close>)

section \<open>Padding\<close>

lemma zero_to_fills:
  assumes "Message_Block_Index c \<le> n" and "n \<le> 64" and "length (Message_Block c) = 64"
  shows "\<exists>B. zero_to n c = Inr (c\<lparr>Message_Block := B, Message_Block_Index := n\<rparr>) \<and> length B = 64
    \<and> take n B = take (Message_Block_Index c) (Message_Block c) @ replicate (n - Message_Block_Index c) 0"
  using assms
proof (induction n c rule: zero_to.induct)
  case (1 n c)
  let ?i = "Message_Block_Index c"
  show ?case
  proof (cases "?i < n")
    case True
    let ?c = "c\<lparr>Message_Block := (Message_Block c)[?i := 0], Message_Block_Index := Suc ?i\<rparr>"
    have st: "store_byte c 0 = Inr ?c" using True 1(3) by (simp add: store_byte_Inr)
    obtain B where "zero_to n ?c = Inr (?c\<lparr>Message_Block := B, Message_Block_Index := n\<rparr>)" "length B = 64"
      and "take n B = take (Suc ?i) ((Message_Block c)[?i := 0]) @ replicate (n - Suc ?i) 0"
      using 1(1) [OF True st] True 1(3,4) by auto
    moreover have "replicate (n - ?i) (0 :: byte) = 0 # replicate (n - Suc ?i) 0"
      using True by (simp add: Suc_diff_Suc flip: replicate_Suc)
    ultimately show ?thesis
      using True 1(3,4) st by (subst zero_to.simps) (auto simp: take_Suc_update)
  next
    case False
    then have "?i = n" using 1(2) by simp
    then show ?thesis using 1(4) by (subst zero_to.simps) (auto intro: exI [of _ "Message_Block c"])
  qed
qed

lemma length_tail:
  fixes hi lo :: u32
  assumes "unat hi * 2 ^ 32 + unat lo = n"
  shows "[ucast (drop_bit 24 hi), ucast (drop_bit 16 hi), ucast (drop_bit 8 hi), ucast hi,
    ucast (drop_bit 24 lo), ucast (drop_bit 16 lo), ucast (drop_bit 8 lo), ucast lo] = be64 n"
proof -
  have disj: "\<not> bit (push_bit 32 (unat hi)) j \<or> \<not> bit (unat lo) j" for j
    by (cases "j < 32") (simp_all add: bit_simps impossible_bit)
  have "n = push_bit 32 (unat hi) OR unat lo"
    using assms disjunctive_add [OF disj] by (simp add: push_bit_eq_mult)
  then have n: "bit n j \<longleftrightarrow> (if j < 32 then bit lo j else bit hi (j - 32))" for j
    by (cases "j < 32") (simp_all add: bit_simps impossible_bit)
  have lo: "of_nat (n div 2 ^ k) = (ucast (drop_bit k lo) :: byte)" if "k \<le> 24" for k
    using that by (intro bit_word_eqI) (simp add: n bit_of_nat_iff bit_simps flip: drop_bit_eq_div)
  have hi: "of_nat (n div 2 ^ (32 + k)) = (ucast (drop_bit k hi) :: byte)" for k
    by (intro bit_word_eqI) (simp add: n bit_of_nat_iff bit_simps flip: drop_bit_eq_div)
  show ?thesis
    using lo [of 0] lo [of 8] lo [of 16] lo [of 24] hi [of 0] hi [of 8] hi [of 16] hi [of 24]
    by (simp add: be64_def upt_rec)
qed


text \<open>Filling the buffer from \<open>p\<close> to \<open>n\<close> with the first padding byte and zeros.\<close>

lemma mark_and_zero:
  assumes "Message_Block_Index c = length part" and "length part < n" and "n \<le> 64" and "length (Message_Block c) = 64"
    and "take (length part) (Message_Block c) = part"
  shows "\<exists>B. bnd (store_byte c 0x80) (zero_to n) = Inr (c\<lparr>Message_Block := B, Message_Block_Index := n\<rparr>) \<and> length B = 64
    \<and> take n B = part @ [0x80] @ replicate (n - Suc (length part)) 0"
proof -
  let ?c = "c\<lparr>Message_Block := (Message_Block c)[length part := 0x80], Message_Block_Index := Suc (length part)\<rparr>"
  have st: "store_byte c 0x80 = Inr ?c" using assms by (simp add: store_byte_Inr)
  obtain B where "zero_to n ?c = Inr (?c\<lparr>Message_Block := B, Message_Block_Index := n\<rparr>)" "length B = 64"
    and "take n B = take (Suc (length part)) ((Message_Block c)[length part := 0x80]) @ replicate (n - Suc (length part)) 0"
    using zero_to_fills [of ?c n] assms by auto
  then show ?thesis using st assms by (auto simp: take_Suc_update)
qed

lemma digest_update [simp]:
  "digest (c\<lparr>Message_Block := B\<rparr>) = digest c" "digest (c\<lparr>Message_Block_Index := i\<rparr>) = digest c"
  "digest (c\<lparr>Computed := d\<rparr>) = digest c"
  by (simp_all add: digest_def)

lemma digest_last_block:
  assumes "length (Message_Block c) = 64" and "64 dvd length full"
    and "digest c = foldl sha_compress sha_init (blocks full)"
    and "unat (Length_High c) * 2 ^ 32 + unat (Length_Low c) = n"
  shows "digest (last_block c) = foldl sha_compress sha_init (blocks (full @ take 56 (Message_Block c) @ be64 n))"
proof -
  let ?B = "blit 56 (be64 n) (Message_Block c)"
  have B: "?B = take 56 (Message_Block c) @ be64 n" "length ?B = 64"
    using assms(1) by (simp_all add: blit_def be64_def)
  have "digest (last_block c) = sha_compress (digest c) ?B"
    unfolding last_block_def Let_def length_tail [OF assms(4)]
    by (subst process_block) (use B in simp_all)
  then show ?thesis using B assms(2,3) by (simp add: blocks_append blocks_one)
qed

lemma last_block_Corrupted [simp]: "Corrupted (last_block c) = Corrupted c"
  by (simp add: last_block_def Let_def)

lemma SHA1PadMessage_digest:
  assumes "holds c full part"
  shows "\<exists>c'. SHA1PadMessage c = Inr c' \<and> digest c' = sha1 (full @ part) \<and> \<not> Corrupted c'"
proof -
  let ?p = "length part" and ?n = "8 * (length full + length part)"
  have idx: "Message_Block_Index c = ?p" "?p < 64" "length (Message_Block c) = 64" "64 dvd length full" "\<not> Corrupted c"
    and part: "take ?p (Message_Block c) = part"
    and dig: "digest c = foldl sha_compress sha_init (blocks full)"
    and len: "unat (Length_High c) * 2 ^ 32 + unat (Length_Low c) = ?n"
    using assms by (auto simp: holds_def)
  have pmod: "length (full @ part) mod 64 = ?p" using idx by (auto elim!: dvdE)
  show ?thesis
  proof (cases "?p > 55")
    case False
    obtain B where B: "bnd (store_byte c 0x80) (zero_to 56) = Inr (c\<lparr>Message_Block := B, Message_Block_Index := 56\<rparr>)"
      "length B = 64" "take 56 B = part @ [0x80] @ replicate (55 - ?p) 0"
      using mark_and_zero [of c part 56] idx part False by auto
    let ?c = "c\<lparr>Message_Block := B, Message_Block_Index := 56\<rparr>"
    have "SHA1PadMessage c = Inr (last_block ?c)"
      using False idx B(1) by (auto simp: SHA1PadMessage_def)
    moreover have "(119 - ?p) mod 64 = 55 - ?p" using False by (simp add: mod_if)
    then have "full @ take 56 B @ be64 ?n = sha_pad (full @ part)"
      by (simp only: sha_pad_def pmod B(3)) simp
    ultimately show ?thesis
      using digest_last_block [of ?c full ?n] idx dig len B by (simp add: sha1_def)
  next
    case True
    obtain B where B: "bnd (store_byte c 0x80) (zero_to 64) = Inr (c\<lparr>Message_Block := B, Message_Block_Index := 64\<rparr>)"
      "length B = 64" "take 64 B = part @ [0x80] @ replicate (63 - ?p) 0"
      using mark_and_zero [of c part 64] idx part by auto
    let ?c = "SHA1ProcessMessageBlock (c\<lparr>Message_Block := B, Message_Block_Index := 64\<rparr>)"
    obtain Z where Z: "zero_to 56 ?c = Inr (?c\<lparr>Message_Block := Z, Message_Block_Index := 56\<rparr>)" "length Z = 64"
      "take 56 Z = replicate 56 0"
      using zero_to_fills [of ?c 56] B(2) by auto
    let ?d = "?c\<lparr>Message_Block := Z, Message_Block_Index := 56\<rparr>"
    have "SHA1PadMessage c = Inr (last_block ?d)"
      using True idx B(1) Z(1) by (auto simp: SHA1PadMessage_def)
    moreover have "(119 - ?p) mod 64 = (63 - ?p) + 56" using True idx by (simp add: mod_if)
    then have "(full @ B) @ take 56 Z @ be64 ?n = sha_pad (full @ part)"
      using B(2,3) by (simp only: sha_pad_def pmod Z(3) replicate_add) simp
    moreover have "digest ?d = foldl sha_compress sha_init (blocks (full @ B))"
      using process_block [of "c\<lparr>Message_Block := B, Message_Block_Index := 64\<rparr>"] B idx dig
      by (simp add: blocks_append blocks_one)
    ultimately show ?thesis
      using digest_last_block [of ?d "full @ B" ?n] idx len B Z by (simp add: sha1_def)
  qed
qed

lemma SHA1Result_digest:
  assumes "absorbed c msg"
  shows "\<exists>c'. SHA1Result c = Inr (True, c') \<and> digest c' = sha1 msg \<and> Computed c' \<and> \<not> Corrupted c'"
proof -
  obtain full part where "msg = full @ part" and h: "holds c full part"
    using assms by (auto simp: absorbed_def)
  then show ?thesis
    using SHA1PadMessage_digest [OF h] by (auto simp: SHA1Result_def holds_def)
qed


section \<open>Messages in pieces\<close>

text \<open>
  What the users of a digest rely on: a call with a piece of the message extends the message that the
  context has absorbed, as long as the message stays within the limit.
\<close>

locale incremental =
  fixes absorbed :: "'c \<Rightarrow> 'b list \<Rightarrow> bool" and input :: "'c \<Rightarrow> 'b list \<Rightarrow> 'c res"
    and piece limit :: nat
  assumes input: "absorbed c msg \<Longrightarrow> length bs < piece \<Longrightarrow> length (msg @ bs) < limit \<Longrightarrow>
    \<exists>c'. input c bs = Inr c' \<and> absorbed c' (msg @ bs)"
begin

lemma pieces:
  "absorbed c msg \<Longrightarrow> \<forall>b \<in> set bs. length b < piece \<Longrightarrow> length (msg @ concat bs) < limit \<Longrightarrow>
   \<exists>c'. each input c bs = Inr c' \<and> absorbed c' (msg @ concat bs)"
proof (induction bs arbitrary: c msg)
  case (Cons b bs)
  obtain c1 where c1: "input c b = Inr c1" "absorbed c1 (msg @ b)"
    using input [of c msg b] Cons.prems by auto
  show ?case using Cons.IH [OF c1(2)] Cons.prems c1(1) by auto
qed simp

end

text \<open>\<^verbatim>\<open>SHA1Input (context, bs, sizeof bs)\<close>\<close>

abbreviation sha1_input :: "SHA1Context \<Rightarrow> byte list \<Rightarrow> SHA1Context res" where
  "sha1_input c bs \<equiv> SHA1Input c bs (of_nat (length bs))"

interpretation sha: incremental absorbed sha1_input "2 ^ 32" "2 ^ 61"
proof
  fix c msg and bs :: "byte list"
  assume "absorbed c msg" "length bs < 2 ^ 32" "length (msg @ bs) < 2 ^ 61"
  moreover from this have "unat (of_nat (length bs) :: u32) = length bs" by (simp add: unat_of_nat take_bit_nat_eq_self)
  ultimately show "\<exists>c'. sha1_input c bs = Inr c' \<and> absorbed c' (msg @ bs)"
    using SHA1Input_absorbed [of c msg "of_nat (length bs)" bs] by simp
qed

lemma absorbed_reset: "length (Message_Block c) = 64 \<Longrightarrow> absorbed (SHA1Reset c) []"
  using holds_reset by (auto simp: absorbed_def)

lemma sha1_pieces:
  assumes "length (Message_Block c) = 64" and "\<forall>b \<in> set bs. length b < 2 ^ 32" and "length (concat bs) < 2 ^ 61"
  shows "\<exists>c'. bnd (each sha1_input (SHA1Reset c) bs) SHA1Result = Inr (True, c') \<and> digest c' = sha1 (concat bs)
    \<and> Computed c' \<and> \<not> Corrupted c'"
proof -
  obtain d where d: "each sha1_input (SHA1Reset c) bs = Inr d" "absorbed d (concat bs)"
    using sha.pieces [OF absorbed_reset [OF assms(1)] assms(2)] assms(3) by auto
  then show ?thesis using SHA1Result_digest [OF d(2)] by simp
qed

text \<open>A context before its first use.\<close>

definition blank_context :: SHA1Context where
  "blank_context = \<lparr>Message_Digest = replicate 5 0, Length_Low = 0, Length_High = 0, Message_Block = replicate 64 0,
     Message_Block_Index = 0, Computed = False, Corrupted = False\<rparr>"

end
