(* ===== verification/Printing.thy ===== *)
theory Printing
  imports Utils Inet Interfaces Arpcache
begin

text \<open>
  What the program prints about packets and its state: the functions \<^verbatim>\<open>print_\<dots>\<close> of \<^verbatim>\<open>src/sr_utils.c\<close>, \<^verbatim>\<open>sr_print_if\<close> and
  \<^verbatim>\<open>sr_print_if_list\<close> of \<^verbatim>\<open>src/sr_if.c\<close> (as compiled with \<^verbatim>\<open>_DEBUG_\<close>), \<^verbatim>\<open>sr_arpcache_dump\<close> of \<^verbatim>\<open>src/sr_arpcache.c\<close> and
  \<^verbatim>\<open>usage\<close> of \<^verbatim>\<open>src/sr_main.c\<close>. The result is the text, or a fault when a header is read that is not inside the packet. They change no
  state. \<^verbatim>\<open>ctime\<close> depends on the time zone of the machine and is a parameter.
\<close>

section \<open>Formats\<close>

text \<open>\<^verbatim>\<open>%d\<close> of a number that is not negative, \<^verbatim>\<open>%x\<close> and \<^verbatim>\<open>%X\<close> with at least \<open>w\<close> digits.\<close>

fun fmt_d :: "nat \<Rightarrow> byte list" where
  "fmt_d n = (if n < 10 then [dig n] else fmt_d (n div 10) @ [dig (n mod 10)])"

declare fmt_d.simps [simp del]

definition hex_digit :: "byte \<Rightarrow> nat \<Rightarrow> byte" where
  "hex_digit ten d = (if d < 10 then dig d else of_nat (d - 10) + ten)"

fun hex_digits :: "byte \<Rightarrow> nat \<Rightarrow> byte list" where
  "hex_digits ten n = (if n < 16 then [hex_digit ten n] else hex_digits ten (n div 16) @ [hex_digit ten (n mod 16)])"

declare hex_digits.simps [simp del]

definition zero_fill :: "nat \<Rightarrow> byte list \<Rightarrow> byte list" where
  "zero_fill w s = replicate (w - length s) 48 @ s"

abbreviation fmt_x :: "nat \<Rightarrow> nat \<Rightarrow> byte list" where
  "fmt_x w n \<equiv> zero_fill w (hex_digits 97 n)"

abbreviation fmt_X :: "nat \<Rightarrow> nat \<Rightarrow> byte list" where
  "fmt_X w n \<equiv> zero_fill w (hex_digits 65 n)"

text \<open>A line that starts with a tab, a label and a number.\<close>

abbreviation labelled :: "string \<Rightarrow> nat \<Rightarrow> byte list" where
  "labelled l n \<equiv> [9] @ text_bytes l @ text_bytes '': '' @ fmt_d n @ [10]"

section \<open>Headers\<close>

text \<open>The addresses.\<close>

definition print_addr_eth :: "mac \<Rightarrow> byte list" where
  "print_addr_eth addr =
     concat (map (\<lambda>pos. (if pos > 0 then [58] else []) @ fmt_X 2 (unat (list_of addr ! pos))) [0..<6]) @ [10]"

text \<open>\<^verbatim>\<open>inet_ntop\<close> is told that the 16 bytes of \<^verbatim>\<open>buf\<close> are 100; it writes the text and its terminator.\<close>

definition print_addr_ip :: "u32 \<Rightarrow> byte list res" where
  "print_addr_ip address =
     bnd (guard Oob_access (length (inet_ntoa address) + 1 \<le> 16)) (\<lambda>_. Inr (inet_ntoa address @ [10]))"

definition print_addr_ip_int :: "u32 \<Rightarrow> byte list" where
  "print_addr_ip_int ip =
     fmt_d (unat (drop_bit 24 ip)) @ [46] @ fmt_d (unat (drop_bit 24 (push_bit 8 ip))) @ [46]
     @ fmt_d (unat (drop_bit 24 (push_bit 16 ip))) @ [46] @ fmt_d (unat (drop_bit 24 (push_bit 24 ip))) @ [10]"

definition print_hdr_eth :: "byte list \<Rightarrow> byte list res" where
  "print_hdr_eth buf =
     bnd (guard Oob_access (14 \<le> length buf)) (\<lambda>_.
     let ehdr = eth_at 0 buf in
     Inr (text_bytes ''ETHERNET header:'' @ [10]
       @ [9] @ text_bytes ''destination: '' @ print_addr_eth (ether_dhost ehdr)
       @ [9] @ text_bytes ''source: '' @ print_addr_eth (ether_shost ehdr)
       @ labelled ''type'' (unat (ntohs (ether_type ehdr)))))"

definition IP_RF :: u16 where "IP_RF = 0x8000"
definition IP_MF :: u16 where "IP_MF = 0x2000"
definition IP_OFFMASK :: u16 where "IP_OFFMASK = 0x1fff"

definition print_hdr_ip :: "byte list \<Rightarrow> byte list res" where
  "print_hdr_ip buf =
     bnd (guard Oob_access (20 \<le> length buf)) (\<lambda>_.
     let iphdr = ip_at 0 buf; off = ntohs (ip_off iphdr) in
     Inr (text_bytes ''IP header:'' @ [10]
       @ labelled ''version'' (unat (ip_v iphdr))
       @ labelled ''header length'' (unat (ip_hl iphdr))
       @ labelled ''type of service'' (unat (ip_tos iphdr))
       @ labelled ''length'' (unat (ntohs (ip_len iphdr)))
       @ labelled ''id'' (unat (ntohs (ip_id iphdr)))
       @ (if off AND IP_DF \<noteq> 0 then [9] @ text_bytes ''fragment flag: DF'' @ [10]
          else if off AND IP_MF \<noteq> 0 then [9] @ text_bytes ''fragment flag: MF'' @ [10]
          else if off AND IP_RF \<noteq> 0 then [9] @ text_bytes ''fragment flag: R'' @ [10] else [])
       @ labelled ''fragment offset'' (unat (off AND IP_OFFMASK))
       @ labelled ''TTL'' (unat (ip_ttl iphdr))
       @ labelled ''protocol'' (unat (ip_p iphdr))
       @ labelled ''checksum'' (unat (ip_sum iphdr))
       @ [9] @ text_bytes ''source: '' @ print_addr_ip_int (ntohl (ip_src iphdr))
       @ [9] @ text_bytes ''destination: '' @ print_addr_ip_int (ntohl (ip_dst iphdr))))"

definition print_hdr_icmp :: "byte list \<Rightarrow> byte list res" where
  "print_hdr_icmp buf =
     bnd (guard Oob_access (4 \<le> length buf)) (\<lambda>_.
     let icmp_hdr = icmp_at 0 buf in
     Inr (text_bytes ''ICMP header:'' @ [10]
       @ labelled ''type'' (unat (icmp_type icmp_hdr))
       @ labelled ''code'' (unat (icmp_code icmp_hdr))
       @ labelled ''checksum'' (unat (icmp_sum icmp_hdr))))"

definition print_hdr_arp :: "byte list \<Rightarrow> byte list res" where
  "print_hdr_arp buf =
     bnd (guard Oob_access (28 \<le> length buf)) (\<lambda>_.
     let arp_hdr = arp_at 0 buf in
     Inr (text_bytes ''ARP header'' @ [10]
       @ labelled ''hardware type'' (unat (ntohs (ar_hrd arp_hdr)))
       @ labelled ''protocol type'' (unat (ntohs (ar_pro arp_hdr)))
       @ labelled ''hardware address length'' (unat (ar_hln arp_hdr))
       @ labelled ''protocol address length'' (unat (ar_pln arp_hdr))
       @ labelled ''opcode'' (unat (ntohs (ar_op arp_hdr)))
       @ [9] @ text_bytes ''sender hardware address: '' @ print_addr_eth (ar_sha arp_hdr)
       @ [9] @ text_bytes ''sender ip address: '' @ print_addr_ip_int (ntohl (ar_sip arp_hdr))
       @ [9] @ text_bytes ''target hardware address: '' @ print_addr_eth (ar_tha arp_hdr)
       @ [9] @ text_bytes ''target ip address: '' @ print_addr_ip_int (ntohl (ar_tip arp_hdr))))"

text \<open>The comparisons of the code are unsigned: \<^verbatim>\<open>length\<close> is and \<^verbatim>\<open>minlength\<close> is positive.\<close>

definition print_hdrs :: "byte list \<Rightarrow> u32 \<Rightarrow> byte list res" where
  "print_hdrs buf len =
     (if len < 14 then Inr (text_bytes ''Failed to print ETHERNET header, insufficient length'' @ [10])
      else
        bnd (print_hdr_eth buf) (\<lambda>eth.
        let ethtype = ethertype buf in
        if ethtype = ethertype_ip then
          if len < 34 then Inr (eth @ text_bytes ''Failed to print IP header, insufficient length'' @ [10])
          else
            bnd (print_hdr_ip (drop 14 buf)) (\<lambda>ip.
            if ip_protocol (drop 14 buf) = ip_protocol_icmp then
              if len < 38 then Inr (eth @ ip @ text_bytes ''Failed to print ICMP header, insufficient length'' @ [10])
              else bnd (print_hdr_icmp (drop 34 buf)) (\<lambda>icmp. Inr (eth @ ip @ icmp))
            else Inr (eth @ ip))
        else if ethtype = ethertype_arp then
          if len < 42 then Inr (eth @ text_bytes ''Failed to print ARP header, insufficient length'' @ [10])
          else bnd (print_hdr_arp (drop 14 buf)) (\<lambda>arp. Inr (eth @ arp))
        else Inr (eth @ text_bytes ''Unrecognized Ethernet Type: '' @ fmt_d (unat ethtype) @ [10])))"

section \<open>State\<close>

text \<open>\<^verbatim>\<open>DebugMAC\<close>\<close>

definition debug_mac :: "mac \<Rightarrow> byte list" where
  "debug_mac x = concat (map (\<lambda>i. fmt_x 2 (unat (list_of x ! i)) @ [58]) [0..<5]) @ fmt_x 2 (unat (list_of x ! 5))"

definition sr_print_if :: "sr_if \<Rightarrow> byte list res" where
  "sr_print_if iface =
     bnd (read_str (list_of (if_name iface))) (\<lambda>name.
     Inr (name @ [9] @ text_bytes ''MAC Addr: '' @ debug_mac (if_addr iface) @ [10]
       @ [9] @ text_bytes '' IP Addr: '' @ inet_ntoa (if_ip iface) @ [10]))"

primrec print_ifs :: "sr_if list \<Rightarrow> byte list res" where
  "print_ifs [] = Inr []"
| "print_ifs (i # is) = bnd (sr_print_if i) (\<lambda>s. bnd (print_ifs is) (\<lambda>t. Inr (s @ t)))"

definition sr_print_if_list :: "sr_instance \<Rightarrow> byte list res" where
  "sr_print_if_list sr =
     (case if_list sr of
        [] \<Rightarrow> Inr (text_bytes '' Interface list empty '' @ [10])
      | i # is \<Rightarrow> print_ifs (i # is))"

text \<open>The interfaces can be printed exactly when each of their names ends inside its array.\<close>

definition names_end :: "sr_if list \<Rightarrow> bool" where
  "names_end is \<longleftrightarrow> (\<forall>i \<in> set is. 0 \<in> set (list_of (if_name i)))"

lemma names_end_append [simp]: "names_end []" "names_end (is @ js) \<longleftrightarrow> names_end is \<and> names_end js"
  by (auto simp: names_end_def)

lemma print_ifs_total: "(\<exists>s. print_ifs is = Inr s) \<longleftrightarrow> names_end is"
  by (induction "is") (auto simp: sr_print_if_def read_str_def guard_def names_end_def)

lemma print_if_list_total: "(\<exists>s. sr_print_if_list sr = Inr s) \<longleftrightarrow> names_end (if_list sr)"
  using print_ifs_total [of "if_list sr"] by (cases "if_list sr") (simp_all add: sr_print_if_list_def del: print_ifs.simps)

definition dump_entry :: "(int \<Rightarrow> byte list) \<Rightarrow> sr_arpentry \<Rightarrow> byte list" where
  "dump_entry ctime cur =
     concat (map (\<lambda>b. fmt_x 1 (unat b)) (list_of (ae_mac cur))) @ text_bytes ''   '' @ fmt_x 8 (unat (ntohl (ae_ip cur)))
     @ text_bytes ''   '' @ take 24 (ctime (ae_added cur)) @ text_bytes ''   '' @ fmt_d (if ae_valid cur then 1 else 0) @ [10]"

definition sr_arpcache_dump :: "(int \<Rightarrow> byte list) \<Rightarrow> sr_arpcache \<Rightarrow> byte list" where
  "sr_arpcache_dump ctime c =
     [10] @ text_bytes ''MAC            IP         ADDED                      VALID'' @ [10]
     @ text_bytes ''-----------------------------------------------------------'' @ [10]
     @ concat (map (dump_entry ctime) (entries c)) @ [10]"

text \<open>The message of \<^verbatim>\<open>-h\<close> in \<^verbatim>\<open>src/sr_main.c\<close>.\<close>

definition usage :: "byte list \<Rightarrow> byte list" where
  "usage argv0 =
     text_bytes ''Simple Router Client'' @ [10]
     @ text_bytes ''Format: '' @ cstr argv0 @ text_bytes '' [-h] [-v host] [-s server] [-p port] '' @ [10]
     @ text_bytes ''           [-T template_name] [-u username] '' @ [10]
     @ text_bytes ''           [-t topo id] [-r routing table] '' @ [10]
     @ text_bytes ''           [-l log file] '' @ [10]
     @ text_bytes ''   defaults server=localhost port=8888 host=vrhost  '' @ [10]"

section \<open>What is printed\<close>

text \<open>A packet can be printed whatever it holds: no header is read that is not inside the packet.\<close>

lemma print_hdrs_in_bounds:
  assumes "unat len \<le> length buf"
  shows "\<exists>out. print_hdrs buf len = Inr out"
proof -
  have "\<not> len < 14 \<Longrightarrow> 14 \<le> length buf" "\<not> len < 34 \<Longrightarrow> 34 \<le> length buf" "\<not> len < 38 \<Longrightarrow> 38 \<le> length buf"
    "\<not> len < 42 \<Longrightarrow> 42 \<le> length buf"
    using assms by (simp_all add: word_less_nat_alt)
  then show ?thesis
    by (auto simp: print_hdrs_def print_hdr_eth_def print_hdr_ip_def print_hdr_icmp_def print_hdr_arp_def Let_def)
qed

text \<open>Both functions for IP addresses print the dotted address.\<close>

lemma fmt_d_byte: "fmt_d (unat (b :: byte)) = dec b"
proof -
  have "unat b < 10 * 100" by (rule order_less_le_trans [OF unsigned_less]) simp
  then have "unat b div 100 < 10" by (rule less_mult_imp_div_less)
  moreover have "unat b div 10 < 10 \<longleftrightarrow> unat b < 100" by (simp add: div_less_iff_less_mult)
  ultimately show ?thesis
    by (simp add: dec_def Let_def fmt_d.simps [of "unat b"] fmt_d.simps [of "unat b div 10"]
        fmt_d.simps [of "unat b div 100"] flip: div_mult2_eq)
qed

lemma print_addr_ip_dotted: "print_addr_ip a = Inr (inet_ntoa a @ [10])"
  using inet_ntoa_text(3) [of a] by (simp add: print_addr_ip_def)

lemma print_addr_ip_int_dotted: "print_addr_ip_int (ntohl a) = inet_ntoa a @ [10]"
proof -
  have "drop_bit 24 (ntohl a) = ucast (st32 a ! 0)" "drop_bit 24 (push_bit 8 (ntohl a)) = ucast (st32 a ! 1)"
    "drop_bit 24 (push_bit 16 (ntohl a)) = ucast (st32 a ! 2)" "drop_bit 24 (push_bit 24 (ntohl a)) = ucast (st32 a ! 3)"
    by (rule bit_word_eqI; auto simp: bswap32_def st32_def u32_at_def bit_simps)+
  moreover have "unat (ucast b :: u32) = unat b" for b :: byte by (simp add: unsigned_ucast_eq take_bit_nat_eq_self order_less_trans [OF unsigned_less])
  ultimately show ?thesis by (simp add: print_addr_ip_int_def fmt_d_byte inet_ntoa_def Let_def)
qed

end
