(* ===== verification/Server.thy ===== *)
theory Server
  imports Router Receiving Sha1 Printing
begin

text \<open>
  The connection with the virtual network server, \<^verbatim>\<open>src/sr_vns_comm.c\<close>: authentication, the messages that
  describe the hardware and the routing table, and the dispatch of what the server sends. Sending
  a packet is in \<open>Sending\<close>.

  \<open>conn\<close> is the state of the process: the router, the input that is still to come, the files in the working
  directory, and whether the socket was closed. \<open>os\<close> is what the operating system decides during one command, and
  \<open>ticks\<close> the rounds of the timeout thread that it schedules before the next command. A result is
  \<open>None\<close> when the code never returns, a fault, or the return value with the new state. A string that
  the code reads by \<^verbatim>\<open>%s\<close> or \<^verbatim>\<open>strcat\<close> must end inside the message; otherwise the read leaves the buffer.
\<close>

record conn =
  inst :: sr_instance
  input :: "net_event list"
  files :: "byte list \<Rightarrow> byte list option"
  closed :: bool

record os =
  proc :: env
  fresh_if :: "nat \<Rightarrow> sr_if"
  may_write :: "byte list \<Rightarrow> bool"
  resolves :: "byte list \<Rightarrow> bool"
  socket_ret :: int
  connect_ret :: int
  ticks :: "env list"

section \<open>Handlers\<close>

definition hw_entry_loop :: "os \<Rightarrow> sr_instance \<Rightarrow> nat \<times> c_hw_entry \<Rightarrow> sr_instance res" where
  "hw_entry_loop os sr = (\<lambda>(i, e).
     let key = ntohl (mKey e); v = list_of (hw_value e) in
     if key = HWINTERFACE then Inr (sr_add_interface (fresh_if os i) sr v)
     else if key = HWETHIP then sr_set_ether_ip sr (u32_at 0 v)
     else if key = HWETHER then sr_set_ether_addr sr (arr_at 0 v)
     else Inr sr)"

text \<open>The entries are read from the array \<^verbatim>\<open>mHWInfo\<close>, which is declared with \<^verbatim>\<open>MAXHWENTRIES\<close> elements, and the interfaces are printed.\<close>

definition sr_handle_hwinfo :: "os \<Rightarrow> sr_instance \<Rightarrow> byte list \<Rightarrow> (int \<times> sr_instance) res" where
  "sr_handle_hwinfo os sr hwinfo =
     (let num_entries = sint (ucast ((ucast (ntohl (mLen (rd_base (seg 0 8 hwinfo)))) - 8 :: 64 word) div 36) :: u32);
          n = nat num_entries in
      bnd (guard Oob_access (n \<le> MAXHWENTRIES \<and> 8 + 36 * n \<le> length hwinfo)) (\<lambda>_.
      bnd (each (hw_entry_loop os) sr (map (\<lambda>i. (i, rd_hw_entry (seg (8 + 36 * i) 36 hwinfo))) [0..<n])) (\<lambda>sr1.
      bnd (sr_print_if_list sr1) (\<lambda>_.
      Inr (num_entries, sr1)))))"

definition sr_handle_rtable :: "os \<Rightarrow> conn \<Rightarrow> byte list \<Rightarrow> (bool \<times> conn) res" where
  "sr_handle_rtable os c rtable =
     bnd (read_str (drop 8 rtable)) (\<lambda>id.
     bnd (guard Oob_access (length id \<le> IDSIZE)) (\<lambda>_.
     let fn = text_bytes ''rtable.'' @ id in
     if may_write os fn then
       let n = ntohl (mLen (rd_base (seg 0 8 rtable))) - 8 - 32 in
       bnd (guard Oob_access (40 + unat n \<le> length rtable)) (\<lambda>_.
       Inr (True, c\<lparr>files := (files c)(fn \<mapsto> seg 40 (unat n) rtable)\<rparr>))
     else Inr (False, c)))"

abbreviation (input) AUTH_KEY_LEN :: nat where "AUTH_KEY_LEN \<equiv> 64"
abbreviation (input) SHA1_LEN :: nat where "SHA1_LEN \<equiv> 20"

text \<open>The array \<^verbatim>\<open>auth_key\<close> after \<^verbatim>\<open>fgets\<close>: the line, its terminator, and what was on the stack.\<close>

definition key_array :: "os \<Rightarrow> byte list \<Rightarrow> byte list" where
  "key_array os line = blit 0 (line @ [0]) (malloc (junk (proc os)) (AUTH_KEY_LEN + 1))"

text \<open>The context on the stack before it is reset.\<close>

definition stack_context :: "os \<Rightarrow> SHA1Context" where
  "stack_context os = blank_context\<lparr>Message_Block := malloc (junk (proc os)) 64\<rparr>"

definition auth_reply_buf :: "byte list \<Rightarrow> SHA1Context \<Rightarrow> byte list" where
  "auth_reply_buf uname sha =
     (let len = 12 + length uname + SHA1_LEN in
      wr_auth_reply \<lparr> mLen = htonl (of_nat len), mType = htonl VNS_AUTH_REPLY, usernameLen = htonl (of_nat (length uname)) \<rparr>
      @ uname @ concat (map (\<lambda>w. st32 (htonl w)) (Message_Digest sha)))"

definition sr_handle_auth_request :: "os \<Rightarrow> conn \<Rightarrow> byte list \<Rightarrow> (bool \<times> conn) res" where
  "sr_handle_auth_request os c req =
     (case files c (text_bytes ''auth_key'') of
        None \<Rightarrow> Inr (False, c)
      | Some f \<Rightarrow>
        if f = [] then Inr (False, c)
        else
          let auth_key = key_array os (fgets (AUTH_KEY_LEN + 1) f);
              sha = SHA1Reset (stack_context os) in
          bnd (SHA1Input sha (drop 8 req) (ntohl (mLen (rd_base (seg 0 8 req))) - 8)) (\<lambda>sha.
          bnd (SHA1Input sha auth_key 64) (\<lambda>sha.
          bnd (SHA1Result sha) (\<lambda>(ok, sha).
          if \<not> ok then Inr (False, c)
          else
            bnd (read_str (list_of (user (inst c)))) (\<lambda>uname.
            let buf = auth_reply_buf uname sha;
                c1 = c\<lparr>inst := (inst c)\<lparr>sock_out := sock_out (inst c) @ [buf]\<rparr>\<rparr> in
            Inr (write_ret (proc os) buf = int (length buf), c1))))))"

definition sr_handle_auth_status :: "sr_instance \<Rightarrow> byte list \<Rightarrow> bool res" where
  "sr_handle_auth_status sr status =
     bnd (guard Oob_access (9 \<le> length status)) (\<lambda>_.
     bnd (read_str (list_of (user sr))) (\<lambda>_.
     if auth_ok (rd_auth_status (seg 0 9 status)) \<noteq> 0 then Inr True
     else bnd (read_str (drop 9 status)) (\<lambda>_. Inr False)))"

definition sr_arp_req_not_for_us :: "sr_instance \<Rightarrow> byte list \<Rightarrow> u32 \<Rightarrow> byte list \<Rightarrow> bool res" where
  "sr_arp_req_not_for_us sr packet len interface =
     (let iface = sr_get_interface sr interface in
      if unat len < 14 + 28 then Inr False
      else case iface of None \<Rightarrow> Inl Assert_fail
      | Some iface \<Rightarrow>
        bnd (guard Oob_access (42 \<le> length packet)) (\<lambda>_.
        Inr (ether_type (eth_at 0 packet) = htons ethertype_arp \<and> ar_op (arp_at 14 packet) = htons arp_op_request
          \<and> ar_tip (arp_at 14 packet) \<noteq> if_ip iface)))"

section \<open>One command\<close>

text \<open>Reading a command: its length, then the rest of it into a buffer of that length.\<close>

definition read_command :: "conn \<Rightarrow> (byte list option \<times> conn) res option" where
  "read_command c =
     (case recv_loop 4 [] (input c) of
        None \<Rightarrow> None
      | Some (None, es) \<Rightarrow> Some (Inr (None, c\<lparr>input := es\<rparr>))
      | Some (Some b, es) \<Rightarrow>
        let len = sint (ntohl (u32_at 0 b)) in
        if len > 10000 \<or> len < 0 then Some (Inr (None, c\<lparr>input := es, closed := True\<rparr>))
        else if len < 4 then Some (Inl Oob_access)
        else
          (case recv_loop (nat len - 4) [] es of
             None \<Rightarrow> None
           | Some (None, es') \<Rightarrow> Some (Inr (None, c\<lparr>input := es', closed := True\<rparr>))
           | Some (Some body, es') \<Rightarrow> Some (Inr (Some (st32 (htonl (of_int len)) @ body), c\<lparr>input := es'\<rparr>))))"

text \<open>
  A packet from the server. The interface name is the string that starts at the ninth byte; it is
  compared and copied with a bound of 32 bytes. The model asks for a terminator or that many bytes also where the
  comparison would stop at an earlier difference.
\<close>

definition vns_packet :: "nat \<Rightarrow> os \<Rightarrow> sr_instance \<Rightarrow> byte list \<Rightarrow> sr_instance res" where
  "vns_packet fuel os sr buf =
     (let len = of_nat (length buf) - 38 + 14; packet = drop 24 buf; interface = drop 8 buf in
      bnd (guard Oob_access (0 \<in> set interface \<or> 32 \<le> length interface)) (\<lambda>_.
      bnd (sr_arp_req_not_for_us sr packet len interface) (\<lambda>drop_it.
      if drop_it then Inr sr
      else
        bnd (sr_log_packet (tv (proc os)) sr packet (sint (ntohl (mLen (rd_base (seg 0 8 buf))) - 24))) (\<lambda>sr1.
        sr_handlepacket fuel (proc os) sr1 packet len interface))))"

definition dispatch :: "nat \<Rightarrow> os \<Rightarrow> conn \<Rightarrow> u32 \<Rightarrow> byte list \<Rightarrow> (int \<times> conn) res" where
  "dispatch fuel os c command buf =
     (if command = VNSPACKET then
        bnd (vns_packet fuel os (inst c) buf) (\<lambda>sr. Inr (1, c\<lparr>inst := sr\<rparr>))
      else if command = VNSCLOSE then bnd (read_str (drop 8 buf)) (\<lambda>_. Inr (0, c))
      else if command = VNSBANNER then bnd (read_str (drop 8 buf)) (\<lambda>_. Inr (1, c))
      else if command = VNSHWINFO then
        bnd (sr_handle_hwinfo os (inst c) buf) (\<lambda>(_, sr).
        Inr (if sr_verify_routing_table sr \<noteq> 0 then - 1 else 1, c\<lparr>inst := sr\<rparr>))
      else if command = VNS_RTABLE then
        bnd (sr_handle_rtable os c buf) (\<lambda>(ok, c). Inr (if ok then 1 else - 1, c))
      else if command = VNS_AUTH_REQUEST then
        bnd (sr_handle_auth_request os c buf) (\<lambda>(ok, c). Inr (if ok then 1 else - 1, c))
      else if command = VNS_AUTH_STATUS then
        bnd (sr_handle_auth_status (inst c) buf) (\<lambda>ok. Inr (if ok then 1 else - 1, c))
      else Inr (1, c))"

text \<open>The type of the command is stored back in host byte order.\<close>

definition sr_read_from_server_expect :: "nat \<Rightarrow> os \<Rightarrow> conn \<Rightarrow> u32 \<Rightarrow> (int \<times> conn) res option" where
  "sr_read_from_server_expect fuel os c expected_cmd =
     (case read_command c of
        None \<Rightarrow> None
      | Some (Inl e) \<Rightarrow> Some (Inl e)
      | Some (Inr (None, c)) \<Rightarrow> Some (Inr (- 1, c))
      | Some (Inr (Some buf, c)) \<Rightarrow> Some (
          bnd (guard Oob_access (8 \<le> length buf)) (\<lambda>_.
          let command = ntohl (u32_at 4 buf);
              buf = blit 4 (st32 command) buf in
          if expected_cmd \<noteq> 0 \<and> command \<noteq> expected_cmd \<and> command \<noteq> VNSCLOSE then Inr (- 1, c)
          else dispatch fuel os c command buf)))"

definition sr_read_from_server :: "nat \<Rightarrow> os \<Rightarrow> conn \<Rightarrow> (int \<times> conn) res option" where
  "sr_read_from_server fuel os c = sr_read_from_server_expect fuel os c 0"

section \<open>Opening the session\<close>

definition open_msg :: "sr_instance \<Rightarrow> byte list" where
  "open_msg sr = wr_open \<lparr> mLen = htonl 108, mType = htonl VNSOPEN, topoID = htons (topo_id sr), pad = 0,
     mVirtualHostID = strncpy (list_of (host sr)), mUID = strncpy (list_of (user sr)), mPass = barr_of [] \<rparr>"

definition open_template_msg :: "sr_instance \<Rightarrow> byte list" where
  "open_template_msg sr = wr_open_template \<lparr> mLen = htonl 70, mType = htonl VNS_OPEN_TEMPLATE,
     templateName = strncpy (list_of (template sr)), ot_mVirtualHostID = strncpy (list_of (host sr)) \<rparr>"

text \<open>Sequencing of steps that may never return: a step must return 1 for the next to be taken.\<close>

definition and_then :: "(int \<times> conn) res option \<Rightarrow> (conn \<Rightarrow> (int \<times> conn) res option) \<Rightarrow> (int \<times> conn) res option" where
  "and_then m f =
     (case m of
        None \<Rightarrow> None
      | Some (Inl e) \<Rightarrow> Some (Inl e)
      | Some (Inr (r, c)) \<Rightarrow> if r \<noteq> 1 then Some (Inr (- 1, c)) else f c)"

definition sr_connect_to_server :: "nat \<Rightarrow> (nat \<Rightarrow> os) \<Rightarrow> conn \<Rightarrow> byte list \<Rightarrow> (int \<times> conn) res option" where
  "sr_connect_to_server fuel os c server =
     (if \<not> resolves (os 0) server then Some (Inr (- 1, c))
      else
        let c = c\<lparr>inst := (inst c)\<lparr>sockfd := socket_ret (os 0)\<rparr>\<rparr> in
        if socket_ret (os 0) < 0 then Some (Inr (- 1, c))
        else if connect_ret (os 0) < 0 then Some (Inr (- 1, c\<lparr>closed := True\<rparr>))
        else
          and_then (sr_read_from_server_expect fuel (os 0) c VNS_AUTH_REQUEST) (\<lambda>c.
          and_then (sr_read_from_server_expect fuel (os 1) c VNS_AUTH_STATUS) (\<lambda>c.
          let templated = (cstr (list_of (template (inst c))) \<noteq> []);
              buf = (if templated then open_template_msg (inst c) else open_msg (inst c));
              c = c\<lparr>inst := (inst c)\<lparr>sock_out := sock_out (inst c) @ [buf]\<rparr>\<rparr> in
          if write_ret (proc (os 2)) buf \<noteq> int (length buf) then Some (Inr (- 1, c))
          else if templated then
            and_then (sr_read_from_server_expect fuel (os 2) c VNS_RTABLE) (\<lambda>c. Some (Inr (0, c)))
          else Some (Inr (0, c)))))"

end
