(* ===== verification/Session.thy ===== *)
theory Session
  imports Server
begin

text \<open>
  What the connection with the server does. The socket is a source of bytes (locale \<open>byte_source\<close>), so commands
  come out whole however TCP cuts them; a command of each kind has the effect its sender means: a packet reaches the
  handler with its frame and interface, an authentication request is answered with the salted digest of
  the key, an announced interface is configured, a routing table is written to its file.
\<close>

section \<open>Messages in the stream\<close>

text \<open>A source of bytes from which exact numbers of bytes can be read; a message with a header of known length comes out whole.\<close>

locale byte_source =
  fixes read_bytes :: "nat \<Rightarrow> 's \<Rightarrow> (byte list option \<times> 's) option" and view :: "'s \<Rightarrow> byte list"
  assumes read_bytes: "k \<le> length (view s) \<Longrightarrow>
    \<exists>s'. read_bytes k s = Some (Some (take k (view s)), s') \<and> view s' = drop k (view s)"
begin

lemma framed:
  assumes "view s = m @ rest" and "k \<le> length m"
  shows "\<exists>s1 s2. read_bytes k s = Some (Some (take k m), s1)
    \<and> read_bytes (length m - k) s1 = Some (Some (drop k m), s2) \<and> view s2 = rest"
proof -
  obtain s1 where s1: "read_bytes k s = Some (Some (take k m), s1)" "view s1 = drop k m @ rest"
    using read_bytes [of k s] assms by auto
  obtain s2 where "read_bytes (length m - k) s1 = Some (Some (drop k m), s2)" "view s2 = rest"
    using read_bytes [of "length m - k" s1] s1(2) by auto
  then show ?thesis using s1(1) by blast
qed

end

interpretation sock: byte_source "\<lambda>n. recv_loop n []" stream
  using recv_loop_stream [of "[]"] by unfold_locales simp

definition msg_ok :: "byte list \<Rightarrow> bool" where
  "msg_ok m \<longleftrightarrow> 8 \<le> length m \<and> length m \<le> 10000 \<and> u32_at 0 m = htonl (of_nat (length m))"

lemma unat_small: "n < 4294967296 \<Longrightarrow> unat (of_nat n :: u32) = n"
  by (simp add: unat_of_nat take_bit_nat_eq_self)

lemma sint_of_nat_small: "n < 2 ^ 31 \<Longrightarrow> sint (of_nat n :: u32) = int n"
  by (subst sint_small) (simp_all add: unat_small)

lemma read_command_msg:
  assumes "msg_ok m" and "stream (input c) = m @ rest"
  shows "\<exists>es. read_command c = Some (Inr (Some m, c\<lparr>input := es\<rparr>)) \<and> stream es = rest
    \<and> (Failed \<notin> set (input c) \<longrightarrow> Failed \<notin> set es)"
proof -
  have m: "8 \<le> length m" "length m \<le> 10000" "u32_at 0 m = htonl (of_nat (length m))"
    using assms(1) by (simp_all add: msg_ok_def)
  obtain s1 s2 where r: "recv_loop 4 [] (input c) = Some (Some (take 4 m), s1)"
    "recv_loop (length m - 4) [] s1 = Some (Some (drop 4 m), s2)" "stream s2 = rest"
    using sock.framed [OF assms(2), of 4] m(1) by auto
  have h: "u32_at 0 (take 4 m) = htonl (of_nat (length m))"
    using m by (simp add: u32_at_def)
  have s: "sint (of_nat (length m) :: u32) = int (length m)" using m(2) by (intro sint_of_nat_small) simp
  have "st32 (htonl (of_nat (length m))) = take 4 m"
    unfolding m(3) [symmetric] using m(1) by (subst seg_st32) (simp_all add: seg_def)
  then have whole: "st32 (htonl (of_nat (length m))) @ drop 4 m = m" by simp
  have "read_command c = Some (Inr (Some (st32 (htonl (of_nat (length m))) @ drop 4 m), c\<lparr>input := s2\<rparr>))"
    unfolding read_command_def r(1) option.case prod.case Let_def h bswap32_bswap32 s
    using m r(2) by simp
  moreover have "Failed \<notin> set (input c) \<longrightarrow> Failed \<notin> set s2"
    using recv_loop_no_failure [OF r(1)] recv_loop_no_failure [OF r(2)] by blast
  ultimately show ?thesis unfolding whole using r(3) by blast
qed

text \<open>A command as the dispatcher sees it: its type is in host byte order.\<close>

definition host_order :: "byte list \<Rightarrow> byte list" where
  "host_order m = blit 4 (st32 (ntohl (u32_at 4 m))) m"

abbreviation command_of :: "byte list \<Rightarrow> u32" where
  "command_of m \<equiv> ntohl (u32_at 4 m)"

lemma host_order_simps [simp]:
  "8 \<le> length m \<Longrightarrow> length (host_order m) = length m"
  "8 \<le> length m \<Longrightarrow> 8 \<le> k \<Longrightarrow> drop k (host_order m) = drop k m"
  "8 \<le> length m \<Longrightarrow> 8 \<le> k \<Longrightarrow> seg k n (host_order m) = seg k n m"
  by (auto simp: host_order_def blit_def seg_def)

lemma host_order_mLen:
  "msg_ok m \<Longrightarrow> mLen (rd_base (seg 0 8 (host_order m))) = htonl (of_nat (length m))"
proof -
  assume m: "msg_ok m"
  then have "u32_at 0 (seg 0 8 (host_order m)) = u32_at 0 m"
    by (simp add: msg_ok_def host_order_def seg_def blit_def u32_at_def nth_append)
  then show ?thesis using m by (simp add: rd_base_def msg_ok_def)
qed

lemma expect_msg:
  assumes "msg_ok m" and "stream (input c) = m @ rest"
  shows "\<exists>es. stream es = rest \<and> (Failed \<notin> set (input c) \<longrightarrow> Failed \<notin> set es) \<and> sr_read_from_server_expect fuel os c expected =
    Some (if expected \<noteq> 0 \<and> command_of m \<noteq> expected \<and> command_of m \<noteq> VNSCLOSE then Inr (- 1, c\<lparr>input := es\<rparr>)
      else dispatch fuel os (c\<lparr>input := es\<rparr>) (command_of m) (host_order m))"
proof -
  obtain es where es: "read_command c = Some (Inr (Some m, c\<lparr>input := es\<rparr>))" "stream es = rest"
    "Failed \<notin> set (input c) \<longrightarrow> Failed \<notin> set es"
    using read_command_msg [OF assms] by blast
  have "8 \<le> length m" using assms(1) by (simp add: msg_ok_def)
  then have "sr_read_from_server_expect fuel os c expected =
    Some (if expected \<noteq> 0 \<and> command_of m \<noteq> expected \<and> command_of m \<noteq> VNSCLOSE then Inr (- 1, c\<lparr>input := es\<rparr>)
      else dispatch fuel os (c\<lparr>input := es\<rparr>) (command_of m) (host_order m))"
    by (simp add: sr_read_from_server_expect_def es(1) host_order_def Let_def)
  then show ?thesis using es(2,3) by blast
qed

text \<open>The server hangs up inside a command: the loop never ends.\<close>

lemma expect_closed:
  assumes "Failed \<notin> set (input c)" and "length (stream (input c)) < 4"
  shows "sr_read_from_server_expect fuel os c expected = None"
  using recv_loop_closed [OF assms(1), of "[]" 4] assms(2) by (simp add: sr_read_from_server_expect_def read_command_def)

section \<open>Packets\<close>

text \<open>Only the string of the interface name matters, up to 32 bytes.\<close>

lemma get_interface_strneq: "strneq 32 a b \<Longrightarrow> sr_get_interface sr a = sr_get_interface sr b"
  unfolding sr_get_interface_def by (rule if_walk_cong)

lemma strncpy_strneq:
  assumes "strneq 32 a b" and "LENGTH('n) \<le> 32"
  shows "(strncpy a :: ('n::len) barr) = strncpy b"
proof -
  have "take 32 (cstr a) = take 32 (cstr b)" using assms(1) by (simp add: strneq_def cstr_take)
  then have "take LENGTH('n) (take 32 (cstr a)) = take LENGTH('n) (take 32 (cstr b))" by (rule arg_cong)
  then have "take LENGTH('n) (cstr a) = take LENGTH('n) (cstr b)" using assms(2) by (simp add: min_absorb1)
  moreover have "strncpy s = (barr_of (take LENGTH('n) (cstr s)) :: 'n barr)" for s
    by (simp add: strncpy_def barr_of_def min_def)
  ultimately show ?thesis by simp
qed


lemma send_packet_strneq:
  assumes "strneq 32 a b"
  shows "sr_send_packet env sr buf len a = sr_send_packet env sr buf len b"
proof -
  have eq: "(strncpy a :: 16 barr) = strncpy b" by (rule strncpy_strneq [OF assms]) simp
  show ?thesis
    unfolding sr_send_packet_def sr_ether_addrs_match_interface_def get_interface_strneq [OF assms] eq ..
qed

lemma queuereq_strneq:
  assumes "strneq 32 a b"
  shows "sr_arpcache_queuereq c ip (Some buf) len (Some a) = sr_arpcache_queuereq c ip (Some buf) len (Some b)"
proof -
  have eq: "(strncpy a :: 32 barr) = strncpy b" by (rule strncpy_strneq [OF assms]) simp
  show ?thesis unfolding sr_arpcache_queuereq_def new_pkt_def option.case prod.case eq ..
qed

lemma transmit_strneq:
  assumes "strneq 32 a b"
  shows "transmit fuel env sr ip buf len a = transmit fuel env sr ip buf len b"
  unfolding transmit_def send_packet_strneq [OF assms] queuereq_strneq [OF assms] ..

lemma handlepacket_strneq:
  assumes "strneq 32 a b"
  shows "sr_handlepacket fuel env sr packet len a = sr_handlepacket fuel env sr packet len b"
proof -
  note eqs = get_interface_strneq [OF assms] transmit_strneq [OF assms] send_packet_strneq [OF assms]
  show ?thesis
    unfolding sr_handlepacket_def handle_ip_def ip_local_def ip_forward_def handle_arp_def arp_answer_def port_unreachable_def
      time_exceeded_def net_unreachable_def eqs ..
qed

text \<open>An ARP request that asks for another address than that of the receiving interface.\<close>

definition arp_for_other :: "sr_if \<Rightarrow> byte list \<Rightarrow> bool" where
  "arp_for_other i frame \<longleftrightarrow> 42 \<le> length frame \<and> ether_type (eth_at 0 frame) = htons ethertype_arp
     \<and> ar_op (arp_at 14 frame) = htons arp_op_request \<and> ar_tip (arp_at 14 frame) \<noteq> if_ip i"

lemma vns_frame_parts:
  assumes "length frame + 24 \<le> 10000"
  shows "length (vns_frame name frame) = length frame + 24"
    and "msg_ok (vns_frame name frame)" and "command_of (vns_frame name frame) = VNSPACKET"
    and "drop 24 (vns_frame name frame) = frame" and "drop 8 (vns_frame name frame) = list_of (strncpy name :: 16 barr) @ frame"
proof -
  show l: "length (vns_frame name frame) = length frame + 24" by (simp add: vns_frame_def)
  have "u32_at 0 (vns_frame name frame) = htonl (of_nat (length frame) + 24)"
    by (simp add: vns_frame_def wr_packet_header_def wire_simps)
  then show "msg_ok (vns_frame name frame)" using assms l by (simp add: msg_ok_def)
  show "command_of (vns_frame name frame) = VNSPACKET"
    by (simp add: vns_frame_def wr_packet_header_def wire_simps)
  show "drop 24 (vns_frame name frame) = frame" "drop 8 (vns_frame name frame) = list_of (strncpy name :: 16 barr) @ frame"
    by (simp_all add: vns_frame_def wr_packet_header_def)
qed

lemma vns_packet_frame:
  assumes len: "length frame + 24 \<le> 10000" and name: "length (cstr name) < 16"
    and i: "sr_get_interface sr name = Some i"
  shows "vns_packet fuel os sr (host_order (vns_frame name frame)) =
    (if arp_for_other i frame then Inr sr
     else bnd (sr_log_packet (tv (proc os)) sr frame (int (length frame))) (\<lambda>sr1.
       sr_handlepacket fuel (proc os) sr1 frame (of_nat (length frame)) name))"
proof -
  let ?m = "vns_frame name frame" and ?n = "list_of (strncpy name :: 16 barr) @ frame"
  note parts = vns_frame_parts [OF len, of name]
  have l8: "8 \<le> length ?m" using parts(1) by simp
  have zero: "0 \<in> set (list_of (strncpy name :: 16 barr))"
    using name by (simp add: strncpy_def list_of_barr_of)
  have "cstr ?n = cstr (list_of (strncpy name :: 16 barr))"
    using zero by (simp add: cstr_def takeWhile_append1)
  also have "\<dots> = cstr name" using name by (simp add: cstr_strncpy cstr_take)
  finally have n: "strneq 32 ?n name" by (simp only: strneq_def cstr_take)
  have L: "of_nat (length ?m) - 38 + 14 = (of_nat (length frame) :: u32)" using parts(1) by simp
  have u: "unat (of_nat (length frame) :: u32) = length frame" using len by (simp add: unat_small)
  have s: "sint (of_nat (length frame) :: u32) = int (length frame)" using len by (intro sint_of_nat_small) simp
  show ?thesis
    unfolding vns_packet_def Let_def host_order_mLen [OF parts(2)]
    using l8 zero parts i
    by (simp add: L u s sr_arp_req_not_for_us_def get_interface_strneq [OF n] handlepacket_strneq [OF n] arp_for_other_def)
qed

lemma dispatch_frame:
  assumes "14 \<le> length frame" and "length frame + 24 \<le> 10000" and "length (cstr name) < 16"
    and "sr_get_interface (inst c) name = Some i"
  shows "\<exists>log. dispatch fuel os c VNSPACKET (host_order (vns_frame name frame)) =
    (if arp_for_other i frame then Inr (1, c)
     else bnd (sr_handlepacket fuel (proc os) ((inst c)\<lparr>logfile := log\<rparr>) frame (of_nat (length frame)) name) (\<lambda>sr.
       Inr (1, c\<lparr>inst := sr\<rparr>)))"
proof -
  have l: "frame_ok frame (of_nat (length frame))" "sint (of_nat (length frame) :: u32) = int (length frame)"
    using assms(1,2) by (auto simp: frame_ok_def unat_small intro!: sint_of_nat_small)
  obtain log where "sr_log_packet (tv (proc os)) (inst c) frame (int (length frame)) = Inr ((inst c)\<lparr>logfile := log\<rparr>)"
    using send_packet_steps [OF l(1), of "proc os" "inst c"] l(2) by auto
  then show ?thesis
    by (intro exI [of _ log]) (simp add: dispatch_def vns_packet_frame [OF assms(2-4)] bnd_assoc)
qed

section \<open>Authentication\<close>

definition vns_msg :: "u32 \<Rightarrow> byte list \<Rightarrow> byte list" where
  "vns_msg t body = wr_base \<lparr> mLen = htonl (of_nat (8 + length body)), mType = htonl t \<rparr> @ body"

lemma vns_msg_parts:
  shows "length (vns_msg t body) = 8 + length body" and "8 + length body \<le> 10000 \<Longrightarrow> msg_ok (vns_msg t body)"
    and "command_of (vns_msg t body) = t" and "drop 8 (vns_msg t body) = body"
    and "8 \<le> k \<Longrightarrow> seg k n (vns_msg t body) = seg (k - 8) n body"
proof -
  show l: "length (vns_msg t body) = 8 + length body" by (simp add: vns_msg_def)
  have "u32_at 0 (vns_msg t body) = htonl (of_nat (8 + length body))"
    by (simp only: vns_msg_def wr_base_def c_base.simps append_assoc u32_at_st32)
  then show "8 + length body \<le> 10000 \<Longrightarrow> msg_ok (vns_msg t body)" using l by (simp add: msg_ok_def)
  show "command_of (vns_msg t body) = t"
    by (simp add: vns_msg_def wr_base_def wire_simps)
  show "drop 8 (vns_msg t body) = body" by (simp add: vns_msg_def)
  show "8 \<le> k \<Longrightarrow> seg k n (vns_msg t body) = seg (k - 8) n body" by (simp add: vns_msg_def seg_def)
qed

text \<open>The reply: the length of the name, the name and the digest, most significant byte first.\<close>

definition digest_bytes :: "regs \<Rightarrow> byte list" where
  "digest_bytes = (\<lambda>(a, b, c, d, e). concat (map (\<lambda>w. st32 (htonl w)) [a, b, c, d, e]))"

definition auth_reply_msg :: "byte list \<Rightarrow> regs \<Rightarrow> byte list" where
  "auth_reply_msg uname d = vns_msg VNS_AUTH_REPLY (st32 (htonl (of_nat (length uname))) @ uname @ digest_bytes d)"

lemma length_digest_bytes [simp]: "length (digest_bytes d) = 20"
  by (cases d) (simp add: digest_bytes_def)

lemma length_Message_Digest: "length (Message_Digest (SHA1ProcessMessageBlock c)) = 5"
  by (simp add: SHA1ProcessMessageBlock_def Let_def case_prod_unfold)

lemma pad_length: "SHA1PadMessage c = Inr c' \<Longrightarrow> length (Message_Digest c') = 5"
  by (auto simp: SHA1PadMessage_def last_block_def Let_def length_Message_Digest)

lemma digest_words: "length (Message_Digest c) = 5 \<Longrightarrow> concat (map (\<lambda>w. st32 (htonl w)) (Message_Digest c)) = digest_bytes (digest c)"
  by (cases "Message_Digest c") (auto simp: digest_bytes_def digest_def Let_def length_Suc_conv numeral_eq_Suc)

lemma auth_reply_buf_eq:
  "length (Message_Digest c) = 5 \<Longrightarrow> auth_reply_buf uname c = auth_reply_msg uname (digest c)"
  by (simp add: auth_reply_buf_def auth_reply_msg_def vns_msg_def wr_base_def wr_auth_reply_def digest_words Let_def add_ac)

text \<open>Whatever the request holds, at most one answer is sent, and it has this form.\<close>

lemma input_computed: "SHA1Input c m n = Inr c' \<Longrightarrow> Computed c' = Computed c"
proof -
  have block: "Computed (SHA1ProcessMessageBlock c) = Computed c" for c
    by (simp add: SHA1ProcessMessageBlock_def Let_def case_prod_unfold)
  have byte: "input_byte c b = Inr c' \<Longrightarrow> Computed c' = Computed c" for c b c'
    by (clarsimp simp: input_byte_def store_byte_def Let_def block split: if_splits)
  have loop: "input_loop k c bs = Inr c' \<Longrightarrow> Computed c' = Computed c" for k c bs c'
    by (induction k arbitrary: c bs) (auto split: if_splits list.splits dest: byte)
  show "SHA1Input c m n = Inr c' \<Longrightarrow> Computed c' = Computed c"
    by (auto simp: SHA1Input_def split: if_splits dest: loop)
qed

lemma result_length: "SHA1Result c = Inr (True, c') \<Longrightarrow> \<not> Computed c \<Longrightarrow> length (Message_Digest c') = 5"
  by (auto simp: SHA1Result_def pad_length split: if_splits)

lemma auth_request_sends:
  assumes "sr_handle_auth_request os c m = Inr (ok, c')"
  shows "inst c' = inst c
    \<or> (\<exists>u d. length u \<le> 32 \<and> inst c' = (inst c)\<lparr>sock_out := sock_out (inst c) @ [auth_reply_msg u d]\<rparr>)"
proof (cases "inst c' = inst c")
  case False
  obtain f where f: "files c (text_bytes ''auth_key'') = Some f" "f \<noteq> []"
    using assms False by (auto simp: sr_handle_auth_request_def split: option.splits if_splits)
  let ?key = "key_array os (fgets (AUTH_KEY_LEN + 1) f)" and ?n = "ntohl (mLen (rd_base (seg 0 8 m))) - 8"
  define finish where "finish = (\<lambda>(ok, sha). if \<not> ok then Inr (False, c)
    else bnd (read_str (list_of (user (inst c)))) (\<lambda>uname.
      Inr (write_ret (proc os) (auth_reply_buf uname sha) = int (length (auth_reply_buf uname sha)),
        c\<lparr>inst := (inst c)\<lparr>sock_out := sock_out (inst c) @ [auth_reply_buf uname sha]\<rparr>\<rparr>)))"
  have "bnd (SHA1Input (SHA1Reset (stack_context os)) (drop 8 m) ?n) (\<lambda>sha.
      bnd (SHA1Input sha ?key 64) (\<lambda>sha. bnd (SHA1Result sha) finish)) = Inr (ok, c')"
    using assms f(2) unfolding sr_handle_auth_request_def f(1) option.case Let_def finish_def by (simp only: if_False)
  then obtain s1 s2 p where in1: "SHA1Input (SHA1Reset (stack_context os)) (drop 8 m) ?n = Inr s1"
    and in2: "SHA1Input s1 ?key 64 = Inr s2" and res: "SHA1Result s2 = Inr p" and rest: "finish p = Inr (ok, c')"
    unfolding bnd_eq_Inr by blast
  obtain r s3 where p: "p = (r, s3)" by (cases p)
  note res = res [unfolded p] and rest = rest [unfolded p finish_def prod.case]
  have r: r using rest False by (cases r) auto
  have out: "inst c' = (inst c)\<lparr>sock_out := sock_out (inst c) @ [auth_reply_buf (cstr (list_of (user (inst c)))) s3]\<rparr>"
    using rest r by (auto simp: read_str_def)
  note res = res [unfolded eqTrueI [OF r]]
  have "\<not> Computed s2" using input_computed [OF in1] input_computed [OF in2] by (simp add: SHA1Reset_def)
  then have "length (Message_Digest s3) = 5" using res by (intro result_length)
  note out = out [unfolded auth_reply_buf_eq [OF this]]
  have "length (cstr (list_of (user (inst c)))) \<le> 32"
    using length_takeWhile_le [of _ "list_of (user (inst c))"] by (simp add: cstr_def)
  then show ?thesis using out by blast
qed simp

lemma fgets_key:
  assumes "length key = 64" and "10 \<notin> set key"
  shows "fgets 65 (key @ rest) = key"
proof -
  have "takeWhile (\<lambda>b. b \<noteq> 10) (key @ rest) = key @ takeWhile (\<lambda>b. b \<noteq> 10) rest"
    using assms(2) by (subst takeWhile_append2) auto
  then show ?thesis using assms(1) by (simp add: fgets_def Let_def)
qed

lemma sha1_of_two:
  assumes "length salt < 10000" and "length key = 64"
  shows "\<exists>c1 c2 c3. SHA1Input (SHA1Reset (stack_context os)) salt (of_nat (length salt)) = Inr c1
    \<and> SHA1Input c1 (key_array os key) 64 = Inr c2 \<and> SHA1Result c2 = Inr (True, c3)
    \<and> digest c3 = sha1 (salt @ key) \<and> length (Message_Digest c3) = 5"
proof -
  have u: "unat (of_nat (length salt) :: u32) = length salt" using assms(1) by (simp add: unat_small)
  have r: "absorbed (SHA1Reset (stack_context os)) []"
    by (rule absorbed_reset) (simp add: stack_context_def)
  obtain c1 where c1: "SHA1Input (SHA1Reset (stack_context os)) salt (of_nat (length salt)) = Inr c1" "absorbed c1 salt"
    using SHA1Input_absorbed [OF r, of "of_nat (length salt)" salt] u assms(1) by auto
  have k: "take 64 (key_array os key) = key" "length (key_array os key) = 65"
    using assms(2) by (simp_all add: key_array_def blit_def)
  obtain c2 where c2: "SHA1Input c1 (key_array os key) 64 = Inr c2" "absorbed c2 (salt @ key)"
    using SHA1Input_absorbed [OF c1(2), of 64 "key_array os key"] k assms(1) by auto
  obtain c3 where c3: "SHA1Result c2 = Inr (True, c3)" "digest c3 = sha1 (salt @ key)"
    using SHA1Result_digest [OF c2(2)] by auto
  have "\<not> Corrupted c2" "\<not> Computed c2" using c2(2) by (auto simp: absorbed_def holds_def)
  then have "length (Message_Digest c3) = 5"
    using c3(1) pad_length [of c2] by (auto simp: SHA1Result_def)
  then show ?thesis using c1 c2 c3 by blast
qed

lemma handle_auth_request:
  assumes "length salt + 8 \<le> 10000" and "files c (text_bytes ''auth_key'') = Some (key @ rest)"
    and "length key = 64" and "10 \<notin> set key" and "0 \<in> set (list_of (user (inst c)))"
    and "reply = auth_reply_msg (cstr (list_of (user (inst c)))) (sha1 (salt @ key))"
  shows "sr_handle_auth_request os c (host_order (vns_msg VNS_AUTH_REQUEST salt)) =
    Inr (write_ret (proc os) reply = int (length reply), c\<lparr>inst := (inst c)\<lparr>sock_out := sock_out (inst c) @ [reply]\<rparr>\<rparr>)"
proof -
  let ?m = "vns_msg VNS_AUTH_REQUEST salt"
  have ok: "msg_ok ?m" and len: "8 \<le> length ?m" using assms(1) by (simp_all add: vns_msg_parts)
  have f: "fgets 65 (key @ rest) = key" using assms by (simp add: fgets_key)
  have n: "ntohl (mLen (rd_base (seg 0 8 (host_order ?m)))) - 8 = of_nat (length salt)"
    by (simp add: host_order_mLen [OF ok] vns_msg_parts(1))
  have d: "drop 8 (host_order ?m) = salt" using len by (simp add: vns_msg_parts)
  obtain c1 c2 c3 where sha: "SHA1Input (SHA1Reset (stack_context os)) salt (of_nat (length salt)) = Inr c1"
    "SHA1Input c1 (key_array os key) 64 = Inr c2" "SHA1Result c2 = Inr (True, c3)"
    and d3: "auth_reply_buf (cstr (list_of (user (inst c)))) c3 = reply"
    using sha1_of_two [of salt key os] assms auth_reply_buf_eq by fastforce
  have "key \<noteq> []" using assms(3) by auto
  then show ?thesis
    unfolding sr_handle_auth_request_def assms(2) option.case Let_def
    using f n d sha assms(5) by (simp add: read_str_def d3)
qed

lemma nth_host_order: "8 \<le> length m \<Longrightarrow> 8 \<le> k \<Longrightarrow> host_order m ! k = m ! k"
  by (auto simp: host_order_def blit_def nth_append)

lemma handle_auth_status:
  "0 \<in> set (list_of (user sr)) \<Longrightarrow>
   sr_handle_auth_status sr (host_order (vns_msg VNS_AUTH_STATUS (auth # why))) =
   (if auth \<noteq> 0 then Inr True else bnd (read_str why) (\<lambda>_. Inr False))"
  by (simp add: sr_handle_auth_status_def read_str_def vns_msg_parts rd_auth_status_def nth_seg nth_host_order)
    (simp add: vns_msg_def nth_append)

section \<open>The hardware\<close>

definition hw_msg :: "c_hw_entry list \<Rightarrow> byte list" where
  "hw_msg es = vns_msg VNSHWINFO (concat (map wr_hw_entry es))"

lemma length_concat_const: "\<forall>x \<in> set xs. length x = n \<Longrightarrow> length (concat xs) = n * length xs"
  by (induction xs) auto

lemma seg_concat: "\<forall>x \<in> set xs. length x = n \<Longrightarrow> i < length xs \<Longrightarrow> seg (n * i) n (concat xs) = xs ! i"
proof (induction xs arbitrary: i)
  case (Cons x xs)
  then show ?case
    by (cases i) (simp_all add: seg_def)
qed simp

lemma handle_hwinfo_entries:
  assumes "length es \<le> 256"
  shows "sr_handle_hwinfo os sr (host_order (hw_msg es)) =
    bnd (each (hw_entry_loop os) sr (enumerate 0 es)) (\<lambda>sr1. bnd (sr_print_if_list sr1) (\<lambda>_. Inr (int (length es), sr1)))"
proof -
  let ?b = "concat (map wr_hw_entry es)" and ?m = "host_order (hw_msg es)"
  have lb: "length ?b = 36 * length es" by (subst length_concat_const [of _ 36]) auto
  have lm: "length (hw_msg es) = 8 + 36 * length es" by (simp add: hw_msg_def vns_msg_parts lb)
  have ok: "msg_ok (hw_msg es)" unfolding hw_msg_def using assms lb by (intro vns_msg_parts(2)) simp
  have q: "sint (ucast ((ucast (of_nat (8 + 36 * length es) :: u32) - 8 :: 64 word) div 36) :: u32) = int (length es)"
  proof -
    have 1: "(ucast (of_nat (8 + 36 * length es) :: u32) :: 64 word) = of_nat (8 + 36 * length es)"
      using assms by (simp add: unsigned_of_nat take_bit_nat_eq_self del: of_nat_add of_nat_mult)
    have "(of_nat (36 * length es) :: 64 word) div 36 = of_nat (length es)"
      using assms by (intro word_unat_eq_iff [THEN iffD2]) (simp add: unat_div unat_of_nat take_bit_nat_eq_self del: of_nat_mult)
    then have "(of_nat (8 + 36 * length es) - 8 :: 64 word) div 36 = of_nat (length es)" by simp
    moreover have "(ucast (of_nat (length es) :: 64 word) :: u32) = of_nat (length es)"
      using assms by (simp add: unsigned_of_nat take_bit_nat_eq_self)
    ultimately show ?thesis unfolding 1 using assms by (simp add: sint_of_nat_small)
  qed
  have e: "map (\<lambda>i. (i, rd_hw_entry (seg (8 + 36 * i) 36 ?m))) [0..<length es] = enumerate 0 es"
  proof (rule nth_equalityI)
    fix i assume i: "i < length (map (\<lambda>i. (i, rd_hw_entry (seg (8 + 36 * i) 36 ?m))) [0..<length es])"
    then have "seg (8 + 36 * i) 36 ?m = wr_hw_entry (es ! i)"
      using lm seg_concat [of "map wr_hw_entry es" 36 i] by (simp add: hw_msg_def vns_msg_parts)
    then show "map (\<lambda>i. (i, rd_hw_entry (seg (8 + 36 * i) 36 ?m))) [0..<length es] ! i = enumerate 0 es ! i"
      using i by (simp add: nth_enumerate_eq)
  qed simp
  show ?thesis
    unfolding sr_handle_hwinfo_def Let_def host_order_mLen [OF ok] lm bswap32_bswap32 q nat_int e
    using lm assms by simp
qed

text \<open>An interface is announced by its name, its hardware address and its IP address, in this order.\<close>

definition hw_entry_of :: "u32 \<Rightarrow> byte list \<Rightarrow> c_hw_entry" where
  "hw_entry_of key v = \<lparr> mKey = htonl key, hw_value = barr_of v \<rparr>"

definition announce :: "sr_if \<Rightarrow> c_hw_entry list" where
  "announce i = [hw_entry_of HWINTERFACE (list_of (if_name i)), hw_entry_of HWETHER (list_of (if_addr i)),
     hw_entry_of HWETHIP (st32 (if_ip i))]"

definition configured :: "sr_if \<Rightarrow> sr_if \<Rightarrow> bool" where
  "configured i j \<longleftrightarrow> if_name j = strncpy (list_of (if_name i)) \<and> if_addr j = if_addr i \<and> if_ip j = if_ip i"

lemma prefix_barr_of: "length v \<le> LENGTH('n) \<Longrightarrow> \<exists>zs. list_of (barr_of v :: ('n::len) barr) = v @ zs"
  by (auto simp: list_of_barr_of)

lemma hw_entry_announce:
  "each (hw_entry_loop os) sr (enumerate k (announce i)) =
   Inr (sr\<lparr>if_list := if_list sr @ [(fresh_if os k)\<lparr>if_name := strncpy (list_of (if_name i)), if_addr := if_addr i, if_ip := if_ip i\<rparr>]\<rparr>)"
proof -
  obtain z where z: "list_of (barr_of (list_of (if_addr i)) :: 32 barr) = list_of (if_addr i) @ z"
    using prefix_barr_of [of "list_of (if_addr i)", where 'n = 32] by auto
  obtain y where y: "list_of (barr_of (st32 (if_ip i)) :: 32 barr) = st32 (if_ip i) @ y"
    using prefix_barr_of [of "st32 (if_ip i)", where 'n = 32] by auto
  show ?thesis
    by (simp add: announce_def hw_entry_of_def hw_entry_loop_def z y arr_at_list_of u32_at_st32 hw_numbers
        sr_add_interface_def sr_set_ether_addr_def sr_set_ether_ip_def)
qed

lemma hw_announcements:
  "\<exists>js. each (hw_entry_loop os) sr (enumerate k (concat (map announce is))) = Inr (sr\<lparr>if_list := if_list sr @ js\<rparr>)
     \<and> list_all2 configured is js"
proof (induction "is" arbitrary: sr k)
  case (Cons i "is")
  let ?j = "(fresh_if os k)\<lparr>if_name := strncpy (list_of (if_name i)), if_addr := if_addr i, if_ip := if_ip i\<rparr>"
  let ?sr = "sr\<lparr>if_list := if_list sr @ [?j]\<rparr>"
  obtain js where js: "each (hw_entry_loop os) ?sr (enumerate (k + length (announce i)) (concat (map announce is))) =
      Inr (?sr\<lparr>if_list := if_list ?sr @ js\<rparr>)" "list_all2 configured is js"
    using Cons.IH by blast
  have "each (hw_entry_loop os) sr (enumerate k (concat (map announce (i # is)))) =
      Inr (sr\<lparr>if_list := if_list sr @ ?j # js\<rparr>)"
    using js(1) by (simp add: enumerate_append_eq each_append hw_entry_announce del: fun_upd_apply)
  moreover have "configured i ?j" by (simp add: configured_def)
  ultimately show ?case using js(2) by (intro exI [of _ "?j # js"]) simp
qed simp

text \<open>The message for some interfaces, as the server sends it.\<close>

lemma configured_names_end: "list_all2 configured is js \<Longrightarrow> names_end is \<Longrightarrow> names_end js"
proof (induction rule: list_all2_induct)
  case (Cons i "is" j js)
  have "length (cstr l) < length l" if "0 \<in> set l" for l using that by (induction l) (auto simp: cstr_def)
  from this [of "list_of (if_name i)"] have "0 \<in> set (list_of (if_name i)) \<Longrightarrow> 0 \<in> set (list_of (strncpy (list_of (if_name i)) :: iface_name))"
    by (auto simp: strncpy_def list_of_barr_of)
  with Cons show ?case by (auto simp: names_end_def configured_def)
qed (simp add: names_end_def)

lemma handle_hwinfo_announce:
  assumes "length is \<le> 85" and "names_end is" and "names_end (if_list sr)"
  shows "\<exists>js n. sr_handle_hwinfo os sr (host_order (hw_msg (concat (map announce is)))) = Inr (n, sr\<lparr>if_list := if_list sr @ js\<rparr>)
    \<and> list_all2 configured is js"
proof -
  have "length (concat (map announce is)) = 3 * length is"
    by (induction "is") (simp_all add: announce_def)
  then have n: "length (concat (map announce is)) \<le> 256" using assms(1) by simp
  obtain js where js: "each (hw_entry_loop os) sr (enumerate 0 (concat (map announce is))) = Inr (sr\<lparr>if_list := if_list sr @ js\<rparr>)"
    "list_all2 configured is js" using hw_announcements by blast
  obtain s where "sr_print_if_list (sr\<lparr>if_list := if_list sr @ js\<rparr>) = Inr s"
    using print_if_list_total [of "sr\<lparr>if_list := if_list sr @ js\<rparr>"] configured_names_end [OF js(2)] assms(2,3) by auto
  then show ?thesis using handle_hwinfo_entries [OF n, of os sr] js by auto
qed

lemma hw_msg_ok:
  assumes "length is \<le> 85"
  shows "msg_ok (hw_msg (concat (map announce is)))" and "command_of (hw_msg (concat (map announce is))) = VNSHWINFO"
proof -
  have "length (concat (map announce is)) = 3 * length is" by (induction "is") (simp_all add: announce_def)
  then show "msg_ok (hw_msg (concat (map announce is)))"
    unfolding hw_msg_def using assms by (intro vns_msg_parts(2)) (subst length_concat_const [of _ 36], auto)
  show "command_of (hw_msg (concat (map announce is))) = VNSHWINFO" by (simp add: hw_msg_def vns_msg_parts)
qed

lemma dispatch_hwinfo:
  assumes "length is \<le> 85" and "names_end is" and "names_end (if_list (inst c))"
  shows "\<exists>js sr. list_all2 configured is js \<and> sr = (inst c)\<lparr>if_list := if_list (inst c) @ js\<rparr>
    \<and> dispatch fuel os c VNSHWINFO (host_order (hw_msg (concat (map announce is)))) =
      Inr (if sr_verify_routing_table sr = 0 then 1 else - 1, c\<lparr>inst := sr\<rparr>)"
  using handle_hwinfo_announce [OF assms, of os] by (auto simp: dispatch_def command_numbers)

section \<open>The routing table from the server\<close>

definition rtable_msg :: "byte list \<Rightarrow> byte list \<Rightarrow> byte list" where
  "rtable_msg vhost content = vns_msg VNS_RTABLE (list_of (strncpy vhost :: 32 barr) @ content)"

lemma handle_rtable:
  assumes "length (cstr vhost) < 32" and "40 + length content \<le> 10000"
  shows "sr_handle_rtable os c (host_order (rtable_msg vhost content)) =
    (let fn = text_bytes ''rtable.'' @ cstr vhost in
     if may_write os fn then Inr (True, c\<lparr>files := (files c)(fn \<mapsto> content)\<rparr>) else Inr (False, c))"
proof -
  let ?m = "rtable_msg vhost content" and ?i = "list_of (strncpy vhost :: 32 barr)"
  have l: "length ?m = 40 + length content" by (simp add: rtable_msg_def vns_msg_parts)
  have ok: "msg_ok ?m" unfolding rtable_msg_def using assms(2) by (intro vns_msg_parts(2)) simp
  have z: "0 \<in> set ?i" using assms(1) by (simp add: strncpy_def list_of_barr_of)
  then have "cstr (?i @ content) = cstr ?i" by (simp add: cstr_def takeWhile_append1)
  then have s: "cstr (?i @ content) = cstr vhost" using assms(1) by (simp add: cstr_strncpy cstr_take)
  have d: "drop 8 (host_order ?m) = ?i @ content" using l by (simp add: rtable_msg_def vns_msg_parts)
  have n: "(of_nat (40 + length content) :: u32) - 8 - 32 = of_nat (length content)" by simp
  have u: "unat (of_nat (length content) :: u32) = length content" using assms(2) by (intro unat_small) simp
  have "seg 40 (length content) ?m = content" by (simp add: rtable_msg_def vns_msg_parts(5) seg_0_take)  (simp add: seg_def)
  then show ?thesis
    unfolding sr_handle_rtable_def d host_order_mLen [OF ok] l bswap32_bswap32 n
    using z assms(1) l by (simp add: read_str_def s u Let_def)
qed

end
