(* ===== verification/Rtfile.thy ===== *)
theory Rtfile
  imports Routing Inet
begin

text \<open>
  The routing table as text, \<^verbatim>\<open>src/sr_rt.c\<close>: \<^verbatim>\<open>sr_load_rt\<close> reads it from a file, \<^verbatim>\<open>sr_print_routing_table\<close> prints it.
  A file is its content, \<open>None\<close> when it cannot be read. The four arrays of \<^verbatim>\<open>sr_load_rt\<close> live across the loop,
  so a line with fewer than four words leaves the words of an earlier line in place; at first
  they hold what is on the stack.
\<close>

section \<open>The code\<close>

record rt_words =
  w_dest :: "32 barr"
  w_gw :: "32 barr"
  w_mask :: "32 barr"
  w_iface :: "32 barr"

text \<open>The words of a line, as \<^verbatim>\<open>%s\<close> finds them.\<close>

lemma word_shrinks:
  assumes "dropWhile is_space s \<noteq> []"
  shows "length (dropWhile (\<lambda>b. \<not> is_space b) (dropWhile is_space s)) < length s"
proof -
  obtain b r where b: "dropWhile is_space s = b # r" using assms by (cases "dropWhile is_space s") auto
  then have "\<not> is_space b" using hd_dropWhile [of is_space s] by simp
  then have "length (dropWhile (\<lambda>b. \<not> is_space b) (dropWhile is_space s)) \<le> length r"
    using b length_dropWhile_le [of "\<lambda>b. \<not> is_space b" r] by simp
  also have "\<dots> < length s"
    using b length_dropWhile_le [of is_space s] by simp
  finally show ?thesis .
qed

function words_of :: "byte list \<Rightarrow> byte list list" where
  "words_of s =
     (let s' = dropWhile is_space s in
      if s' = [] then [] else takeWhile (\<lambda>b. \<not> is_space b) s' # words_of (dropWhile (\<lambda>b. \<not> is_space b) s'))"
  by pat_completeness auto
termination
  by (relation "measure length") (simp_all add: word_shrinks del: dropWhile_eq_Nil_conv)

declare words_of.simps [simp del]

text \<open>\<^verbatim>\<open>%s\<close> stores a word and its terminator, without a bound.\<close>

definition store_word :: "32 barr \<Rightarrow> byte list \<Rightarrow> (32 barr) res" where
  "store_word a w = bnd (guard Oob_access (length w < 32)) (\<lambda>_. Inr (barr_of (blit 0 (w @ [0]) (list_of a))))"

definition sscanf_words :: "byte list \<Rightarrow> rt_words \<Rightarrow> rt_words res" where
  "sscanf_words line t =
     (let ws = words_of (cstr line) in
      bnd (if 0 < length ws then store_word (w_dest t) (ws ! 0) else Inr (w_dest t)) (\<lambda>d.
      bnd (if 1 < length ws then store_word (w_gw t) (ws ! 1) else Inr (w_gw t)) (\<lambda>g.
      bnd (if 2 < length ws then store_word (w_mask t) (ws ! 2) else Inr (w_mask t)) (\<lambda>m.
      bnd (if 3 < length ws then store_word (w_iface t) (ws ! 3) else Inr (w_iface t)) (\<lambda>i.
      Inr \<lparr> w_dest = d, w_gw = g, w_mask = m, w_iface = i \<rparr>)))))"

abbreviation (input) BUFSIZ :: nat where "BUFSIZ \<equiv> 8192"

lemma fgets_progress: "f \<noteq> [] \<Longrightarrow> 1 < n \<Longrightarrow> length f - length (fgets n f) < length f"
  by (cases f) (simp_all add: fgets_def Let_def)

text \<open>The loop: \<open>cleared\<close> is \<^verbatim>\<open>clear_routing_table\<close>.\<close>

function load_lines :: "sr_instance \<Rightarrow> rt_words \<Rightarrow> bool \<Rightarrow> byte list \<Rightarrow> (int \<times> sr_instance) res" where
  "load_lines sr t cleared f =
     (if f = [] then Inr (0, sr)
      else
        let line = fgets BUFSIZ f in
        bnd (sscanf_words line t) (\<lambda>t.
        (case inet_aton (list_of (w_dest t)) of
           None \<Rightarrow> Inr (- 1, sr)
         | Some dest_addr \<Rightarrow>
        (case inet_aton (list_of (w_gw t)) of
           None \<Rightarrow> Inr (- 1, sr)
         | Some gw_addr \<Rightarrow>
        (case inet_aton (list_of (w_mask t)) of
           None \<Rightarrow> Inr (- 1, sr)
         | Some mask_addr \<Rightarrow>
             let sr = (if cleared then sr else sr\<lparr>routing_table := []\<rparr>) in
             load_lines (sr_add_rt_entry sr dest_addr gw_addr mask_addr (list_of (w_iface t))) t True
               (drop (length line) f))))))"
  by pat_completeness auto
termination
  by (relation "measure (\<lambda>(sr, t, cleared, f). length f)") (auto simp: fgets_progress)

declare load_lines.simps [simp del]

definition sr_load_rt :: "rt_words \<Rightarrow> sr_instance \<Rightarrow> byte list option \<Rightarrow> (int \<times> sr_instance) res" where
  "sr_load_rt stack sr file =
     (case file of None \<Rightarrow> Inr (- 1, sr) | Some f \<Rightarrow> load_lines sr stack False f)"

text \<open>Printing: \<^verbatim>\<open>%-14s\<close> fills with spaces on the right.\<close>

definition pad14 :: "byte list \<Rightarrow> byte list" where
  "pad14 s = s @ replicate (14 - length s) 32"

definition sr_print_routing_entry :: "sr_rt \<Rightarrow> byte list" where
  "sr_print_routing_entry entry = pad14 (inet_ntoa (rt_dest entry)) @ [9] @ pad14 (inet_ntoa (rt_gw entry)) @ [9]
     @ pad14 (inet_ntoa (rt_mask entry)) @ [9] @ cstr (list_of (rt_interface entry)) @ [10]"

definition sr_print_routing_table :: "sr_instance \<Rightarrow> byte list" where
  "sr_print_routing_table sr =
     (case routing_table sr of
        [] \<Rightarrow> text_bytes '' *warning* Routing table empty '' @ [10]
      | e # es \<Rightarrow> text_bytes ''Destination'' @ [9] @ text_bytes ''Gateway'' @ [9, 9] @ text_bytes ''Mask'' @ [9, 9]
          @ text_bytes ''Iface'' @ [10] @ sr_print_routing_entry e @ concat (map sr_print_routing_entry es))"

section \<open>What is printed can be loaded\<close>

lemma words_of_word:
  assumes "w \<noteq> []" and "\<forall>x \<in> set w. \<not> is_space x" and "s \<noteq> [] \<Longrightarrow> is_space (hd s)"
  shows "words_of (w @ s) = w # words_of s"
proof -
  have d: "dropWhile is_space (w @ s) = w @ s"
    using assms(1,2) by (cases w) auto
  have t: "takeWhile (\<lambda>b. \<not> is_space b) (w @ s) = w" "dropWhile (\<lambda>b. \<not> is_space b) (w @ s) = s"
    using assms(2,3) by (cases s; simp add: takeWhile_append dropWhile_append)+
  show ?thesis
    using d t assms(1) by (subst words_of.simps) simp
qed

lemma words_of_space: "\<forall>x \<in> set z. is_space x \<Longrightarrow> words_of (z @ s) = words_of s"
  by (subst (1 2) words_of.simps) (simp add: dropWhile_append)

lemma words_of_Nil: "words_of [] = []"
  by (simp add: words_of.simps)

text \<open>A name that is one word.\<close>

definition plain_name :: "byte list \<Rightarrow> bool" where
  "plain_name n \<longleftrightarrow> n \<noteq> [] \<and> length n < 32 \<and> (\<forall>x \<in> set n. \<not> is_space x \<and> x \<noteq> 0)"

lemma fgets_line:
  assumes "10 \<notin> set l" and "length l < 8191"
  shows "fgets 8192 (l @ 10 # rest) = l @ [10]"
proof -
  have "takeWhile (\<lambda>b. b \<noteq> 10) (l @ 10 # rest) = l"
    using assms(1) by (subst takeWhile_append2) auto
  then show ?thesis using assms(2) by (simp add: fgets_def Let_def)
qed

lemma store_word_cstr:
  assumes "length w < 32" and "0 \<notin> set w"
  shows "\<exists>a'. store_word a w = Inr a' \<and> cstr (list_of a') = w"
proof -
  have "cstr (blit 0 (w @ [0]) (list_of a)) = w"
    using assms(2) by (auto simp: blit_def cstr_def takeWhile_tail takeWhile_eq_all_conv)
  then show ?thesis using assms(1) by (simp add: store_word_def)
qed

lemma entry_words:
  assumes "plain_name (cstr (list_of (rt_interface e)))"
  shows "words_of (cstr (sr_print_routing_entry e)) =
    [inet_ntoa (rt_dest e), inet_ntoa (rt_gw e), inet_ntoa (rt_mask e), cstr (list_of (rt_interface e))]"
proof -
  have nz: "0 \<notin> set (sr_print_routing_entry e)"
    using assms inet_ntoa_text(1) by (auto simp: sr_print_routing_entry_def pad14_def plain_name_def)
  have addr: "words_of (pad14 (inet_ntoa a) @ 9 # s) = inet_ntoa a # words_of s" for a s
  proof -
    have "words_of (inet_ntoa a @ (replicate (14 - length (inet_ntoa a)) 32 @ [9]) @ s) =
        inet_ntoa a # words_of ((replicate (14 - length (inet_ntoa a)) 32 @ [9]) @ s)"
      by (rule words_of_word)
        (use inet_ntoa_text in \<open>auto simp: is_space_def hd_append\<close>)
    also have "words_of ((replicate (14 - length (inet_ntoa a)) 32 @ [9]) @ s) = words_of s"
      by (rule words_of_space) (auto simp: is_space_def)
    finally show ?thesis by (simp add: pad14_def)
  qed
  have name: "words_of (cstr (list_of (rt_interface e)) @ [10]) = [cstr (list_of (rt_interface e))]"
    using assms words_of_space [of "[10]" "[]"]
    by (subst words_of_word) (simp_all add: plain_name_def is_space_def words_of_Nil)
  show ?thesis
    unfolding cstr_no_zero [OF nz] unfolding sr_print_routing_entry_def by (simp add: addr name)
qed

lemma entry_length:
  assumes "plain_name (cstr (list_of (rt_interface e)))"
  shows "length (sr_print_routing_entry e) \<le> 80"
proof -
  have "length (pad14 (inet_ntoa a)) \<le> 15" for a using inet_ntoa_text(3) [of a] by (simp add: pad14_def)
  from this [of "rt_dest e"] this [of "rt_gw e"] this [of "rt_mask e"] show ?thesis
    using assms by (simp add: sr_print_routing_entry_def plain_name_def)
qed

lemma entry_line:
  assumes "plain_name (cstr (list_of (rt_interface e)))"
  shows "fgets 8192 (sr_print_routing_entry e @ rest) = sr_print_routing_entry e"
proof -
  let ?l = "butlast (sr_print_routing_entry e)"
  have l: "sr_print_routing_entry e = ?l @ [10]" by (simp add: sr_print_routing_entry_def butlast_append)
  have sp: "is_space 10" by (simp add: is_space_def)
  have "10 \<notin> set (inet_ntoa a)" for a using inet_ntoa_text(1) [of a] sp by blast
  moreover have "10 \<notin> set (cstr (list_of (rt_interface e)))" using assms sp unfolding plain_name_def by blast
  ultimately have "10 \<notin> set ?l"
    by (auto simp: sr_print_routing_entry_def pad14_def butlast_append)
  moreover have "length ?l < 8191" using entry_length [OF assms] by simp
  ultimately have "fgets 8192 ((?l @ [10]) @ rest) = ?l @ [10]" using fgets_line [of ?l rest] by simp
  then show ?thesis by (simp only: l [symmetric])
qed

text \<open>Loading the lines of some entries appends the entries, after the table was cleared.\<close>

definition loadable :: "sr_rt \<Rightarrow> bool" where
  "loadable e \<longleftrightarrow> plain_name (cstr (list_of (rt_interface e))) \<and> strncpy (list_of (rt_interface e)) = rt_interface e"

lemma sscanf_entry:
  assumes "plain_name (cstr (list_of (rt_interface e)))"
  shows "\<exists>t'. sscanf_words (sr_print_routing_entry e) t = Inr t' \<and> inet_aton (list_of (w_dest t')) = Some (rt_dest e)
    \<and> inet_aton (list_of (w_gw t')) = Some (rt_gw e) \<and> inet_aton (list_of (w_mask t')) = Some (rt_mask e)
    \<and> cstr (list_of (w_iface t')) = cstr (list_of (rt_interface e))"
proof -
  have word: "\<exists>a'. store_word a (inet_ntoa ip) = Inr a' \<and> inet_aton (list_of a') = Some ip" for a ip
  proof -
    obtain a' where "store_word a (inet_ntoa ip) = Inr a'" "cstr (list_of a') = inet_ntoa ip"
      using store_word_cstr [of "inet_ntoa ip" a] inet_ntoa_text [of ip] by fastforce
    moreover have "cstr (inet_ntoa ip) = inet_ntoa ip" using inet_ntoa_text(1) by (intro cstr_no_zero) auto
    ultimately show ?thesis using inet_aton_cstr [of "list_of a'" "inet_ntoa ip"] inet_aton_ntoa by auto
  qed
  obtain i where i: "store_word (w_iface t) (cstr (list_of (rt_interface e))) = Inr i"
    "cstr (list_of i) = cstr (list_of (rt_interface e))"
    using store_word_cstr [of "cstr (list_of (rt_interface e))"] assms by (fastforce simp: plain_name_def)
  obtain d g m where "store_word (w_dest t) (inet_ntoa (rt_dest e)) = Inr d" "inet_aton (list_of d) = Some (rt_dest e)"
    "store_word (w_gw t) (inet_ntoa (rt_gw e)) = Inr g" "inet_aton (list_of g) = Some (rt_gw e)"
    "store_word (w_mask t) (inet_ntoa (rt_mask e)) = Inr m" "inet_aton (list_of m) = Some (rt_mask e)"
    using word by metis
  then show ?thesis
    using i unfolding sscanf_words_def entry_words [OF assms] Let_def by simp
qed

lemma load_line:
  assumes "loadable e"
  shows "\<exists>t'. load_lines sr t cleared (sr_print_routing_entry e @ rest) =
    load_lines (sr\<lparr>routing_table := (if cleared then routing_table sr else []) @ [e]\<rparr>) t' True rest"
proof -
  have p: "plain_name (cstr (list_of (rt_interface e)))" using assms by (simp add: loadable_def)
  obtain t' where t': "sscanf_words (sr_print_routing_entry e) t = Inr t'" "inet_aton (list_of (w_dest t')) = Some (rt_dest e)"
    "inet_aton (list_of (w_gw t')) = Some (rt_gw e)" "inet_aton (list_of (w_mask t')) = Some (rt_mask e)"
    and name: "cstr (list_of (w_iface t')) = cstr (list_of (rt_interface e))"
    using sscanf_entry [OF p, of t] by blast
  have eta: "\<lparr> rt_dest = rt_dest e, rt_gw = rt_gw e, rt_mask = rt_mask e, rt_interface = rt_interface e \<rparr> = e" by simp
  have "strncpy (list_of (w_iface t')) = rt_interface e"
    using assms name by (simp add: loadable_def strncpy_def)
  moreover have "sr_print_routing_entry e \<noteq> []" by (simp add: sr_print_routing_entry_def)
  ultimately have "load_lines sr t cleared (sr_print_routing_entry e @ rest) =
      load_lines (sr\<lparr>routing_table := (if cleared then routing_table sr else []) @ [e]\<rparr>) t' True rest"
    using t' by (subst load_lines.simps) (simp add: entry_line [OF p] sr_add_rt_entry_def Let_def eta)
  then show ?thesis by blast
qed

lemma load_entries:
  "\<forall>e \<in> set es. loadable e \<Longrightarrow> es \<noteq> [] \<or> cleared \<Longrightarrow>
   load_lines sr t cleared (concat (map sr_print_routing_entry es)) =
   Inr (0, sr\<lparr>routing_table := (if cleared then routing_table sr else []) @ es\<rparr>)"
proof (induction es arbitrary: sr t cleared)
  case Nil
  then show ?case by (simp add: load_lines.simps)
next
  case (Cons e es)
  then show ?case
    using load_line [of e sr t cleared "concat (map sr_print_routing_entry es)"] by auto
qed

lemma load_printed:
  "\<forall>e \<in> set table. loadable e \<Longrightarrow> table \<noteq> [] \<Longrightarrow>
   sr_load_rt stack sr (Some (concat (map sr_print_routing_entry table))) = Inr (0, sr\<lparr>routing_table := table\<rparr>)"
  using load_entries [of table False sr stack] by (simp add: sr_load_rt_def)

end
