(* ===== verification/Rounds.thy ===== *)
theory Rounds
  imports Giving_up
begin

text \<open>
  The exact effect of a round of the timeout thread (\<^verbatim>\<open>sr_arpcache_timeout\<close>, \<^verbatim>\<open>src/sr_arpcache.c\<close>) when giving up
  does not lead to new requests, that is when the senders of the waiting packets are in the ARP
  table: the sweep visits every request once. Over several rounds, a request that nobody answers
  is given up and each of its packets is answered.
\<close>

section \<open>One request in one round\<close>

definition due :: "env \<Rightarrow> sr_arpreq \<Rightarrow> bool" where
  "due env r \<longleftrightarrow> now env - rq_sent r > 1"

definition round_req :: "env \<Rightarrow> sr_arpreq \<Rightarrow> sr_arpreq option" where
  "round_req env r =
     (if \<not> due env r then Some r
      else if 5 \<le> rq_times_sent r then None
      else Some (r\<lparr>rq_sent := now env, rq_times_sent := rq_times_sent r + 1\<rparr>))"

definition arp_request_out :: "sr_instance \<Rightarrow> u32 \<Rightarrow> byte list list" where
  "arp_request_out sr ip =
     (case sr_findLPMentry (routing_table sr) ip of
        None \<Rightarrow> []
      | Some e \<Rightarrow>
        (case sr_get_interface sr (list_of (rt_interface e)) of
           None \<Rightarrow> []
         | Some i \<Rightarrow> [vns_frame (list_of (if_name i)) (arp_request_frame (if_addr i) (if_ip i) ip)]))"

definition round_out :: "env \<Rightarrow> sr_instance \<Rightarrow> sr_arpreq \<Rightarrow> byte list list" where
  "round_out env sr r =
     (if \<not> due env r then []
      else if 5 \<le> rq_times_sent r then concat (map (unreachable_out sr) (rq_packets r))
      else arp_request_out sr (rq_ip r))"

text \<open>The address asked for has a route, and the senders of the packets can be answered at once.\<close>

definition routed :: "sr_instance \<Rightarrow> u32 \<Rightarrow> bool" where
  "routed sr ip \<longleftrightarrow>
     (case sr_findLPMentry (routing_table sr) ip of
        None \<Rightarrow> False | Some e \<Rightarrow> sr_get_interface sr (list_of (rt_interface e)) \<noteq> None)"

text \<open>All that a round needs: only a request that is given up needs the senders of its packets.\<close>

definition able :: "env \<Rightarrow> sr_instance \<Rightarrow> sr_arpreq \<Rightarrow> bool" where
  "able env sr r \<longleftrightarrow> routed sr (rq_ip r) \<and> (exhausted env r \<longrightarrow> list_all (answerable sr) (rq_packets r))"

definition ready :: "sr_instance \<Rightarrow> sr_arpreq \<Rightarrow> bool" where
  "ready sr r \<longleftrightarrow> routed sr (rq_ip r) \<and> list_all (answerable sr) (rq_packets r)"

lemma ready_able: "ready sr r \<Longrightarrow> able env sr r"
  by (simp add: ready_def able_def)

text \<open>None of this depends on the queue, the log or the output.\<close>

abbreviation on_queue :: "sr_arpreq list \<Rightarrow> byte list option \<Rightarrow> byte list list \<Rightarrow> sr_instance \<Rightarrow> sr_instance" where
  "on_queue rs log out sr \<equiv> sr\<lparr>cache := (cache sr)\<lparr>requests := rs\<rparr>, logfile := log, sock_out := out\<rparr>"

lemma lookup_queue [simp]: "sr_arpcache_lookup (c\<lparr>requests := rs\<rparr>) = sr_arpcache_lookup c"
  by (simp add: sr_arpcache_lookup_def fun_eq_iff)

lemma answerable_queue [simp]:
  "answerable (sr\<lparr>cache := (cache sr)\<lparr>requests := rs\<rparr>\<rparr>) = answerable sr"
  "unreachable_out (sr\<lparr>cache := (cache sr)\<lparr>requests := rs\<rparr>\<rparr>) = unreachable_out sr"
  by (simp_all add: answerable_def unreachable_out_def fun_eq_iff cong: option.case_cong)

lemma queue_irrelevant [simp]:
  "round_out env (on_queue rs log out sr) = round_out env sr"
  "ready (on_queue rs log out sr) = ready sr"
  "able env (on_queue rs log out sr) = able env sr"
  by (simp_all add: round_out_def arp_request_out_def ready_def able_def routed_def fun_eq_iff cong: option.case_cong)

section \<open>The queue around one request\<close>

lemma find_id:
  "rq_id r \<notin> rq_id ` set xs \<Longrightarrow> find (\<lambda>q. rq_id q = rq_id r) (xs @ r # ys) = Some r"
  by (induction xs) auto

lemma next_req_mid:
  "rq_id r \<notin> rq_id ` set xs \<Longrightarrow>
   next_req (rq_id r) (xs @ r # ys) = (case ys of [] \<Rightarrow> None | s # _ \<Rightarrow> Some (rq_id s))"
proof (induction xs)
  case Nil
  then show ?case by (cases ys) simp_all
next
  case (Cons x xs)
  then show ?case by (cases xs) simp_all
qed

lemma upd_req_mid:
  "rq_id r \<notin> rq_id ` set xs \<Longrightarrow> rq_id r \<notin> rq_id ` set ys \<Longrightarrow> upd_req (rq_id r) f (xs @ r # ys) = xs @ f r # ys"
  by (auto simp: upd_req_def image_iff intro!: map_idI)

lemma remove_req_mid: "rq_id r \<notin> rq_id ` set xs \<Longrightarrow> remove_req (rq_id r) (xs @ r # ys) = xs @ ys"
  by (induction xs) auto

section \<open>The sweep\<close>

abbreviation first_id :: "sr_arpreq list \<Rightarrow> nat option" where
  "first_id rs \<equiv> (case rs of [] \<Rightarrow> None | r # _ \<Rightarrow> Some (rq_id r))"

lemma handle_round:
  assumes q: "requests (cache sr) = xs @ r # ys" and d: "distinct (map rq_id (requests (cache sr)))" and "able env sr r"
  shows "\<exists>log. sr_arpcache_handle_arpreq (Suc fuel) env sr (rq_id r) =
    Inr (on_queue (xs @ (case round_req env r of None \<Rightarrow> [] | Some r' \<Rightarrow> [r']) @ ys) log (sock_out sr @ round_out env sr r) sr)"
proof -
  have ids: "rq_id r \<notin> rq_id ` set xs" "rq_id r \<notin> rq_id ` set ys" using d q by auto
  have at: "req_at (rq_id r) sr = Inr r" using q find_id [OF ids(1)] by (simp add: req_at_def)
  show ?thesis
  proof (cases "due env r")
    case False
    have "sr = on_queue (xs @ r # ys) (logfile sr) (sock_out sr) sr" using q by simp
    then show ?thesis using False at by (intro exI [of _ "logfile sr"]) (simp add: due_def round_req_def round_out_def)
  next
    case True
    show ?thesis
    proof (cases "5 \<le> rq_times_sent r")
      case five: True
      have "exhausted env r" using True five by (simp add: exhausted_def due_def)
      then obtain log where h: "sr_arpcache_handle_arpreq (Suc fuel) env sr (rq_id r) =
          Inr (sr\<lparr>cache := sr_arpreq_destroy (cache sr) (Some (rq_id r)), logfile := log,
            sock_out := sock_out sr @ concat (map (unreachable_out sr) (rq_packets r))\<rparr>)"
        using handle_gives_up [OF at] assms(3) unfolding able_def by blast
      have "sr_arpreq_destroy (cache sr) (Some (rq_id r)) = (cache sr)\<lparr>requests := xs @ ys\<rparr>"
        using q remove_req_mid [OF ids(1)] by (simp add: sr_arpreq_destroy_def)
      moreover have "round_req env r = None" "round_out env sr r = concat (map (unreachable_out sr) (rq_packets r))"
        using True five by (simp_all add: round_req_def round_out_def)
      ultimately show ?thesis using h by (intro exI [of _ log]) (simp only: option.case append_Nil)
    next
      case False
      obtain e i where e: "sr_findLPMentry (routing_table sr) (rq_ip r) = Some e"
        and i: "sr_get_interface sr (list_of (rt_interface e)) = Some i"
        using assms(3) by (auto simp: able_def routed_def split: option.splits)
      have "mark_sent (now env) (rq_id r) (cache sr) = (cache sr)\<lparr>requests := xs @ [r\<lparr>rq_sent := now env, rq_times_sent := rq_times_sent r + 1\<rparr>] @ ys\<rparr>"
        using q upd_req_mid [OF ids] by (simp only: mark_sent_def) simp
      moreover have "sr_arpcache_handle_arpreq (Suc fuel) env sr (rq_id r) = send_arp_request env sr r"
        using True False at by (simp add: due_def)
      ultimately show ?thesis
        using True False send_arp_request_eq [OF e i, of env] e i
        by (simp add: round_req_def round_out_def arp_request_out_def del: sr_arpcache_handle_arpreq.simps)
    qed
  qed
qed

lemma sweep_exact:
  assumes "requests (cache sr) = xs @ ys" and "distinct (map rq_id (requests (cache sr)))"
    and "list_all (able env sr) ys" and "length ys \<le> k"
  shows "\<exists>log. sweep_loop k (Suc fuel) env sr (first_id ys) =
    Inr (on_queue (xs @ List.map_filter (round_req env) ys) log (sock_out sr @ concat (map (round_out env sr) ys)) sr)"
  using assms
proof (induction ys arbitrary: xs sr k)
  case Nil
  have "sr = on_queue xs (logfile sr) (sock_out sr) sr" using Nil by simp
  then have "sweep_loop k (Suc fuel) env sr None = Inr (on_queue xs (logfile sr) (sock_out sr) sr)"
    by (cases k) simp_all
  then show ?case by (intro exI [of _ "logfile sr"]) (simp add: map_filter_simps)
next
  case (Cons r ys)
  then obtain k' where k: "k = Suc k'" by (cases k) auto
  have ids: "rq_id r \<notin> rq_id ` set xs" using Cons.prems(1,2) by auto
  let ?x = "case round_req env r of None \<Rightarrow> [] | Some r' \<Rightarrow> [r']"
  obtain log where h: "sr_arpcache_handle_arpreq (Suc fuel) env sr (rq_id r) =
      Inr (on_queue (xs @ ?x @ ys) log (sock_out sr @ round_out env sr r) sr)"
    using handle_round [OF Cons.prems(1,2), of env fuel] Cons.prems(3) by (auto simp del: sr_arpcache_handle_arpreq.simps)
  let ?sr = "on_queue (xs @ ?x @ ys) log (sock_out sr @ round_out env sr r) sr"
  have dist: "distinct (map rq_id ((xs @ ?x) @ ys))"
    using Cons.prems(1,2) by (auto simp: round_req_def)
  obtain log' where "sweep_loop k' (Suc fuel) env ?sr (first_id ys) = Inr (on_queue ((xs @ ?x) @ List.map_filter (round_req env) ys)
      log' (sock_out ?sr @ concat (map (round_out env ?sr) ys)) ?sr)"
    using Cons.IH [of ?sr "xs @ ?x" k'] dist Cons.prems(3,4) k by auto
  then have "sweep_loop k' (Suc fuel) env ?sr (first_id ys) = Inr (on_queue (xs @ List.map_filter (round_req env) (r # ys))
      log' (sock_out sr @ concat (map (round_out env sr) (r # ys))) sr)"
    by (cases "round_req env r") (simp_all add: map_filter_simps)
  moreover have "req_at (rq_id r) sr = Inr r" using Cons.prems(1) find_id [OF ids] by (simp add: req_at_def)
  moreover have "next_req (rq_id r) (requests (cache sr)) = first_id ys"
    using Cons.prems(1) next_req_mid [OF ids] by simp
  ultimately show ?case using k h by auto
qed

section \<open>Rounds\<close>

definition expired :: "int \<Rightarrow> sr_instance \<Rightarrow> sr_instance" where
  "expired t sr = sr\<lparr>cache := sr_arpcache_expire t (cache sr)\<rparr>"

lemma round_able:
  assumes "distinct (map rq_id (requests (cache sr)))" and "list_all (able env (expired (now env) sr)) (requests (cache sr))"
    and "length (requests (cache sr)) \<le> k"
  shows "\<exists>log. sr_arpcache_timeout k (Suc fuel) env sr =
    Inr (on_queue (List.map_filter (round_req env) (requests (cache sr))) log
      (sock_out sr @ concat (map (round_out env (expired (now env) sr)) (requests (cache sr)))) (expired (now env) sr))"
proof -
  let ?sr = "expired (now env) sr"
  have r: "requests (cache ?sr) = [] @ requests (cache sr)" "sock_out ?sr = sock_out sr"
    by (simp_all add: expired_def sr_arpcache_expire_def)
  have "distinct (map rq_id (requests (cache ?sr)))" using assms(1) r by simp
  from sweep_exact [OF r(1) this assms(2,3), of fuel] show ?thesis
    unfolding sr_arpcache_timeout_def sr_arpcache_sweepreqs_def expired_def [symmetric] r(1) append_Nil r(2) .
qed

lemma round_exact:
  assumes "cache_inv (cache sr)" and "list_all (ready (expired (now env) sr)) (requests (cache sr))"
    and "length (requests (cache sr)) \<le> k"
  shows "\<exists>log. sr_arpcache_timeout k (Suc fuel) env sr =
    Inr (on_queue (List.map_filter (round_req env) (requests (cache sr))) log
      (sock_out sr @ concat (map (round_out env (expired (now env) sr)) (requests (cache sr)))) (expired (now env) sr))"
  using assms by (intro round_able) (auto simp: cache_inv_def list_all_iff intro: ready_able)

text \<open>Mappings expire once: what is still there later was there before.\<close>

lemma expire_again: "t \<le> t' \<Longrightarrow> expire_entry t' \<circ> expire_entry t = expire_entry t'"
  by (auto simp: expire_entry_def fun_eq_iff)

lemma expire_expire: "t \<le> t' \<Longrightarrow> sr_arpcache_expire t' (sr_arpcache_expire t c) = sr_arpcache_expire t' c"
  by (simp add: sr_arpcache_expire_def expire_again)

lemma lookup_earlier:
  assumes "t \<le> t'" and "sr_arpcache_lookup (sr_arpcache_expire t' c) ip \<noteq> None"
  shows "sr_arpcache_lookup (sr_arpcache_expire t c) ip \<noteq> None"
proof
  assume "sr_arpcache_lookup (sr_arpcache_expire t c) ip = None"
  then have "sr_arpcache_lookup (sr_arpcache_expire t' (sr_arpcache_expire t c)) ip = None"
    using entry_scan_expire_None [of ip "map (expire_entry t) (entries c)" t']
    by (simp add: sr_arpcache_lookup_def sr_arpcache_expire_def)
  with assms show False by (simp add: expire_expire)
qed

lemma expired_fields [simp]:
  "routing_table (expired t sr) = routing_table sr" "sr_get_interface (expired t sr) = sr_get_interface sr"
  "cache (expired t sr) = sr_arpcache_expire t (cache sr)" "requests (sr_arpcache_expire t c) = requests c"
  "sock_out (expired t sr) = sock_out sr"
  by (simp_all add: expired_def sr_arpcache_expire_def)

lemma ready_earlier:
  assumes "t \<le> t'" and "ready (expired t' sr) r"
  shows "ready (expired t sr) r"
proof -
  have "answerable (expired t sr) pk" if "answerable (expired t' sr) pk" for pk
    using that lookup_earlier [OF assms(1), of "cache sr" "pk_src pk"] by (auto simp: answerable_def split: option.splits)
  then show ?thesis
    using assms(2) by (auto simp: ready_def routed_def list_all_iff split: option.splits)
qed

text \<open>What the rounds leave of the table does not depend on the queue.\<close>

lemma expired_after:
  assumes "t \<le> t'"
  shows "ready (expired t' (on_queue rs log out (expired t sr))) = ready (expired t' sr)"
    and "unreachable_out (expired t' (on_queue rs log out (expired t sr))) = unreachable_out (expired t' sr)"
proof -
  have e: "expired t' (on_queue rs log out (expired t sr)) = on_queue rs log out (expired t' sr)"
    by (simp add: expired_def sr_arpcache_expire_def expire_again [OF assms])
  show "ready (expired t' (on_queue rs log out (expired t sr))) = ready (expired t' sr)"
    "unreachable_out (expired t' (on_queue rs log out (expired t sr))) = unreachable_out (expired t' sr)"
    unfolding e by (simp_all del: expired_fields)
qed

text \<open>Rounds more than a second apart, the first more than a second after \<open>t\<close>.\<close>

fun spaced :: "int \<Rightarrow> env list \<Rightarrow> bool" where
  "spaced t [] = True"
| "spaced t (env # envs) \<longleftrightarrow> now env - t > 1 \<and> spaced (now env) envs"

text \<open>Every request has been sent at least \<open>n\<close> times, at most five times, and not after \<open>t\<close>.\<close>

definition sent_between :: "nat \<Rightarrow> int \<Rightarrow> sr_arpreq list \<Rightarrow> bool" where
  "sent_between n t rs \<longleftrightarrow> (\<forall>r \<in> set rs. rq_sent r \<le> t \<and> n \<le> unat (rq_times_sent r) \<and> rq_times_sent r \<le> 5)"

lemma round_progress:
  assumes "sent_between n t rs" and "now env - t > 1"
  shows "sent_between (Suc n) (now env) (List.map_filter (round_req env) rs)"
    and "r \<in> set rs \<Longrightarrow> due env r"
proof -
  show due: "r \<in> set rs \<Longrightarrow> due env r" for r using assms by (force simp: sent_between_def due_def)
  have up: "unat (x + 1) = Suc (unat x) \<and> x + 1 \<le> 5" if "\<not> 5 \<le> x" for x :: u32
    using that by (simp add: word_le_nat_alt unat_word_ariths)
  show "sent_between (Suc n) (now env) (List.map_filter (round_req env) rs)"
    using assms due by (auto simp: sent_between_def map_filter_def round_req_def up split: if_splits)
qed

lemma cache_inv_round:
  assumes "cache_inv c"
  shows "cache_inv (c\<lparr>requests := List.map_filter (round_req env) (requests c)\<rparr>)"
proof -
  have same: "round_req env r = Some r' \<Longrightarrow> rq_ip r' = rq_ip r \<and> rq_id r' = rq_id r \<and> rq_packets r' = rq_packets r" for r r'
    by (auto simp: round_req_def split: if_splits)
  have d: "distinct (map f rs) \<Longrightarrow> (\<And>r r'. round_req env r = Some r' \<Longrightarrow> f r' = f r) \<Longrightarrow>
      distinct (map f (List.map_filter (round_req env) rs))" for f :: "sr_arpreq \<Rightarrow> 'b" and rs
    by (induction rs) (force simp: map_filter_simps map_filter_def split: option.splits)+
  show ?thesis
    using assms d [of rq_ip "requests c"] d [of rq_id "requests c"] same
    by (fastforce simp: cache_inv_def map_filter_def)
qed

text \<open>A packet was answered: every message that answers it was sent.\<close>

definition answered :: "env list \<Rightarrow> sr_instance \<Rightarrow> sr_instance \<Rightarrow> sr_packet list \<Rightarrow> bool" where
  "answered envs sr sr' ps \<longleftrightarrow>
     (\<exists>env \<in> set envs. \<forall>pk \<in> set ps. set (unreachable_out (expired (now env) sr) pk) \<subseteq> set (sock_out sr'))"

text \<open>A request after a round: it is still there with its packets, or each of its packets was answered.\<close>

lemma round_answers:
  assumes "r \<in> set rs" and "concat (map (round_out env e) rs) = out"
  shows "(\<exists>r' \<in> set (List.map_filter (round_req env) rs). rq_packets r' = rq_packets r)
    \<or> (\<forall>pk \<in> set (rq_packets r). set (unreachable_out e pk) \<subseteq> set out)"
proof (cases "round_req env r")
  case None
  then have "5 \<le> rq_times_sent r" "due env r" by (auto simp: round_req_def split: if_splits)
  then have "round_out env e r = concat (map (unreachable_out e) (rq_packets r))" by (simp add: round_out_def)
  moreover have "set (round_out env e r) \<subseteq> set out" using assms by auto
  ultimately show ?thesis by fastforce
next
  case (Some r')
  then have "r' \<in> set (List.map_filter (round_req env) rs)" "rq_packets r' = rq_packets r"
    using assms(1) by (auto simp: map_filter_def round_req_def split: if_splits)
  then show ?thesis by blast
qed

text \<open>What a round keeps for the next one.\<close>

definition advances :: "env \<Rightarrow> sr_instance \<Rightarrow> sr_instance \<Rightarrow> bool" where
  "advances env sr sr1 \<longleftrightarrow> (\<exists>out. sock_out sr1 = sock_out sr @ out)
     \<and> (\<forall>t. now env \<le> t \<longrightarrow> unreachable_out (expired t sr1) = unreachable_out (expired t sr))
     \<and> (\<forall>r \<in> set (requests (cache sr)). (\<exists>r1 \<in> set (requests (cache sr1)). rq_packets r1 = rq_packets r)
         \<or> (\<forall>pk \<in> set (rq_packets r). set (unreachable_out (expired (now env) sr) pk) \<subseteq> set (sock_out sr1)))"

lemma round_advances:
  assumes inv: "cache_inv (cache sr)" and sent: "sent_between n t (requests (cache sr))" and gap: "now env - t > 1"
    and T: "now env \<le> T" and ready: "list_all (ready (expired T sr)) (requests (cache sr))"
    and k: "length (requests (cache sr)) \<le> k"
  shows "\<exists>sr1. sr_arpcache_timeout k (Suc fuel) env sr = Inr sr1 \<and> cache_inv (cache sr1)
    \<and> sent_between (Suc n) (now env) (requests (cache sr1)) \<and> list_all (ready (expired T sr1)) (requests (cache sr1))
    \<and> length (requests (cache sr1)) \<le> k \<and> advances env sr sr1"
proof -
  let ?rs = "requests (cache sr)" and ?e = "expired (now env) sr"
  let ?rs' = "List.map_filter (round_req env) ?rs" and ?out = "concat (map (round_out env ?e) ?rs)"
  have "list_all (ready ?e) ?rs" using ready ready_earlier [OF T] by (auto simp: list_all_iff)
  then obtain log where h: "sr_arpcache_timeout k (Suc fuel) env sr = Inr (on_queue ?rs' log (sock_out sr @ ?out) ?e)"
    using round_exact [OF inv _ k] by blast
  define sr1 where "sr1 = on_queue ?rs' log (sock_out sr @ ?out) ?e"
  have q1: "requests (cache sr1) = ?rs'" "sock_out sr1 = sock_out sr @ ?out" by (simp_all add: sr1_def)
  have inv1: "cache_inv (cache sr1)"
    using cache_inv_round [OF cache_inv_expire [OF inv], of env "now env"] by (simp add: sr1_def)
  have keep: "r' \<in> set ?rs' \<Longrightarrow> \<exists>r \<in> set ?rs. rq_ip r' = rq_ip r \<and> rq_packets r' = rq_packets r" for r'
    by (auto simp: map_filter_def round_req_def split: if_splits)
  have ready1: "list_all (ready (expired T sr1)) (requests (cache sr1))"
    unfolding q1(1) sr1_def expired_after(1) [OF T] using keep ready by (fastforce simp: list_all_iff ready_def)
  have len1: "length (requests (cache sr1)) \<le> k"
    using k length_filter_le [of _ "map (round_req env) ?rs"] unfolding q1(1) map_filter_def
    by (auto intro: order_trans [OF length_filter_le])
  have "unreachable_out (expired u sr1) = unreachable_out (expired u sr)" if "now env \<le> u" for u
    unfolding sr1_def using that by (rule expired_after(2))
  moreover have "(\<exists>r1 \<in> set (requests (cache sr1)). rq_packets r1 = rq_packets r)
      \<or> (\<forall>pk \<in> set (rq_packets r). set (unreachable_out ?e pk) \<subseteq> set (sock_out sr1))" if "r \<in> set ?rs" for r
    using round_answers [OF that, of env ?e, OF refl] unfolding q1 set_append by blast
  ultimately have "advances env sr sr1" unfolding advances_def using q1(2) by blast
  then show ?thesis
    using h inv1 ready1 len1 round_progress(1) [OF sent gap] unfolding sr1_def [symmetric] by (auto simp: q1(1))
qed

lemma spaced_later: "spaced t envs \<Longrightarrow> env \<in> set envs \<Longrightarrow> t \<le> now env"
  by (induction envs arbitrary: t) fastforce+

text \<open>An answer in a later round is an answer, and so is one in the first.\<close>

lemma answered_later:
  assumes "advances env sr sr1" and "spaced (now env) envs" and "answered envs sr1 sr' ps"
  shows "answered (env # envs) sr sr' ps"
proof -
  have "unreachable_out (expired (now e) sr1) = unreachable_out (expired (now e) sr)" if "e \<in> set envs" for e
    using assms(1) spaced_later [OF assms(2) that] by (simp add: advances_def)
  then show ?thesis using assms(3) unfolding answered_def by (metis list.set_intros(2))
qed

lemma answered_first:
  "\<forall>pk \<in> set ps. set (unreachable_out (expired (now env) sr) pk) \<subseteq> set (sock_out sr1) \<Longrightarrow>
   set (sock_out sr1) \<subseteq> set (sock_out sr') \<Longrightarrow> answered (env # envs) sr sr' ps"
  by (auto simp: answered_def)

lemma rounds_progress:
  assumes "cache_inv (cache sr)" and "sent_between n t (requests (cache sr))" and "spaced t envs"
    and "\<forall>env \<in> set envs. now env \<le> T" and "list_all (ready (expired T sr)) (requests (cache sr))"
    and "length (requests (cache sr)) \<le> k"
  shows "\<exists>sr'. rounds k (Suc fuel) sr envs = Inr sr' \<and> (\<exists>t'. sent_between (n + length envs) t' (requests (cache sr')))
    \<and> set (sock_out sr) \<subseteq> set (sock_out sr')
    \<and> (\<forall>r \<in> set (requests (cache sr)). (\<exists>r' \<in> set (requests (cache sr')). rq_packets r' = rq_packets r)
        \<or> answered envs sr sr' (rq_packets r))"
  using assms
proof (induction envs arbitrary: sr n t)
  case Nil
  then show ?case by (auto simp: rounds_def)
next
  case (Cons env envs)
  have gap: "now env - t > 1" "spaced (now env) envs" "now env \<le> T" using Cons.prems(3,4) by simp_all
  obtain sr1 where sr1: "sr_arpcache_timeout k (Suc fuel) env sr = Inr sr1" and inv1: "cache_inv (cache sr1)"
    and sent1: "sent_between (Suc n) (now env) (requests (cache sr1))" and ready1: "list_all (ready (expired T sr1)) (requests (cache sr1))"
    and len1: "length (requests (cache sr1)) \<le> k" and adv: "advances env sr sr1"
    using round_advances [OF Cons.prems(1,2) gap(1,3) Cons.prems(5,6)] by blast
  obtain sr' t' where sr': "rounds k (Suc fuel) sr1 envs = Inr sr'"
    "sent_between (Suc n + length envs) t' (requests (cache sr'))" "set (sock_out sr1) \<subseteq> set (sock_out sr')"
    and ans: "\<forall>r \<in> set (requests (cache sr1)). (\<exists>r' \<in> set (requests (cache sr')). rq_packets r' = rq_packets r)
        \<or> answered envs sr1 sr' (rq_packets r)"
    using Cons.IH [OF inv1 sent1 gap(2) _ ready1 len1] Cons.prems(4) by auto
  have "(\<exists>r' \<in> set (requests (cache sr')). rq_packets r' = rq_packets r) \<or> answered (env # envs) sr sr' (rq_packets r)"
    if r: "r \<in> set (requests (cache sr))" for r
  proof -
    consider r1 where "r1 \<in> set (requests (cache sr1))" "rq_packets r1 = rq_packets r"
      | "\<forall>pk \<in> set (rq_packets r). set (unreachable_out (expired (now env) sr) pk) \<subseteq> set (sock_out sr1)"
      using adv r by (auto simp: advances_def)
    then show ?thesis
    proof cases
      case 1
      then show ?thesis using ans answered_later [OF adv gap(2)] by metis
    next
      case 2
      then show ?thesis using answered_first sr'(3) by blast
    qed
  qed
  moreover have "rounds k (Suc fuel) sr (env # envs) = Inr sr'" using sr1 sr'(1) by (simp add: rounds_def)
  moreover have "set (sock_out sr) \<subseteq> set (sock_out sr1)" using adv by (auto simp: advances_def)
  ultimately show ?case using sr'(2,3) by auto
qed

text \<open>After six rounds nothing is left of the requests.\<close>

lemma six_rounds:
  assumes "cache_inv (cache sr)" and "times_ok (cache sr)" and "\<forall>r \<in> set (requests (cache sr)). rq_sent r \<le> t"
    and "spaced t envs" and "length envs = 6" and "\<forall>env \<in> set envs. now env \<le> T"
    and "list_all (ready (expired T sr)) (requests (cache sr))" and "length (requests (cache sr)) \<le> k"
  shows "\<exists>sr'. rounds k (Suc fuel) sr envs = Inr sr' \<and> requests (cache sr') = []
    \<and> (\<forall>r \<in> set (requests (cache sr)). answered envs sr sr' (rq_packets r))"
proof -
  have "sent_between 0 t (requests (cache sr))" using assms(2,3) by (auto simp: sent_between_def times_ok_def)
  from rounds_progress [OF assms(1) this assms(4,6-8), of fuel] obtain sr' t' where
    sr': "rounds k (Suc fuel) sr envs = Inr sr'" "sent_between 6 t' (requests (cache sr'))"
    and ans: "\<forall>r \<in> set (requests (cache sr)). (\<exists>r' \<in> set (requests (cache sr')). rq_packets r' = rq_packets r)
        \<or> answered envs sr sr' (rq_packets r)"
    using assms(5) by auto
  have "\<not> (6 \<le> unat x \<and> x \<le> 5)" for x :: u32 by (simp add: word_le_nat_alt)
  then have "requests (cache sr') = []" using sr'(2) by (cases "requests (cache sr')") (auto simp: sent_between_def)
  then show ?thesis using sr'(1) ans by auto
qed

section \<open>A request freed during the sweep\<close>

text \<open>
  The sweep saves the next request before it handles one. Giving up on the request may itself give up the next one,
  when a waiting packet came from the address that the next one asks for: its memory is then freed before
  the sweep reaches it.
\<close>

lemma handle_exhausted_gone:
  assumes h: "sr_arpcache_handle_arpreq fuel env sr p = Inr sr'" and r: "req_at p sr = Inr r" "exhausted env r"
    and "cache_inv (cache sr)" and "times_ok (cache sr)"
  shows "p \<notin> rq_id ` set (requests (cache sr'))"
proof -
  obtain f sr1 where f: "fuel = Suc f" and l: "unreachable_loop (sr_arpcache_handle_arpreq f env) env p sr (rq_packets r) = Inr sr1"
    and sr': "sr' = sr1\<lparr>cache := sr_arpreq_destroy (cache sr1) (Some p)\<rparr>"
    using h r by (cases fuel) (auto simp: exhausted_def)
  have "router_step sr sr1" by (rule step.R_loop [OF step.R_handle l])
  then have "cache_inv (cache sr1)" using router_stepD(5) assms(4,5) by blast
  then show ?thesis
    unfolding sr' using remove_req_absent [of "requests (cache sr1)" p] by (simp add: sr_arpreq_destroy_def cache_inv_def)
qed

lemma sweep_uses_freed:
  assumes calm: "calm env rank sr" and t: "times_ok (cache sr)" and q: "requests (cache sr) = r1 # r2 # rs"
    and ex: "exhausted env r1" "exhausted env r2" and pk: "rq_packets r1 = [pk]" "pk_src pk = rq_ip r2"
    and look: "sr_arpcache_lookup (cache sr) (rq_ip r2) = None"
    and e: "sr_findLPMentry (routing_table sr) (rq_ip r2) = Some e" and fuel: "rank (rq_ip r1) + 2 \<le> fuel"
  shows "sr_arpcache_sweepreqs (Suc (Suc k)) fuel env sr = Inl Use_after_free"
proof -
  have inv: "cache_inv (cache sr)" using calm by (simp add: calm_def)
  then have ids: "rq_id r1 \<noteq> rq_id r2" "rq_ip r1 \<noteq> rq_ip r2" using q by (auto simp: cache_inv_def)
  have at: "req_at (rq_id r1) sr = Inr r1" "find_req (rq_ip r2) (requests (cache sr)) = Some r2"
    using q ids by (simp_all add: req_at_def)
  obtain sr' where sr': "sr_arpcache_handle_arpreq fuel env sr (rq_id r1) = Inr sr'"
    using handle_settles [OF calm at(1)] ex(1) fuel by (auto simp: settled_def)
  obtain i where i: "sr_get_interface sr (list_of (rt_interface e)) = Some i" using calm_route [OF calm e] .
  have long: "42 \<le> length (pk_buf pk)" using calm q pk(1) by (auto simp: calm_def long_packets_def quotable_def)
  let ?n = "new_pkt (unreachable_frame (unset_mac env 70) i (pk_buf pk)) 70 (list_of (rt_interface e))"
  let ?c = "(cache sr)\<lparr>requests := upd_req (rq_id r2) (\<lambda>r. r\<lparr>rq_packets := ?n # rq_packets r\<rparr>) (requests (cache sr))\<rparr>"
  have qr: "sr_arpcache_queuereq (cache sr) (rq_ip r2) (Some (unreachable_frame (unset_mac env 70) i (pk_buf pk))) 70
      (Some (list_of (rt_interface e))) = Inr (rq_id r2, ?c)"
    using at(2) by (simp add: sr_arpcache_queuereq_def queuereq_find_def)
  have "ip_src (ip_at 14 (pk_buf pk)) = rq_ip r2" using pk(2) by (simp add: pk_src_def)
  then have host: "host_unreachable rec env sr pk = rec (sr\<lparr>cache := ?c\<rparr>) (rq_id r2)" for rec
    using long e i look qr by (simp add: host_unreachable_eq)
  obtain f sr1 where f: "fuel = Suc f" and rec: "sr_arpcache_handle_arpreq f env (sr\<lparr>cache := ?c\<rparr>) (rq_id r2) = Inr sr1"
    and out: "sr' = sr1\<lparr>cache := sr_arpreq_destroy (cache sr1) (Some (rq_id r1))\<rparr>"
    using sr' at(1) ex(1) pk(1) by (cases fuel) (auto simp: exhausted_def host)
  have c: "cache_inv ?c \<and> times_ok ?c" using queuereq_keeps(2) [OF qr inv t] .
  have "req_at (rq_id r2) (sr\<lparr>cache := ?c\<rparr>) = Inr (r2\<lparr>rq_packets := ?n # rq_packets r2\<rparr>)"
    using q ids by (simp add: req_at_def upd_req_def)
  then have "rq_id r2 \<notin> rq_id ` set (requests (cache sr1))"
    using handle_exhausted_gone [OF rec] ex(2) c by (simp add: exhausted_def)
  then have "rq_id r2 \<notin> rq_id ` set (requests (cache sr'))"
    unfolding out using set_remove_req [of "rq_id r1" "requests (cache sr1)"] by (auto simp: sr_arpreq_destroy_def)
  then have "req_at (rq_id r2) sr' = Inl Use_after_free"
    by (auto simp: req_at_def find_None_iff split: option.splits) (metis find_Some_iff image_eqI nth_mem)
  then show ?thesis
    using q at(1) sr' by (simp add: sr_arpcache_sweepreqs_def del: sr_arpcache_handle_arpreq.simps)
qed

text \<open>A round that returns, without further conditions: exactly the mappings older than 15 seconds are invalid
  afterwards and no lookup finds an older one; interfaces, routes and the structure of the queue are kept.\<close>

lemma timeout_round:
  assumes "sr_arpcache_timeout k fuel env sr = Inr sr'" and "cache_inv (cache sr)" and "times_ok (cache sr)"
  shows "entries (cache sr') = map (expire_entry (now env)) (entries (cache sr))
    \<and> (\<forall>ip m t. arp_view (cache sr') ip = Some (m, t) \<longrightarrow> now env - t \<le> SR_ARPCACHE_TO)
    \<and> if_list sr' = if_list sr \<and> routing_table sr' = routing_table sr
    \<and> cache_inv (cache sr') \<and> times_ok (cache sr')"
proof -
  let ?sr = "sr\<lparr>cache := sr_arpcache_expire (now env) (cache sr)\<rparr>"
  have step: "router_step ?sr sr'" using assms(1) by (rule step.R_timeout)
  have e: "entries (cache sr') = entries (sr_arpcache_expire (now env) (cache sr))"
    using router_stepD(3) [OF step] by simp
  then have v: "arp_view (cache sr') = arp_view (sr_arpcache_expire (now env) (cache sr))"
    by (simp add: arp_view_def sr_arpcache_lookup_def fun_eq_iff)
  have "cache_inv (cache sr') \<and> times_ok (cache sr')"
    using router_stepD(5,6) [OF step] assms(2,3) cache_inv_expire by simp
  then show ?thesis
    using router_stepD(1,2) [OF step] e v arp_table.view_expired
    by (simp add: sr_arpcache_expire_def [of "now env" "cache sr"]) (metis sr_arpcache_expire_def)
qed

section \<open>Rounds that repeat a request\<close>

text \<open>How often rounds repeat a request that was sent at \<open>t\<close>.\<close>

fun resends :: "int \<Rightarrow> env list \<Rightarrow> nat" where
  "resends t [] = 0"
| "resends t (env # envs) = (if now env - t > 1 then Suc (resends (now env) envs) else resends t envs)"

text \<open>A table without mappings stays as it is.\<close>

definition no_mappings :: "sr_arpcache \<Rightarrow> bool" where
  "no_mappings c \<longleftrightarrow> (\<forall>e \<in> set (entries c). \<not> ae_valid e)"

lemma expired_no_mappings: "no_mappings (cache sr) \<Longrightarrow> expired t sr = sr"
proof -
  assume "no_mappings (cache sr)"
  then have "map (expire_entry t) (entries (cache sr)) = entries (cache sr)"
    by (intro map_idI) (simp add: no_mappings_def expire_entry_def)
  then show ?thesis by (simp add: expired_def sr_arpcache_expire_def)
qed

lemma round_idle: "requests (cache sr) = [] \<Longrightarrow> sr_arpcache_timeout k fuel env sr = Inr (expired (now env) sr)"
  by (cases k) (simp_all add: sr_arpcache_timeout_def sr_arpcache_sweepreqs_def expired_def sr_arpcache_expire_def)

text \<open>Rounds without requests send nothing, and on an empty table they do nothing.\<close>

lemma rounds_idle:
  "requests (cache sr) = [] \<Longrightarrow> \<exists>c. rounds k fuel sr envs = Inr (sr\<lparr>cache := c\<rparr>) \<and> requests c = []"
proof (induction envs arbitrary: sr)
  case Nil
  then show ?case by (intro exI [of _ "cache sr"]) (simp add: rounds_def)
next
  case (Cons env envs)
  from Cons.IH [of "expired (now env) sr"] obtain c where "rounds k fuel (expired (now env) sr) envs = Inr ((expired (now env) sr)\<lparr>cache := c\<rparr>)"
    "requests c = []" using Cons.prems by auto
  then show ?case using round_idle [OF Cons.prems] by (intro exI [of _ c]) (simp add: rounds_def expired_def)
qed

lemma rounds_empty: "requests (cache sr) = [] \<Longrightarrow> no_mappings (cache sr) \<Longrightarrow> rounds k fuel sr envs = Inr sr"
  by (induction envs) (simp_all add: rounds_def round_idle expired_no_mappings)

text \<open>One request, which is not given up in these rounds.\<close>

lemma rounds_resend:
  assumes "requests (cache sr) = [r]" and "no_mappings (cache sr)"
    and "sr_findLPMentry (routing_table sr) (rq_ip r) = Some e" and "sr_get_interface sr (list_of (rt_interface e)) = Some i"
    and "unat (rq_times_sent r) + resends (rq_sent r) envs \<le> 5"
  shows "\<exists>log r'. rounds (Suc k) (Suc fuel) sr envs = Inr (on_queue [r'] log (sock_out sr @ replicate (resends (rq_sent r) envs)
      (vns_frame (list_of (if_name i)) (arp_request_frame (if_addr i) (if_ip i) (rq_ip r)))) sr)
    \<and> rq_id r' = rq_id r \<and> rq_ip r' = rq_ip r \<and> rq_packets r' = rq_packets r"
  using assms
proof (induction envs arbitrary: sr r)
  case Nil
  have "sr = on_queue [r] (logfile sr) (sock_out sr) sr" using Nil(1) by simp
  then show ?case by (intro exI [of _ "logfile sr"] exI [of _ r]) (simp add: rounds_def)
next
  case (Cons env envs)
  have e: "expired (now env) sr = sr" using Cons.prems(2) by (rule expired_no_mappings)
  have few: "\<not> exhausted env r" using Cons.prems(5) by (auto simp: exhausted_def word_le_nat_alt)
  then have "able env sr r" using Cons.prems(3,4) by (simp add: able_def routed_def)
  from round_able [of sr env "Suc k" fuel, unfolded e Cons.prems(1)] this obtain log where
    h: "sr_arpcache_timeout (Suc k) (Suc fuel) env sr =
      Inr (on_queue (List.map_filter (round_req env) [r]) log (sock_out sr @ round_out env sr r) sr)" by auto
  define r1 where "r1 = (if due env r then r\<lparr>rq_sent := now env, rq_times_sent := rq_times_sent r + 1\<rparr> else r)"
  have r1: "round_req env r = Some r1" using few by (auto simp: round_req_def r1_def exhausted_def due_def)
  let ?f = "vns_frame (list_of (if_name i)) (arp_request_frame (if_addr i) (if_ip i) (rq_ip r))"
  define sr1 where "sr1 = on_queue [r1] log (sock_out sr @ (if due env r then [?f] else [])) sr"
  have "round_out env sr r = (if due env r then [?f] else [])"
    using few Cons.prems(3,4) by (auto simp: round_out_def arp_request_out_def exhausted_def due_def)
  then have step: "sr_arpcache_timeout (Suc k) (Suc fuel) env sr = Inr sr1" using h r1 by (simp add: sr1_def map_filter_simps)
  have s: "resends (rq_sent r) (env # envs) = (if due env r then Suc (resends (rq_sent r1) envs) else resends (rq_sent r1) envs)"
    by (simp add: r1_def due_def)
  have "unat (rq_times_sent r1) + resends (rq_sent r1) envs \<le> 5"
    using Cons.prems(5) by (simp add: r1_def due_def unat_word_ariths split: if_splits)
  moreover have same: "rq_id r1 = rq_id r" "rq_ip r1 = rq_ip r" "rq_packets r1 = rq_packets r" by (simp_all add: r1_def)
  moreover have "requests (cache sr1) = [r1]" "no_mappings (cache sr1)" "routing_table sr1 = routing_table sr"
    "sr_get_interface sr1 = sr_get_interface sr" using Cons.prems(2) by (simp_all add: sr1_def no_mappings_def)
  ultimately obtain log' r' where "rounds (Suc k) (Suc fuel) sr1 envs = Inr (on_queue [r'] log' (sock_out sr1 @ replicate (resends (rq_sent r1) envs) ?f) sr1)"
    "rq_id r' = rq_id r1" "rq_ip r' = rq_ip r1" "rq_packets r' = rq_packets r1"
    using Cons.IH [of sr1 r1] Cons.prems(3,4) by auto
  then show ?case
    using step by (intro exI [of _ log'] exI [of _ r']) (simp add: rounds_def s same del: resends.simps, simp add: sr1_def)
qed

end
