(* ===== verification/Startup.thy ===== *)
theory Startup
  imports Session Rtfile Rounds
begin

text \<open>
  Start-up and the main loop, \<^verbatim>\<open>src/sr_main.c\<close>. The options are what \<^verbatim>\<open>getopt\<close> yields, in order: a letter with its
  argument. \<open>boot\<close> is what else comes from outside: the user's name, the stack, which files can be
  created for the log, and what was printed before it is opened. The main loop may run forever, so it is a partial function.
\<close>

section \<open>The code\<close>

record opts =
  o_host :: "byte list"
  o_user :: "byte list option"
  o_server :: "byte list"
  o_rtable :: "byte list"
  o_template :: "byte list option"
  o_port :: u32
  o_topo :: u32
  o_logfile :: "byte list option"

definition default_opts :: opts where
  "default_opts = \<lparr> o_host = text_bytes ''vrhost'', o_user = None, o_server = text_bytes ''localhost'',
     o_rtable = text_bytes ''rtable'', o_template = None, o_port = 8888, o_topo = 0, o_logfile = None \<rparr>"

text \<open>\<^verbatim>\<open>atoi\<close>: white space, a sign, decimal digits; \<^verbatim>\<open>strtol\<close> saturates and the result is cut to an \<^verbatim>\<open>int\<close>.\<close>

definition atoi :: "byte list \<Rightarrow> u32" where
  "atoi s =
     (let s = dropWhile is_space (cstr s);
          neg = (s \<noteq> [] \<and> hd s = 45);
          ds = (if s \<noteq> [] \<and> (hd s = 45 \<or> hd s = 43) then tl s else s);
          v = int (fst (strtoul_digits 10 0 ds))
      in of_int (if neg then max (- (2 ^ 63)) (- v) else min (2 ^ 63 - 1) v))"

text \<open>The loop over the options; \<open>None\<close> where \<^verbatim>\<open>-h\<close> prints the usage and exits.\<close>

fun parse_opts :: "opts \<Rightarrow> (char \<times> byte list) list \<Rightarrow> opts option" where
  "parse_opts p [] = Some p"
| "parse_opts p ((c, optarg) # rest) =
     (if c = CHR ''h'' then None
      else parse_opts
        (if c = CHR ''p'' then p\<lparr>o_port := atoi optarg\<rparr>
         else if c = CHR ''t'' then p\<lparr>o_topo := atoi optarg\<rparr>
         else if c = CHR ''v'' then p\<lparr>o_host := optarg\<rparr>
         else if c = CHR ''u'' then p\<lparr>o_user := Some optarg\<rparr>
         else if c = CHR ''s'' then p\<lparr>o_server := optarg\<rparr>
         else if c = CHR ''l'' then p\<lparr>o_logfile := Some optarg\<rparr>
         else if c = CHR ''r'' then p\<lparr>o_rtable := optarg\<rparr>
         else if c = CHR ''T'' then p\<lparr>o_template := Some optarg\<rparr>
         else p) rest)"

text \<open>\<^verbatim>\<open>a[0] = 0\<close>\<close>

definition clear_str :: "('n::len) barr \<Rightarrow> 'n barr" where
  "clear_str a = barr_of ((list_of a)[0 := 0])"

definition sr_init_instance :: "sr_instance \<Rightarrow> sr_instance" where
  "sr_init_instance sr = sr\<lparr>sockfd := - 1, user := clear_str (user sr), host := clear_str (host sr), topo_id := 0,
     if_list := [], routing_table := [], logfile := None\<rparr>"

definition sr_set_user :: "byte list option \<Rightarrow> sr_instance \<Rightarrow> sr_instance" where
  "sr_set_user pw sr =
     (case pw of
        None \<Rightarrow> sr\<lparr>user := strncpy (text_bytes ''something_silly'')\<rparr>
      | Some pw_name \<Rightarrow> sr\<lparr>user := strncpy pw_name\<rparr>)"

text \<open>The return value says whether \<^verbatim>\<open>exit(1)\<close> was not called.\<close>

definition sr_load_rt_wrap :: "rt_words \<Rightarrow> sr_instance \<Rightarrow> byte list option \<Rightarrow> (bool \<times> sr_instance) res" where
  "sr_load_rt_wrap stack sr file = bnd (sr_load_rt stack sr file) (\<lambda>(r, sr). Inr (r = 0, sr))"

text \<open>Closing the log keeps what was written to it.\<close>

definition sr_destroy_instance :: "sr_instance \<Rightarrow> sr_instance" where
  "sr_destroy_instance sr = (case logfile sr of None \<Rightarrow> sr | Some f \<Rightarrow> sr\<lparr>logfile := Some (sr_dump_close f)\<rparr>)"

record boot =
  pw_name :: "byte list option"
  stack_words :: "nat \<Rightarrow> rt_words"
  log_fopen :: "byte list \<Rightarrow> byte list option"
  std_out :: "byte list"

text \<open>Everything before the connection: the instance is set up from the options.\<close>

definition main_setup :: "boot \<Rightarrow> opts \<Rightarrow> conn \<Rightarrow> (bool \<times> conn) res" where
  "main_setup b p c =
     (let sr = sr_init_instance (inst c) in
      bnd (case o_template p of
             None \<Rightarrow> sr_load_rt_wrap (stack_words b 0) (sr\<lparr>template := clear_str (template sr)\<rparr>) (files c (cstr (o_rtable p)))
           | Some t \<Rightarrow> Inr (True, sr\<lparr>template := strncpy t\<rparr>)) (\<lambda>(ok, sr).
      if \<not> ok then Inr (False, c\<lparr>inst := sr\<rparr>)
      else
        let sr = sr\<lparr>topo_id := ucast (o_topo p), host := strncpy (o_host p)\<rparr>;
            sr = (case o_user p of None \<Rightarrow> sr_set_user (pw_name b) sr | Some u \<Rightarrow> sr\<lparr>user := strncpy u\<rparr>) in
        (case o_logfile p of
           None \<Rightarrow> Inr (True, c\<lparr>inst := sr\<rparr>)
         | Some l \<Rightarrow>
             let log = sr_dump_open (log_fopen b) (std_out b) l 0 (of_nat PACKET_DUMP_SIZE); sr = sr\<lparr>logfile := log\<rparr> in
             Inr (log \<noteq> None, c\<lparr>inst := sr\<rparr>))))"

text \<open>
  The thread that \<^verbatim>\<open>sr_init\<close> starts makes some rounds between two commands. Both bounds of a round are \<open>fuel\<close>.
\<close>

definition timeout_rounds :: "nat \<Rightarrow> os \<Rightarrow> conn \<Rightarrow> conn res" where
  "timeout_rounds fuel os c = bnd (rounds fuel fuel (inst c) (ticks os)) (\<lambda>sr. Inr (c\<lparr>inst := sr\<rparr>))"

text \<open>\<^verbatim>\<open>while (sr_read_from_server(&sr) == 1);\<close> with the rounds of the other thread in between.\<close>

partial_function (option) main_loop :: "nat \<Rightarrow> (nat \<Rightarrow> os) \<Rightarrow> nat \<Rightarrow> conn \<Rightarrow> conn res option" where
  "main_loop fuel os k c =
     (case sr_read_from_server fuel (os k) c of
        None \<Rightarrow> None
      | Some (Inl e) \<Rightarrow> Some (Inl e)
      | Some (Inr (r, c)) \<Rightarrow>
        if r = 1 then
          (case timeout_rounds fuel (os k) c of
             Inl e \<Rightarrow> Some (Inl e)
           | Inr c \<Rightarrow> main_loop fuel os (Suc k) c)
        else Some (Inr c))"

text \<open>
  After the connection the table is read again, then the ARP cache is initialised, the timeout thread is started, and the loop
  starts.
\<close>

definition main_run :: "nat \<Rightarrow> boot \<Rightarrow> (nat \<Rightarrow> os) \<Rightarrow> opts \<Rightarrow> conn \<Rightarrow> (int \<times> conn) res option" where
  "main_run fuel b os p c =
     (let file = (if o_template p \<noteq> None \<and> cstr (o_rtable p) = text_bytes ''rtable.vrhost''
          then text_bytes ''rtable.vrhost'' else cstr (o_rtable p)) in
      case sr_load_rt_wrap (stack_words b 1) (inst c) (files c file) of
        Inl e \<Rightarrow> Some (Inl e)
      | Inr (ok, sr) \<Rightarrow>
        if \<not> ok then Some (Inr (1, c\<lparr>inst := sr\<rparr>))
        else
          (case timeout_rounds fuel (os 2) (c\<lparr>inst := sr_init sr\<rparr>) of
             Inl e \<Rightarrow> Some (Inl e)
           | Inr c \<Rightarrow>
             (case main_loop fuel os 3 c of
                None \<Rightarrow> None
              | Some (Inl e) \<Rightarrow> Some (Inl e)
              | Some (Inr c) \<Rightarrow> Some (Inr (0, c\<lparr>inst := sr_destroy_instance (inst c)\<rparr>)))))"

definition main :: "nat \<Rightarrow> boot \<Rightarrow> (nat \<Rightarrow> os) \<Rightarrow> (char \<times> byte list) list \<Rightarrow> conn \<Rightarrow> (int \<times> conn) res option" where
  "main fuel b os args c =
     (case parse_opts default_opts args of
        None \<Rightarrow> Some (Inr (0, c))
      | Some p \<Rightarrow>
        (case main_setup b p c of
           Inl e \<Rightarrow> Some (Inl e)
         | Inr (ok, c) \<Rightarrow>
           if \<not> ok then Some (Inr (1, c))
           else
             (case sr_connect_to_server fuel os c (o_server p) of
                None \<Rightarrow> None
              | Some (Inl e) \<Rightarrow> Some (Inl e)
              | Some (Inr (r, c)) \<Rightarrow> if r = - 1 then Some (Inr (1, c)) else main_run fuel b os p c)))"

section \<open>The session as a sequence of commands\<close>

text \<open>
  The effect of the commands one after the other, with the rounds in between; the flag says that one of them ended the session.
\<close>

primrec run_msgs :: "nat \<Rightarrow> (nat \<Rightarrow> os) \<Rightarrow> nat \<Rightarrow> conn \<Rightarrow> byte list list \<Rightarrow> (bool \<times> conn) res" where
  "run_msgs fuel os k c [] = Inr (False, c)"
| "run_msgs fuel os k c (m # ms) =
     bnd (dispatch fuel (os k) c (command_of m) (host_order m)) (\<lambda>(r, c).
     if r = 1 then bnd (timeout_rounds fuel (os k) c) (\<lambda>c. run_msgs fuel os (Suc k) c ms) else Inr (True, c))"

text \<open>A command does not look at the input that follows it.\<close>

lemma dispatch_input:
  "dispatch fuel os (c\<lparr>input := es\<rparr>) cmd m = bnd (dispatch fuel os c cmd m) (\<lambda>(r, c'). Inr (r, c'\<lparr>input := es\<rparr>))"
proof -
  have request: "sr_handle_auth_request os (c\<lparr>input := es\<rparr>) m =
      bnd (sr_handle_auth_request os c m) (\<lambda>(ok, c'). Inr (ok, c'\<lparr>input := es\<rparr>))"
    by (simp add: sr_handle_auth_request_def bnd_def Let_def split: option.splits sum.splits prod.splits)
  have rtable: "sr_handle_rtable os (c\<lparr>input := es\<rparr>) m =
      bnd (sr_handle_rtable os c m) (\<lambda>(ok, c'). Inr (ok, c'\<lparr>input := es\<rparr>))"
    by (simp add: sr_handle_rtable_def bnd_def Let_def split: sum.splits)
  have comm: "c\<lparr>input := es, inst := sr\<rparr> = c\<lparr>inst := sr, input := es\<rparr>" for sr by simp
  have ins: "inst (c\<lparr>input := es\<rparr>) = inst c" by simp
  show ?thesis
    unfolding dispatch_def request rtable bnd_if bnd_assoc case_prod_unfold bnd_Inr fst_conv snd_conv comm ins ..
qed

lemma timeout_rounds_input:
  "timeout_rounds fuel os (c\<lparr>input := es\<rparr>) = bnd (timeout_rounds fuel os c) (\<lambda>c'. Inr (c'\<lparr>input := es\<rparr>))"
  by (simp add: timeout_rounds_def bnd_def split: sum.split)

text \<open>Rounds after \<^verbatim>\<open>sr_init\<close> and before the first command do nothing.\<close>

lemma timeout_rounds_init: "timeout_rounds fuel os (c\<lparr>inst := sr_init sr\<rparr>) = Inr (c\<lparr>inst := sr_init sr\<rparr>)"
proof -
  have "requests (cache (sr_init sr)) = []" "no_mappings (cache (sr_init sr))"
    by (simp_all add: sr_init_def sr_arpcache_init_def no_mappings_def)
  then show ?thesis by (simp add: timeout_rounds_def rounds_empty)
qed

lemma run_msgs_input:
  "run_msgs fuel os k (c\<lparr>input := es\<rparr>) ms = bnd (run_msgs fuel os k c ms) (\<lambda>(b, c'). Inr (b, c'\<lparr>input := es\<rparr>))"
proof (induction ms arbitrary: k c)
  case (Cons m ms)
  show ?case
  proof (cases "dispatch fuel (os k) c (command_of m) (host_order m)")
    case (Inr x)
    then show ?thesis using Cons.IH by (cases x) (simp add: dispatch_input timeout_rounds_input bnd_assoc)
  qed (simp add: dispatch_input)
qed simp

lemma read_msg:
  assumes "msg_ok m" and "stream (input c) = m @ rest"
  shows "\<exists>es. stream es = rest \<and> (Failed \<notin> set (input c) \<longrightarrow> Failed \<notin> set es)
    \<and> sr_read_from_server fuel os c = Some (bnd (dispatch fuel os c (command_of m) (host_order m)) (\<lambda>(r, c'). Inr (r, c'\<lparr>input := es\<rparr>)))"
  using expect_msg [OF assms, of fuel os 0] by (simp add: sr_read_from_server_def dispatch_input)

text \<open>The loop follows the commands in the stream, first one, then all.\<close>

lemma main_loop_msg:
  assumes "msg_ok m" and "stream (input c) = m @ rest"
  shows "\<exists>es. stream es = rest \<and> (Failed \<notin> set (input c) \<longrightarrow> Failed \<notin> set es) \<and> main_loop fuel os k c =
    (case dispatch fuel (os k) c (command_of m) (host_order m) of
       Inl e \<Rightarrow> Some (Inl e)
     | Inr (r, c') \<Rightarrow>
         if r = 1 then (case timeout_rounds fuel (os k) c' of Inl e \<Rightarrow> Some (Inl e) | Inr c1 \<Rightarrow> main_loop fuel os (Suc k) (c1\<lparr>input := es\<rparr>))
         else Some (Inr (c'\<lparr>input := es\<rparr>)))"
proof -
  obtain es where "stream es = rest" "Failed \<notin> set (input c) \<longrightarrow> Failed \<notin> set es"
    and "sr_read_from_server fuel (os k) c =
      Some (bnd (dispatch fuel (os k) c (command_of m) (host_order m)) (\<lambda>(r, c'). Inr (r, c'\<lparr>input := es\<rparr>)))"
    using read_msg [OF assms, of fuel "os k"] by blast
  then show ?thesis
    by (intro exI [of _ es], subst main_loop.simps) (simp add: timeout_rounds_input bnd_def split: sum.splits)
qed

lemma main_loop_msgs:
  assumes "\<forall>m \<in> set ms. msg_ok m" and "stream (input c) = concat ms @ rest"
  shows "\<exists>es. (Failed \<notin> set (input c) \<longrightarrow> Failed \<notin> set es) \<and> main_loop fuel os k c =
    (case run_msgs fuel os k c ms of
       Inl e \<Rightarrow> Some (Inl e)
     | Inr (True, c') \<Rightarrow> Some (Inr (c'\<lparr>input := es\<rparr>))
     | Inr (False, c') \<Rightarrow> main_loop fuel os (k + length ms) (c'\<lparr>input := es\<rparr>)) \<and> (\<forall>c'. run_msgs fuel os k c ms = Inr (False, c') \<longrightarrow> stream es = rest)"
  using assms
proof (induction ms arbitrary: c k)
  case Nil
  then show ?case by (intro exI [of _ "input c"]) simp
next
  case (Cons m ms)
  obtain es where es: "stream es = concat ms @ rest" "Failed \<notin> set (input c) \<longrightarrow> Failed \<notin> set es" and step: "main_loop fuel os k c =
      (case dispatch fuel (os k) c (command_of m) (host_order m) of
         Inl e \<Rightarrow> Some (Inl e)
       | Inr (r, c') \<Rightarrow>
           if r = 1 then (case timeout_rounds fuel (os k) c' of Inl e \<Rightarrow> Some (Inl e) | Inr c1 \<Rightarrow> main_loop fuel os (Suc k) (c1\<lparr>input := es\<rparr>))
           else Some (Inr (c'\<lparr>input := es\<rparr>)))"
    using main_loop_msg [of m c "concat ms @ rest" fuel os k] Cons.prems by auto
  show ?case
  proof (cases "\<exists>c0 c1. dispatch fuel (os k) c (command_of m) (host_order m) = Inr (1, c0) \<and> timeout_rounds fuel (os k) c0 = Inr c1")
    case True
    then obtain c0 c1 where d: "dispatch fuel (os k) c (command_of m) (host_order m) = Inr (1, c0)" "timeout_rounds fuel (os k) c0 = Inr c1"
      by blast
    let ?c = "c1\<lparr>input := es\<rparr>"
    have run: "run_msgs fuel os (Suc k) ?c ms = bnd (run_msgs fuel os k c (m # ms)) (\<lambda>(b, c'). Inr (b, c'\<lparr>input := es\<rparr>))"
      using d by (simp add: run_msgs_input)
    obtain es' where nf: "Failed \<notin> set (input ?c) \<longrightarrow> Failed \<notin> set es'" and main: "main_loop fuel os (Suc k) ?c =
        (case run_msgs fuel os (Suc k) ?c ms of
           Inl e \<Rightarrow> Some (Inl e)
         | Inr (True, c') \<Rightarrow> Some (Inr (c'\<lparr>input := es'\<rparr>))
         | Inr (False, c') \<Rightarrow> main_loop fuel os (Suc k + length ms) (c'\<lparr>input := es'\<rparr>))"
      and st: "\<forall>c'. run_msgs fuel os (Suc k) ?c ms = Inr (False, c') \<longrightarrow> stream es' = rest"
      using Cons.IH [of ?c "Suc k"] Cons.prems es(1) by auto
    have "main_loop fuel os k c = (case run_msgs fuel os k c (m # ms) of
        Inl e \<Rightarrow> Some (Inl e)
      | Inr (True, c') \<Rightarrow> Some (Inr (c'\<lparr>input := es'\<rparr>))
      | Inr (False, c') \<Rightarrow> main_loop fuel os (k + length (m # ms)) (c'\<lparr>input := es'\<rparr>))"
      using step d main unfolding run by (cases "run_msgs fuel os k c (m # ms)") (auto split: bool.splits)
    moreover have "\<forall>c'. run_msgs fuel os k c (m # ms) = Inr (False, c') \<longrightarrow> stream es' = rest" using st run by auto
    moreover have "Failed \<notin> set (input c) \<longrightarrow> Failed \<notin> set es'" using es(2) nf by simp
    ultimately show ?thesis by blast
  next
    case False
    then show ?thesis
      using es(2) step by (intro exI [of _ es]) (auto split: sum.splits)
  qed
qed

text \<open>Without a further command the loop waits, and when the server hangs up it never ends.\<close>

lemma main_loop_hangup:
  assumes "Failed \<notin> set (input c)" and "length (stream (input c)) < 4"
  shows "main_loop fuel os k c = None"
  using expect_closed [OF assms] by (subst main_loop.simps) (simp add: sr_read_from_server_def)

section \<open>The handshake\<close>

text \<open>What is needed for authentication: the key file and a terminated user name.\<close>

definition credentials :: "conn \<Rightarrow> byte list \<Rightarrow> bool" where
  "credentials c key \<longleftrightarrow> length key = 64 \<and> 10 \<notin> set key \<and> 0 \<in> set (list_of (user (inst c)))
     \<and> (\<exists>rest. files c (text_bytes ''auth_key'') = Some (key @ rest))"

lemma expect_auth_request:
  assumes "credentials c key" and "length salt + 8 \<le> 10000" and "stream (input c) = vns_msg VNS_AUTH_REQUEST salt @ rest"
    and "reply = auth_reply_msg (cstr (list_of (user (inst c)))) (sha1 (salt @ key))"
  shows "\<exists>es. stream es = rest \<and> sr_read_from_server_expect fuel os c VNS_AUTH_REQUEST =
    Some (Inr (if write_ret (proc os) reply = int (length reply) then 1 else - 1,
      c\<lparr>inst := (inst c)\<lparr>sock_out := sock_out (inst c) @ [reply]\<rparr>, input := es\<rparr>))"
proof -
  let ?m = "vns_msg VNS_AUTH_REQUEST salt"
  have ok: "msg_ok ?m" using assms(2) by (intro vns_msg_parts(2)) simp
  obtain es where es: "stream es = rest" "sr_read_from_server_expect fuel os c VNS_AUTH_REQUEST =
      Some (dispatch fuel os (c\<lparr>input := es\<rparr>) VNS_AUTH_REQUEST (host_order ?m))"
    using expect_msg [OF ok assms(3), of fuel os VNS_AUTH_REQUEST] by (auto simp: vns_msg_parts)
  obtain kr where k: "files c (text_bytes ''auth_key'') = Some (key @ kr)" using assms(1) by (auto simp: credentials_def)
  have "sr_handle_auth_request os (c\<lparr>input := es\<rparr>) (host_order ?m) =
      Inr (write_ret (proc os) reply = int (length reply),
        (c\<lparr>input := es\<rparr>)\<lparr>inst := (inst c)\<lparr>sock_out := sock_out (inst c) @ [reply]\<rparr>\<rparr>)"
    using handle_auth_request [of salt "c\<lparr>input := es\<rparr>" key kr reply os] assms k by (simp add: credentials_def)
  then have "dispatch fuel os (c\<lparr>input := es\<rparr>) VNS_AUTH_REQUEST (host_order ?m) =
      Inr (if write_ret (proc os) reply = int (length reply) then 1 else - 1,
        c\<lparr>inst := (inst c)\<lparr>sock_out := sock_out (inst c) @ [reply]\<rparr>, input := es\<rparr>)"
    by (simp add: dispatch_def command_numbers)
  then show ?thesis using es by auto
qed

lemma expect_auth_status:
  assumes "9 + length why \<le> 10000" and "stream (input c) = vns_msg VNS_AUTH_STATUS (auth # why) @ rest"
    and "auth \<noteq> 0 \<or> 0 \<in> set why" and "0 \<in> set (list_of (user (inst c)))"
  shows "\<exists>es. stream es = rest \<and> sr_read_from_server_expect fuel os c VNS_AUTH_STATUS =
    Some (Inr (if auth \<noteq> 0 then 1 else - 1, c\<lparr>input := es\<rparr>))"
proof -
  let ?m = "vns_msg VNS_AUTH_STATUS (auth # why)"
  have ok: "msg_ok ?m" using assms(1) by (intro vns_msg_parts(2)) simp
  obtain es where es: "stream es = rest" "sr_read_from_server_expect fuel os c VNS_AUTH_STATUS =
      Some (dispatch fuel os (c\<lparr>input := es\<rparr>) VNS_AUTH_STATUS (host_order ?m))"
    using expect_msg [OF ok assms(2), of fuel os VNS_AUTH_STATUS] by (auto simp: vns_msg_parts)
  have "dispatch fuel os (c\<lparr>input := es\<rparr>) VNS_AUTH_STATUS (host_order ?m) = Inr (if auth \<noteq> 0 then 1 else - 1, c\<lparr>input := es\<rparr>)"
    using assms(3,4) by (auto simp: dispatch_def command_numbers handle_auth_status [unfolded command_numbers] read_str_def)
  then show ?thesis using es by auto
qed

text \<open>Authentication, the part of the exchange that does not depend on the template.\<close>

definition reachable_server :: "os \<Rightarrow> byte list \<Rightarrow> bool" where
  "reachable_server os server \<longleftrightarrow> resolves os server \<and> 0 \<le> socket_ret os \<and> 0 \<le> connect_ret os"

definition writes_ok :: "os \<Rightarrow> bool" where
  "writes_ok os \<longleftrightarrow> (\<forall>b. write_ret (proc os) b = int (length b))"

lemma auth_exchange:
  assumes cred: "credentials c key" and salt: "length salt + 8 \<le> 10000" and status: "9 + length why \<le> 10000"
    and auth: "auth \<noteq> 0 \<or> 0 \<in> set why" and w: "\<forall>k. writes_ok (os k)"
    and s: "stream (input c) = vns_msg VNS_AUTH_REQUEST salt @ vns_msg VNS_AUTH_STATUS (auth # why) @ rest"
    and reply: "reply = auth_reply_msg (cstr (list_of (user (inst c)))) (sha1 (salt @ key))"
  shows "\<exists>es c1. stream es = rest \<and> sr_read_from_server_expect fuel (os 0) c VNS_AUTH_REQUEST = Some (Inr (1, c1))
    \<and> sr_read_from_server_expect fuel (os 1) c1 VNS_AUTH_STATUS = Some (Inr (if auth \<noteq> 0 then 1 else - 1,
        c\<lparr>inst := (inst c)\<lparr>sock_out := sock_out (inst c) @ [reply]\<rparr>, input := es\<rparr>))"
proof -
  obtain es1 where es1: "stream es1 = vns_msg VNS_AUTH_STATUS (auth # why) @ rest"
    "sr_read_from_server_expect fuel (os 0) c VNS_AUTH_REQUEST =
      Some (Inr (1, c\<lparr>inst := (inst c)\<lparr>sock_out := sock_out (inst c) @ [reply]\<rparr>, input := es1\<rparr>))"
    using expect_auth_request [OF cred salt s reply, of fuel "os 0"] w by (auto simp: writes_ok_def)
  let ?c1 = "c\<lparr>inst := (inst c)\<lparr>sock_out := sock_out (inst c) @ [reply]\<rparr>, input := es1\<rparr>"
  obtain es2 where "stream es2 = rest"
    "sr_read_from_server_expect fuel (os 1) ?c1 VNS_AUTH_STATUS = Some (Inr (if auth \<noteq> 0 then 1 else - 1, ?c1\<lparr>input := es2\<rparr>))"
    using expect_auth_status [of why ?c1 auth rest fuel "os 1"] status es1(1) auth cred by (auto simp: credentials_def)
  then show ?thesis using es1(2) by (intro exI [of _ es2] exI [of _ ?c1]) simp
qed

text \<open>The whole exchange without a template.\<close>

lemma handshake:
  assumes cred: "credentials c key" and "length salt + 8 \<le> 10000" and "9 + length why \<le> 10000"
    and "auth \<noteq> 0 \<or> 0 \<in> set why"
    and up: "reachable_server (os 0) server" and w: "\<forall>k. writes_ok (os k)"
    and t: "cstr (list_of (template (inst c))) = []"
    and "stream (input c) = vns_msg VNS_AUTH_REQUEST salt @ vns_msg VNS_AUTH_STATUS (auth # why) @ rest"
    and "reply = auth_reply_msg (cstr (list_of (user (inst c)))) (sha1 (salt @ key))"
  shows "\<exists>es. stream es = rest \<and> sr_connect_to_server fuel os c server =
    Some (Inr (if auth \<noteq> 0
      then (0, c\<lparr>inst := (inst c)\<lparr>sockfd := socket_ret (os 0), sock_out := sock_out (inst c) @ [reply, open_msg (inst c)]\<rparr>, input := es\<rparr>)
      else (- 1, c\<lparr>inst := (inst c)\<lparr>sockfd := socket_ret (os 0), sock_out := sock_out (inst c) @ [reply]\<rparr>, input := es\<rparr>)))"
proof -
  let ?c = "c\<lparr>inst := (inst c)\<lparr>sockfd := socket_ret (os 0)\<rparr>\<rparr>"
  have "credentials ?c key" using cred by (simp add: credentials_def)
  then obtain es c1 where es: "stream es = rest" "sr_read_from_server_expect fuel (os 0) ?c VNS_AUTH_REQUEST = Some (Inr (1, c1))"
    "sr_read_from_server_expect fuel (os 1) c1 VNS_AUTH_STATUS = Some (Inr (if auth \<noteq> 0 then 1 else - 1,
        ?c\<lparr>inst := (inst ?c)\<lparr>sock_out := sock_out (inst ?c) @ [reply]\<rparr>, input := es\<rparr>))"
    using auth_exchange [of ?c key salt why auth os rest reply fuel] assms by auto
  have om: "open_msg ((inst c)\<lparr>sockfd := f, sock_out := out\<rparr>) = open_msg (inst c)" for f out by (simp add: open_msg_def)
  show ?thesis
    using up t es(2,3) w om
    by (intro exI [of _ es] conjI es(1))
      (auto simp: sr_connect_to_server_def reachable_server_def and_then_def writes_ok_def Let_def)
qed

text \<open>With a template the server sends the routing table after the session was opened, and it is stored.\<close>

lemma expect_rtable:
  assumes "length (cstr vhost) < 32" and "40 + length content \<le> 10000" and "may_write os (text_bytes ''rtable.'' @ cstr vhost)"
    and "stream (input c) = rtable_msg vhost content @ rest"
  shows "\<exists>es. stream es = rest \<and> sr_read_from_server_expect fuel os c VNS_RTABLE =
    Some (Inr (1, c\<lparr>input := es, files := (files c)(text_bytes ''rtable.'' @ cstr vhost \<mapsto> content)\<rparr>))"
proof -
  let ?m = "rtable_msg vhost content"
  have ok: "msg_ok ?m" unfolding rtable_msg_def using assms(2) by (intro vns_msg_parts(2)) simp
  obtain es where "stream es = rest" "sr_read_from_server_expect fuel os c VNS_RTABLE =
      Some (dispatch fuel os (c\<lparr>input := es\<rparr>) VNS_RTABLE (host_order ?m))"
    using expect_msg [OF ok assms(4), of fuel os VNS_RTABLE] by (auto simp: rtable_msg_def vns_msg_parts)
  then show ?thesis
    using handle_rtable [OF assms(1,2), of os "c\<lparr>input := es\<rparr>"] assms(3)
    by (intro exI [of _ es]) (simp add: dispatch_def command_numbers)
qed

lemma handshake_template:
  assumes cred: "credentials c key" and "length salt + 8 \<le> 10000" and "9 + length why \<le> 10000" and "auth \<noteq> 0"
    and up: "reachable_server (os 0) server" and w: "\<forall>k. writes_ok (os k)"
    and t: "cstr (list_of (template (inst c))) \<noteq> []"
    and table: "length (cstr vhost) < 32" "40 + length content \<le> 10000" "may_write (os 2) (text_bytes ''rtable.'' @ cstr vhost)"
    and "stream (input c) = vns_msg VNS_AUTH_REQUEST salt @ vns_msg VNS_AUTH_STATUS (auth # why) @ rtable_msg vhost content @ rest"
    and "reply = auth_reply_msg (cstr (list_of (user (inst c)))) (sha1 (salt @ key))"
  shows "\<exists>es. stream es = rest \<and> sr_connect_to_server fuel os c server =
    Some (Inr (0, c\<lparr>inst := (inst c)\<lparr>sockfd := socket_ret (os 0), sock_out := sock_out (inst c) @ [reply, open_template_msg (inst c)]\<rparr>,
      input := es, files := (files c)(text_bytes ''rtable.'' @ cstr vhost \<mapsto> content)\<rparr>))"
proof -
  let ?c = "c\<lparr>inst := (inst c)\<lparr>sockfd := socket_ret (os 0)\<rparr>\<rparr>"
  have "credentials ?c key" using cred by (simp add: credentials_def)
  then obtain es c1 where es: "stream es = rtable_msg vhost content @ rest"
    "sr_read_from_server_expect fuel (os 0) ?c VNS_AUTH_REQUEST = Some (Inr (1, c1))"
    "sr_read_from_server_expect fuel (os 1) c1 VNS_AUTH_STATUS = Some (Inr (1,
        ?c\<lparr>inst := (inst ?c)\<lparr>sock_out := sock_out (inst ?c) @ [reply]\<rparr>, input := es\<rparr>))"
    using auth_exchange [of ?c key salt why auth os "rtable_msg vhost content @ rest" reply fuel] assms by auto
  let ?c2 = "c\<lparr>input := es, inst := (inst c)\<lparr>sockfd := socket_ret (os 0), sock_out := sock_out (inst c) @ [reply, open_template_msg (inst c)]\<rparr>\<rparr>"
  obtain es' where es': "stream es' = rest" "sr_read_from_server_expect fuel (os 2) ?c2 VNS_RTABLE =
      Some (Inr (1, ?c2\<lparr>input := es', files := (files ?c2)(text_bytes ''rtable.'' @ cstr vhost \<mapsto> content)\<rparr>))"
    using expect_rtable [OF table, of ?c2 rest fuel] es(1) by auto
  have om: "open_template_msg ((inst c)\<lparr>sockfd := f, sock_out := out\<rparr>) = open_template_msg (inst c)" for f out
    by (simp add: open_template_msg_def)
  show ?thesis
    using up t es(2,3) es'(2) w om
    by (intro exI [of _ es'] conjI es'(1))
      (auto simp: sr_connect_to_server_def reachable_server_def and_then_def writes_ok_def Let_def)
qed

section \<open>The whole program\<close>

text \<open>The user name that the options and the password file give, and the instance with which the router is up.\<close>

definition user_name :: "boot \<Rightarrow> opts \<Rightarrow> byte list" where
  "user_name b p = (case o_user p of Some u \<Rightarrow> u
     | None \<Rightarrow> (case pw_name b of Some n \<Rightarrow> n | None \<Rightarrow> text_bytes ''something_silly''))"

definition booted :: "boot \<Rightarrow> opts \<Rightarrow> sr_rt list \<Rightarrow> sr_instance \<Rightarrow> sr_instance" where
  "booted b p table sr = sr\<lparr>sockfd := - 1, user := strncpy (user_name b p), host := strncpy (o_host p),
     template := (case o_template p of None \<Rightarrow> clear_str (template sr) | Some t \<Rightarrow> strncpy t),
     topo_id := ucast (o_topo p), if_list := [], routing_table := table, logfile := None\<rparr>"

text \<open>The message that opens the session.\<close>

definition first_msg :: "sr_instance \<Rightarrow> byte list" where
  "first_msg sr = (if cstr (list_of (template sr)) = [] then open_msg sr else open_template_msg sr)"

definition logged_in :: "os \<Rightarrow> byte list \<Rightarrow> sr_instance \<Rightarrow> sr_instance" where
  "logged_in os reply sr = sr\<lparr>sockfd := socket_ret os, sock_out := sock_out sr @ [reply, first_msg sr]\<rparr>"

text \<open>
  Where the routing table comes from: from its file, or, with a template, from the server, in the message \<open>first\<close> before all other
  commands; then the option \<^verbatim>\<open>-r\<close> must name the file in which it is stored. \<open>fs\<close> are the files afterwards.
\<close>

definition table_supplied ::
  "os \<Rightarrow> opts \<Rightarrow> sr_rt list \<Rightarrow> conn \<Rightarrow> byte list \<Rightarrow> (byte list \<Rightarrow> byte list option) \<Rightarrow> bool" where
  "table_supplied os p table c first fs \<longleftrightarrow>
     (let content = concat (map sr_print_routing_entry table) in
      table \<noteq> [] \<and> (\<forall>e \<in> set table. loadable e) \<and>
      (case o_template p of
         None \<Rightarrow> files c (cstr (o_rtable p)) = Some content \<and> first = [] \<and> fs = files c
       | Some t \<Rightarrow> cstr t \<noteq> [] \<and> (\<exists>vhost. length (cstr vhost) < 32 \<and> 40 + length content \<le> 10000
           \<and> cstr (o_rtable p) = text_bytes ''rtable.'' @ cstr vhost \<and> may_write os (cstr (o_rtable p))
           \<and> first = rtable_msg vhost content \<and> fs = (files c)(cstr (o_rtable p) \<mapsto> content))))"

lemma cstr_clear_str [simp]: "cstr (list_of (clear_str a :: ('n::len) barr)) = []"
proof -
  obtain x xs where "list_of a = x # xs" using length_list_of [of a] by (cases "list_of a") auto
  moreover obtain n where "LENGTH('n) = Suc n" using len_gt_0 [where 'a = 'n] by (cases "LENGTH('n)") simp_all
  ultimately show ?thesis by (simp add: clear_str_def list_of_barr_of cstr_def)
qed

lemma destroy_instance [simp]: "sr_destroy_instance sr = sr"
  by (simp add: sr_destroy_instance_def sr_dump_close_def split: option.splits)

lemma setup_booted:
  assumes "table_supplied os p table c first fs" and "o_logfile p = None"
  shows "main_setup b p c = Inr (True, c\<lparr>inst := booted b p (if o_template p = None then table else []) (inst c)\<rparr>)"
  using assms
  by (auto simp: main_setup_def sr_load_rt_wrap_def load_printed booted_def user_name_def sr_init_instance_def
      sr_set_user_def table_supplied_def Let_def split: option.splits)

text \<open>The table that is loaded after the connection, in both cases.\<close>

lemma reload_table:
  assumes "table_supplied os p table c first fs"
  shows "sr_load_rt_wrap stack sr (fs (cstr (o_rtable p))) = Inr (True, sr\<lparr>routing_table := table\<rparr>)"
  using assms by (auto simp: sr_load_rt_wrap_def load_printed table_supplied_def Let_def split: option.splits)

lemma connect_booted:
  assumes sup: "table_supplied (os 2) p table c first fs"
    and key: "files c (text_bytes ''auth_key'') = Some (key @ kr)" "length key = 64" "10 \<notin> set key" "length (cstr (user_name b p)) < 32"
    and "length salt + 8 \<le> 10000" and "9 + length why \<le> 10000" and "auth \<noteq> 0"
    and "reachable_server (os 0) server" and "\<forall>k. writes_ok (os k)"
    and "stream (input c) = vns_msg VNS_AUTH_REQUEST salt @ vns_msg VNS_AUTH_STATUS (auth # why) @ first @ rest"
    and sr: "sr = booted b p table' (inst c)"
  shows "\<exists>es. stream es = rest \<and> sr_connect_to_server fuel os (c\<lparr>inst := sr\<rparr>) server =
    Some (Inr (0, c\<lparr>inst := logged_in (os 0) (auth_reply_msg (cstr (user_name b p)) (sha1 (salt @ key))) sr, input := es, files := fs\<rparr>))"
proof -
  let ?c = "c\<lparr>inst := sr\<rparr>" and ?r = "auth_reply_msg (cstr (user_name b p)) (sha1 (salt @ key))"
  have u: "cstr (list_of (user sr)) = cstr (user_name b p)" "0 \<in> set (list_of (user sr))"
    using key(4) by (simp_all add: sr booted_def cstr_strncpy cstr_take) (simp add: strncpy_def list_of_barr_of)
  then have cred: "credentials ?c key" using key by (simp add: credentials_def)
  show ?thesis
  proof (cases "o_template p")
    case None
    then have "cstr (list_of (template sr)) = []" by (simp add: sr booted_def)
    then show ?thesis
      using handshake [OF cred, of salt why auth os server rest ?r fuel] assms None u
      by (auto simp: table_supplied_def logged_in_def first_msg_def)
  next
    case (Some t)
    then have t: "cstr (list_of (template sr)) \<noteq> []"
      using sup by (auto simp: sr booted_def cstr_strncpy cstr_take table_supplied_def Let_def)
    obtain vhost where v: "length (cstr vhost) < 32" "40 + length (concat (map sr_print_routing_entry table)) \<le> 10000"
      "cstr (o_rtable p) = text_bytes ''rtable.'' @ cstr vhost" "may_write (os 2) (text_bytes ''rtable.'' @ cstr vhost)"
      "first = rtable_msg vhost (concat (map sr_print_routing_entry table))"
      "fs = (files c)(text_bytes ''rtable.'' @ cstr vhost \<mapsto> concat (map sr_print_routing_entry table))"
      using sup Some by (auto simp: table_supplied_def Let_def)
    show ?thesis
      using handshake_template [OF cred, of salt why auth os server vhost "concat (map sr_print_routing_entry table)" rest ?r fuel] assms t u v
      by (auto simp: logged_in_def first_msg_def)
  qed
qed

lemma main_session:
  assumes args: "parse_opts default_opts args = Some p" and sup: "table_supplied (os 2) p table c first fs" and "o_logfile p = None"
    and key: "files c (text_bytes ''auth_key'') = Some (key @ kr)" "length key = 64" "10 \<notin> set key" "length (cstr (user_name b p)) < 32"
    and hs: "length salt + 8 \<le> 10000" "9 + length why \<le> 10000" "auth \<noteq> 0" "reachable_server (os 0) (o_server p)" "\<forall>k. writes_ok (os k)"
    and s: "stream (input c) = vns_msg VNS_AUTH_REQUEST salt @ vns_msg VNS_AUTH_STATUS (auth # why) @ first @ concat ms @ rest"
    and ms: "\<forall>m \<in> set ms. msg_ok m"
    and start: "start = c\<lparr>inst := sr_init (logged_in (os 0)
      (auth_reply_msg (cstr (user_name b p)) (sha1 (salt @ key))) (booted b p table (inst c))), files := fs\<rparr>"
  shows "(\<forall>e. run_msgs fuel os 3 start ms = Inl e \<longrightarrow> main fuel b os args c = Some (Inl e))
    \<and> (\<forall>c'. run_msgs fuel os 3 start ms = Inr (True, c') \<longrightarrow> (\<exists>es. main fuel b os args c = Some (Inr (0, c'\<lparr>input := es\<rparr>))))"
proof -
  let ?t = "if o_template p = None then table else []"
  let ?r = "auth_reply_msg (cstr (user_name b p)) (sha1 (salt @ key))" and ?sr = "booted b p ?t (inst c)"
  obtain es where es: "stream es = concat ms @ rest" and conn: "sr_connect_to_server fuel os (c\<lparr>inst := ?sr\<rparr>) (o_server p) =
      Some (Inr (0, c\<lparr>inst := logged_in (os 0) ?r ?sr, input := es, files := fs\<rparr>))"
    using connect_booted [OF sup key hs s refl, of fuel ?t] by blast
  have same: "(logged_in (os 0) ?r ?sr)\<lparr>routing_table := table\<rparr> = logged_in (os 0) ?r (booted b p table (inst c))"
    by (simp add: logged_in_def booted_def first_msg_def open_msg_def open_template_msg_def)
  have again: "sr_load_rt_wrap (stack_words b 1) (logged_in (os 0) ?r ?sr) (fs (cstr (o_rtable p))) =
      Inr (True, logged_in (os 0) ?r (booted b p table (inst c)))"
    using reload_table [OF sup] same by simp
  have loop: "c\<lparr>input := es, files := fs, inst := sr_init (logged_in (os 0) ?r (booted b p table (inst c)))\<rparr> = start\<lparr>input := es\<rparr>"
    using start by simp
  have name: "(if o_template p \<noteq> None \<and> cstr (o_rtable p) = f then f else cstr (o_rtable p)) = cstr (o_rtable p)" for f by simp
  have main: "main fuel b os args c = (case main_loop fuel os 3 (start\<lparr>input := es\<rparr>) of
      None \<Rightarrow> None | Some (Inl e) \<Rightarrow> Some (Inl e) | Some (Inr c) \<Rightarrow> Some (Inr (0, c)))"
    using args setup_booted [OF sup assms(3), of b] conn again loop
    by (simp add: main_def main_run_def timeout_rounds_init Let_def name del: not_None_eq split: option.split sum.split)
  have run: "run_msgs fuel os 3 (start\<lparr>input := es\<rparr>) ms = bnd (run_msgs fuel os 3 start ms) (\<lambda>(b, c'). Inr (b, c'\<lparr>input := es\<rparr>))"
    by (rule run_msgs_input)
  show ?thesis
    using main_loop_msgs [OF ms, of "start\<lparr>input := es\<rparr>" rest fuel os 3] es main run by auto
qed

end
