(* ===== verification/Router_safe.thy ===== *)
theory Router_safe
  imports Router
begin

text \<open>
  What every packet preserves, and when the handler returns: the invariants of the router across
  \<^verbatim>\<open>sr_handlepacket\<close>, and its freedom from faults on frames of the length Ethernet guarantees.
\<close>

section \<open>What a packet changes\<close>

text \<open>Like \<open>router_step\<close>, but mappings may be learnt.\<close>

definition event_step :: "sr_instance \<Rightarrow> sr_instance \<Rightarrow> bool" where
  "event_step sr sr' \<longleftrightarrow> if_list sr' = if_list sr \<and> routing_table sr' = routing_table sr
     \<and> (\<exists>out. sock_out sr' = sock_out sr @ out)
     \<and> (cache_inv (cache sr) \<and> times_ok (cache sr) \<longrightarrow> cache_inv (cache sr') \<and> times_ok (cache sr'))"

lemma event_step_refl [simp]: "event_step sr sr"
  by (simp add: event_step_def)

lemma event_step_router: "router_step sr sr' \<Longrightarrow> event_step sr sr'"
  by (auto simp: router_step_def event_step_def)

lemma event_step_trans:
  assumes "event_step a b" and "event_step b c"
  shows "event_step a c"
proof -
  obtain x y where "sock_out b = sock_out a @ x" "sock_out c = sock_out b @ y"
    using assms unfolding event_step_def by blast
  then have "\<exists>out. sock_out c = sock_out a @ out" by simp
  then show ?thesis
    using assms by (simp add: event_step_def)
qed

lemma router_step_transmit: "transmit fuel env sr ip buf len iface = Inr sr' \<Longrightarrow> router_step sr sr'"
proof (cases "sr_arpcache_lookup (cache sr) ip")
  case None
  assume "transmit fuel env sr ip buf len iface = Inr sr'"
  with None obtain p c where q: "sr_arpcache_queuereq (cache sr) ip (Some buf) len (Some iface) = Inr (p, c)"
    and h: "sr_arpcache_handle_arpreq fuel env (sr\<lparr>cache := c\<rparr>) p = Inr sr'"
    by (auto simp: transmit_def)
  have "router_step sr (sr\<lparr>cache := c\<rparr>)"
    using queuereq_keeps [OF q] by (intro router_step_cache) simp_all
  then show ?thesis
    using router_step_handle [OF h] by (rule router_step_trans)
next
  case (Some a)
  assume "transmit fuel env sr ip buf len iface = Inr sr'"
  with Some show ?thesis
    by (auto simp: transmit_def intro: router_step_send)
qed

lemma router_step_echo: "echo_reply fuel env sr packet len = Inr sr' \<Longrightarrow> router_step sr sr'"
  by (auto simp: echo_reply_def Let_def split: if_splits option.splits intro: router_step_transmit)

lemma router_step_branches:
  "port_unreachable fuel env sr packet len_r interface = Inr sr' \<Longrightarrow> router_step sr sr'"
  "time_exceeded fuel env sr packet interface = Inr sr' \<Longrightarrow> router_step sr sr'"
  "net_unreachable fuel env sr packet interface = Inr sr' \<Longrightarrow> router_step sr sr'"
  "forward_packet fuel env sr packet len rt = Inr sr' \<Longrightarrow> router_step sr sr'"
  by (auto simp: port_unreachable_def time_exceeded_def net_unreachable_def forward_packet_def Let_def
      split: if_splits intro: router_step_transmit)

lemma router_step_ip: "handle_ip fuel env sr packet len len_r interface = Inr sr' \<Longrightarrow> router_step sr sr'"
  by (auto simp: handle_ip_def ip_local_def ip_forward_def Let_def split: if_splits option.splits
      intro: router_step_echo router_step_branches)

lemma router_step_flush: "flush_packets env sha sr ps = Inr sr' \<Longrightarrow> router_step sr sr'"
proof (induction ps arbitrary: sr)
  case (Cons pk ps)
  then obtain r sr1 where "sr_send_packet env sr (blit 0 (list_of sha) (pk_buf pk)) (pk_len pk)
      (list_of (pk_iface pk)) = Inr (r, sr1)" "flush_packets env sha sr1 ps = Inr sr'"
    by auto
  then show ?case
    using Cons.IH router_step_send router_step_trans by blast
qed simp

lemma event_step_insert:
  "event_step sr (sr\<lparr>cache := snd (sr_arpcache_insert t (cache sr) m ip)\<rparr>)"
  using insert_spec [of "cache sr" t m ip]
  by (auto simp: event_step_def times_ok_def)

lemma event_step_learn:
  assumes "arp_learn_reply env sr packet = Inr sr'"
  shows "event_step sr sr'"
proof -
  let ?a = "arp_at 14 packet"
  obtain req c where i: "sr_arpcache_insert (now env) (cache sr) (ar_sha ?a) (ar_sip ?a) = (req, c)"
    by fastforce
  have first: "event_step sr (sr\<lparr>cache := c\<rparr>)"
    using event_step_insert [of sr "now env" "ar_sha ?a" "ar_sip ?a"] i by simp
  show ?thesis
  proof (cases req)
    case None
    with assms i first show ?thesis by (simp add: arp_learn_reply_def)
  next
    case (Some q)
    with assms i obtain sr2 where "flush_packets env (ar_sha ?a) (sr\<lparr>cache := c\<rparr>) (rq_packets q) = Inr sr2"
      "sr' = sr2\<lparr>cache := sr_arpreq_destroy (cache sr2) (Some (rq_id q))\<rparr>"
      by (auto simp: arp_learn_reply_def)
    then have "router_step (sr\<lparr>cache := c\<rparr>) sr'"
      using router_step_flush router_step_destroy router_step_trans by blast
    with first show ?thesis by (blast intro: event_step_trans event_step_router)
  qed
qed

lemma event_step_handlepacket:
  "sr_handlepacket fuel env sr packet len interface = Inr sr' \<Longrightarrow> event_step sr sr'"
  by (auto simp: sr_handlepacket_def handle_arp_def arp_answer_def Let_def split: if_splits
      intro: event_step_router [OF router_step_ip] event_step_router [OF router_step_send] event_step_learn)

section \<open>When the handler returns\<close>

text \<open>Queueing a packet whose source does not close a cycle of exhausted requests.\<close>

lemma calm_queuereq:
  assumes calm: "calm env rank sr"
    and q: "sr_arpcache_queuereq (cache sr) ip (Some b) l (Some i) = Inr (p, c)" and b: "quotable b l"
    and less: "given_up env (cache sr) ip \<Longrightarrow> given_up env (cache sr) (ip_src (ip_at 14 b)) \<Longrightarrow>
      rank (ip_src (ip_at 14 b)) < rank ip"
  shows "calm env rank (sr\<lparr>cache := c\<rparr>)"
proof -
  have inv: "cache_inv (cache sr)" using calm by (simp add: calm_def)
  have s: "settles env UNIV (cache sr) c"
    using settles_queuereq(1) [OF q inv b] by simp
  note g = given_up_settles [OF s]
  have l: "l \<noteq> 0" "unat l \<le> length b" using b by (auto simp: quotable_def frame_ok_def)
  have n: "pk_src (new_pkt b l i) = ip_src (ip_at 14 b)"
    using b by (simp add: pk_src_def new_pkt_def quotable_def frame_ok_def)
  obtain p1 c1 where f: "queuereq_find (cache sr) ip = (p1, c1)" by fastforce
  have c: "c = c1\<lparr>requests := upd_req p (\<lambda>r. r\<lparr>rq_packets := new_pkt b l i # rq_packets r\<rparr>) (requests c1)\<rparr>"
    and p: "p = p1" using q l f by (auto simp: sr_arpcache_queuereq_def)
  have c1: "requests c1 = requests (cache sr) \<or> requests c1 = requests (cache sr) @ [new_req p1 ip]"
    using f by (auto simp: queuereq_find_def split: option.splits)
  have ip: "rq_ip r = ip" if "r \<in> set (requests c1)" "rq_id r = p" for r
    using queuereq_find_spec(1,3) [OF inv f] distinct_ids [of c1] that p by blast
  have "acyclic_errors env rank c"
    unfolding acyclic_errors_def
  proof (intro ballI impI)
    fix r' pk assume r': "r' \<in> set (requests c)" "exhausted env r'"
      and pk: "pk \<in> set (rq_packets r')" "given_up env c (pk_src pk)"
    from r'(1) obtain r where r: "r \<in> set (requests c1)"
      "r' = (if rq_id r = p then r\<lparr>rq_packets := new_pkt b l i # rq_packets r\<rparr> else r)"
      by (auto simp: c set_upd_req)
    have ex: "exhausted env r" "rq_ip r' = rq_ip r"
      using r'(2) r(2) by (auto simp: exhausted_def split: if_splits)
    have old: "r \<in> set (requests (cache sr))"
      using r(1) c1 ex(1) by (auto simp: exhausted_def new_req_def)
    from pk(1) r(2) consider "pk \<in> set (rq_packets r)" | "pk = new_pkt b l i" "rq_id r = p"
      by (auto split: if_splits)
    then show "rank (pk_src pk) < rank (rq_ip r')"
    proof cases
      case 1
      then show ?thesis
        using calm old ex g [OF pk(2)] by (simp add: calm_def acyclic_errors_def)
    next
      case 2
      then have "rq_ip r = ip" using ip r(1) by simp
      then show ?thesis
        using less old ex g [OF pk(2)] 2 n by (auto simp: given_up_def)
    qed
  qed
  then show ?thesis
    using calm s g by (auto simp: calm_def settles_def routes_ok_def)
qed

text \<open>Enough fuel for every request the router has given up on.\<close>

definition enough :: "env \<Rightarrow> (u32 \<Rightarrow> nat) \<Rightarrow> sr_arpcache \<Rightarrow> nat \<Rightarrow> bool" where
  "enough env rank c fuel \<longleftrightarrow> 1 \<le> fuel \<and> (\<forall>r \<in> set (requests c). exhausted env r \<longrightarrow> rank (rq_ip r) + 2 \<le> fuel)"

lemma quotable_dhost: "quotable b l \<Longrightarrow> frame_ok (mod_eth 0 f b) l"
  by (simp add: quotable_def frame_ok_def)

lemma calm_same_cache: "calm env rank sr \<Longrightarrow> same_router sr sr' \<Longrightarrow> calm env rank sr'"
  using same_router_fields [of sr sr'] by (simp add: calm_def routes_ok_def get_interface_cong [of sr' sr])

lemma transmit_returns:
  assumes calm: "calm env rank sr" and b: "quotable buf len" and fuel: "enough env rank (cache sr) fuel"
    and route: "sr_findLPMentry (routing_table sr) ip \<noteq> None"
    and less: "given_up env (cache sr) ip \<Longrightarrow> given_up env (cache sr) (ip_src (ip_at 14 buf)) \<Longrightarrow>
      rank (ip_src (ip_at 14 buf)) < rank ip"
  shows "\<exists>sr'. transmit fuel env sr ip buf len iface = Inr sr' \<and> calm env rank sr'"
proof (cases "sr_arpcache_lookup (cache sr) ip")
  case (Some a)
  obtain r sr' where s: "sr_send_packet env sr (mod_eth 0 (\<lambda>h. h\<lparr>ether_dhost := ae_mac a\<rparr>) buf) len iface = Inr (r, sr')"
    using vns.send_total [OF quotable_dhost [OF b]] by blast
  then have "calm env rank sr'" using calm calm_same_cache send_packet_same by blast
  with Some s show ?thesis by (simp add: transmit_def)
next
  case None
  have l: "len \<noteq> 0" "unat len \<le> length buf" using b by (auto simp: quotable_def frame_ok_def)
  have inv: "cache_inv (cache sr)" using calm by (simp add: calm_def)
  obtain p c r where q: "sr_arpcache_queuereq (cache sr) ip (Some buf) len (Some iface) = Inr (p, c)"
    and c: "cache_inv c" "r \<in> set (requests c)" "rq_id r = p" "rq_ip r = ip"
    by (rule queuereq_spec [OF inv l, of ip iface])
  let ?sr = "sr\<lparr>cache := c\<rparr>"
  have calm': "calm env rank ?sr" using calm q b less by (rule calm_queuereq)
  have at: "req_at p ?sr = Inr r" using req_at_id [of ?sr r] c by simp
  have "settles env UNIV (cache sr) c" using settles_queuereq(1) [OF q inv b] by simp
  then have "exhausted env r \<longrightarrow> rank (rq_ip r) + 2 \<le> fuel"
    using fuel c(2) unfolding settles_def enough_def by metis
  then have "settled env rank (if exhausted env r then Suc (rank (rq_ip r)) else 0) ?sr
      (sr_arpcache_handle_arpreq fuel env ?sr p)"
    using calm' at route c(4) fuel by (intro handle_settles) (simp_all add: enough_def)
  then obtain sr' where "sr_arpcache_handle_arpreq fuel env ?sr p = Inr sr'" "calm env rank sr'"
    using calm' by (rule settledE)
  with None q show ?thesis by (simp add: transmit_def)
qed

lemma calm_own: "calm env rank sr \<Longrightarrow> sr_get_interface sr n = Some i \<Longrightarrow> \<not> given_up env (cache sr) (if_ip i)"
  by (auto simp: calm_def dest: get_interface_mem)

lemma quotable_70 [simp]: "length b = 70 \<Longrightarrow> quotable b 70"
  by (simp add: quotable_def)

lemma flush_returns:
  assumes "\<forall>pk \<in> set ps. quotable (pk_buf pk) (pk_len pk)"
  shows "\<exists>sr'. flush_packets env sha sr ps = Inr sr' \<and> same_router sr sr'"
  using assms
proof (induction ps arbitrary: sr)
  case (Cons pk ps)
  then have "frame_ok (blit 0 (list_of sha) (pk_buf pk)) (pk_len pk)" and len: "6 \<le> length (pk_buf pk)"
    by (simp_all add: quotable_def frame_ok_def)
  then obtain r sr1 where s: "sr_send_packet env sr (blit 0 (list_of sha) (pk_buf pk)) (pk_len pk)
      (list_of (pk_iface pk)) = Inr (r, sr1)"
    using vns.send_total by blast
  obtain sr' where "flush_packets env sha sr1 ps = Inr sr'" "same_router sr1 sr'"
    using Cons by auto
  then show ?case
    using s len send_packet_same [OF s] by (auto intro: same_router_trans)
qed simp

lemma settles_filter:
  assumes "cache_inv c" and "requests c' = filter P (requests c)" and "cache_inv c'"
  shows "settles env own c c'"
  using assms by (auto simp: settles_def long_packets_def)

lemma learn_returns:
  assumes calm: "calm env rank sr"
  shows "\<exists>sr'. arp_learn_reply env sr packet = Inr sr' \<and> calm env rank sr'"
proof -
  let ?a = "arp_at 14 packet"
  have inv: "cache_inv (cache sr)" using calm by (simp add: calm_def)
  obtain req c where i: "sr_arpcache_insert (now env) (cache sr) (ar_sha ?a) (ar_sip ?a) = (req, c)"
    by fastforce
  note spec = insert_spec [OF inv, of "now env" "ar_sha ?a" "ar_sip ?a", unfolded i, simplified]
  let ?sr = "sr\<lparr>cache := c\<rparr>"
  have calm': "calm env rank ?sr"
    using settles_filter [OF inv spec(3) spec(1)] by (intro calm_settles [OF calm]) simp_all
  show ?thesis
  proof (cases req)
    case None
    with calm' i show ?thesis by (simp add: arp_learn_reply_def)
  next
    case (Some q)
    then have q: "q \<in> set (requests (cache sr))" using spec(2) by (simp add: find_req_Some)
    then have "\<forall>pk \<in> set (rq_packets q). quotable (pk_buf pk) (pk_len pk)"
      using calm by (simp add: calm_def long_packets_def)
    then obtain sr2 where f: "flush_packets env (ar_sha ?a) ?sr (rq_packets q) = Inr sr2" "same_router ?sr sr2"
      using flush_returns by blast
    let ?sr2 = "sr2\<lparr>cache := sr_arpreq_destroy (cache sr2) (Some (rq_id q))\<rparr>"
    have calm2: "calm env rank sr2" using calm' f(2) by (rule calm_same_cache)
    then have inv2: "cache_inv (cache sr2)" by (simp add: calm_def)
    have d: "requests (cache ?sr2) = filter (\<lambda>r. rq_id r \<noteq> rq_id q) (requests (cache sr2))"
      using cache_invD(3) [OF inv2] by (simp add: sr_arpreq_destroy_def remove_req_filter)
    have "calm env rank ?sr2"
      using settles_filter [OF inv2 d] cache_inv_destroy [OF inv2] by (intro calm_settles [OF calm2]) simp_all
    with Some i f(1) show ?thesis by (simp add: arp_learn_reply_def)
  qed
qed

lemma echo_returns:
  assumes calm: "calm env rank sr" and fuel: "enough env rank (cache sr) fuel"
    and len: "length packet = unat len" "42 \<le> length packet" "unat len < 2 ^ 31 - 24"
    and src: "sr_findLPMentry (routing_table sr) (ip_src (ip_at 14 packet)) \<noteq> None"
    and own: "own_addr sr (ip_dst (ip_at 14 packet))"
  shows "\<exists>sr'. echo_reply fuel env sr packet len = Inr sr' \<and> calm env rank sr'"
proof -
  let ?h = "ip_at 14 packet"
  have l: "38 \<le> length packet" "unat len < 2 ^ 31" using len by simp_all
  show ?thesis
  proof (cases "icmp_valid packet")
    case True
    obtain e where e: "sr_findLPMentry (routing_table sr) (ip_src ?h) = Some e" using src by blast
    from calm_route [OF calm e] obtain j where j: "sr_get_interface sr (list_of (rt_interface e)) = Some j" .
    let ?b = "echo_frame (ether_dhost (eth_at 0 packet)) (if_addr j) packet"
    have "echo_reply fuel env sr packet len = transmit fuel env sr (ip_src ?h) ?b len (list_of (rt_interface e))"
      using e j echo_reply_eq [OF l(1) len(1) l(2), of fuel env sr] True by simp
    moreover have b: "quotable ?b len" using len by (simp add: quotable_def frame_ok_def)
    moreover have "ip_src (ip_at 14 ?b) = ip_dst ?h" by (simp add: echo_frame_def Let_def)
    moreover have "\<not> given_up env (cache sr) (ip_dst ?h)" using calm own by (auto simp: calm_def own_addr_def)
    ultimately show ?thesis using transmit_returns [OF calm b fuel src] by simp
  next
    case False
    then show ?thesis using echo_reply_eq [OF l(1) len(1) l(2), of fuel env sr] calm by simp
  qed
qed

lemma forward_returns:
  assumes calm: "calm env rank sr" and fuel: "enough env rank (cache sr) fuel"
    and len: "length packet = unat len" "42 \<le> length packet" "unat len < 2 ^ 31 - 24"
    and e: "sr_findLPMentry (routing_table sr) (ip_dst (ip_at 14 packet)) = Some e"
    and less: "given_up env (cache sr) (ip_dst (ip_at 14 packet)) \<Longrightarrow>
      given_up env (cache sr) (ip_src (ip_at 14 packet)) \<Longrightarrow>
      rank (ip_src (ip_at 14 packet)) < rank (ip_dst (ip_at 14 packet))"
  shows "\<exists>sr'. forward_packet fuel env sr packet len e = Inr sr' \<and> calm env rank sr'"
proof -
  from calm_route [OF calm e] obtain j where j: "sr_get_interface sr (list_of (rt_interface e)) = Some j" .
  let ?b = "forward_frame (ether_dhost (eth_at 0 packet)) (if_addr j) packet"
  have b: "quotable ?b len" "34 \<le> length packet" using len by (simp_all add: quotable_def frame_ok_def)
  have "sr_findLPMentry (routing_table sr) (ip_dst (ip_at 14 packet)) \<noteq> None" using e by simp
  from transmit_returns [OF calm b(1) fuel this] show ?thesis
    using j forward_packet_eq [OF b(2), of fuel env sr len e] less by simp
qed

lemma accepted_returns:
  assumes calm: "calm env rank sr" and fuel: "enough env rank (cache sr) fuel"
    and i: "sr_get_interface sr interface = Some i" and acc: "accepted packet len" and "42 \<le> length packet"
    and src: "sr_findLPMentry (routing_table sr) (ip_src (ip_at 14 packet)) \<noteq> None"
    and less: "given_up env (cache sr) (ip_dst (ip_at 14 packet)) \<Longrightarrow>
      given_up env (cache sr) (ip_src (ip_at 14 packet)) \<Longrightarrow>
      rank (ip_src (ip_at 14 packet)) < rank (ip_dst (ip_at 14 packet))"
  shows "\<exists>sr'. sr_handlepacket fuel env sr packet len interface = Inr sr' \<and> calm env rank sr'"
proof -
  let ?h = "ip_at 14 packet"
  have len: "length packet = unat len" "unat len < 2 ^ 31 - 24" using acc by (simp_all add: accepted_def)
  have own: "\<not> given_up env (cache sr) (if_ip i)" using calm i by (rule calm_own)
  have l: "8 \<le> unat (len - 14 - 20)" using len assms(5) minus_34 [of len] by simp
  have errors: "\<exists>sr'. transmit fuel env sr (ip_src ?h) b 70 interface = Inr sr' \<and> calm env rank sr'"
    if "length b = 70" "ip_src (ip_at 14 b) = if_ip i" for b
    using calm fuel src own that by (intro transmit_returns) simp_all
  from acc show ?thesis
  proof (cases rule: accepted_cases [where sr = sr and fuel = fuel and env = env and interface = interface])
    case echo
    then show ?thesis using echo_returns [OF calm fuel len(1) assms(5) len(2) src] by simp
  next
    case port
    then show ?thesis
      using errors port_unreachable_eq [OF l, of fuel env sr packet interface] i assms(5) by simp
  next
    case ttl
    then show ?thesis
      using errors time_exceeded_eq [of fuel env sr packet interface] i assms(5) by simp
  next
    case net
    then show ?thesis
      using errors net_unreachable_eq [of fuel env sr packet interface] i assms(5) by simp
  next
    case (fwd e)
    then show ?thesis using forward_returns [OF calm fuel len(1) assms(5) len(2) fwd(1) less] by simp
  qed (use calm in simp)
qed

lemma handle_arp_returns:
  assumes calm: "calm env rank sr" and "sr_get_interface sr interface = Some i"
    and len: "length packet = unat len" "42 \<le> length packet" "unat len < 2 ^ 31 - 24"
  shows "\<exists>sr'. handle_arp env sr packet len len_r interface = Inr sr' \<and> calm env rank sr'"
proof -
  have "frame_ok (arp_reply_frame i packet) len" using len by (simp add: frame_ok_def)
  then obtain r sr' where s: "sr_send_packet env sr (arp_reply_frame i packet) len interface = Inr (r, sr')"
    using vns.send_total by blast
  then have "arp_answer env sr packet len i interface = Inr sr'" "calm env rank sr'"
    using arp_answer_eq [OF len(2), of env sr len i interface] calm calm_same_cache send_packet_same
    by auto
  then show ?thesis
    using assms learn_returns [OF calm, of packet] by (simp add: handle_arp_def Let_def)
qed

theorem handlepacket_returns:
  assumes "calm env rank sr" and "enough env rank (cache sr) fuel"
    and "sr_get_interface sr interface = Some i"
    and len: "length packet = unat len" "42 \<le> length packet" "unat len < 2 ^ 31 - 24"
    and "ether_type (eth_at 0 packet) = htons ethertype_ip \<Longrightarrow>
      sr_findLPMentry (routing_table sr) (ip_src (ip_at 14 packet)) \<noteq> None"
    and "given_up env (cache sr) (ip_dst (ip_at 14 packet)) \<Longrightarrow>
      given_up env (cache sr) (ip_src (ip_at 14 packet)) \<Longrightarrow>
      rank (ip_src (ip_at 14 packet)) < rank (ip_dst (ip_at 14 packet))"
  shows "\<exists>sr'. sr_handlepacket fuel env sr packet len interface = Inr sr' \<and> calm env rank sr'"
  using len(1,3)
proof (cases rule: packet_cases)
  case drop
  then show ?thesis using handlepacket_dropped [OF len(1)] assms(1) by simp
next
  case accept
  then show ?thesis
    using assms by (intro accepted_returns) (simp_all add: accepted_def)
next
  case arp
  then have "sr_handlepacket fuel env sr packet len interface = handle_arp env sr packet len (len - 14) interface"
    using len by (simp add: sr_handlepacket_def)
  then show ?thesis
    using handle_arp_returns [OF assms(1,3) len] by simp
qed

end
