(* ===== verification/Delivery.thy ===== *)
theory Delivery
  imports Router_safe
begin

text \<open>
  Packets that wait for an ARP reply are delivered by it: every queued packet is a complete frame
  that carries the hardware address of its outgoing interface as its source, so that \<^verbatim>\<open>sr_send_packet\<close>
  accepts it when the reply comes. The handler and the ARP queue keep this invariant while the interfaces stay as they are. The
  weaker one that every queued packet is a complete frame does not depend on the interfaces. Both are instances of the locale
  \<open>waiting_property\<close>: a property of packets that follows from how the router makes them is one of all waiting packets.
\<close>

section \<open>The invariant\<close>

definition deliverable :: "sr_instance \<Rightarrow> sr_packet \<Rightarrow> bool" where
  "deliverable sr pk \<longleftrightarrow> frame_ok (pk_buf pk) (pk_len pk)
     \<and> (case sr_get_interface sr (list_of (pk_iface pk)) of
          None \<Rightarrow> False | Some i \<Rightarrow> ether_shost (eth_at 0 (pk_buf pk)) = if_addr i)"

definition queue_deliverable :: "sr_instance \<Rightarrow> bool" where
  "queue_deliverable sr \<longleftrightarrow> (\<forall>r \<in> set (requests (cache sr)). list_all (deliverable sr) (rq_packets r))"

text \<open>A message that carries a frame with the hardware address of the interface by which it leaves.\<close>

definition sent_frame :: "sr_instance \<Rightarrow> byte list \<Rightarrow> bool" where
  "sent_frame sr m \<longleftrightarrow> (\<exists>iface i frame. m = vns_frame iface frame \<and> 14 \<le> length frame \<and> length frame < 2 ^ 31 - 24
     \<and> sr_get_interface sr iface = Some i \<and> ether_shost (eth_at 0 frame) = if_addr i)"

text \<open>A frame that is complete, whatever the interfaces are.\<close>

definition complete :: "sr_instance \<Rightarrow> sr_packet \<Rightarrow> bool" where
  "complete sr pk \<longleftrightarrow> frame_ok (pk_buf pk) (pk_len pk)"

lemma deliverable_cong: "if_list sr' = if_list sr \<Longrightarrow> deliverable sr' = deliverable sr"
  by (simp add: deliverable_def fun_eq_iff get_interface_cong [of sr' sr])

lemma sent_frame_cong: "if_list sr' = if_list sr \<Longrightarrow> sent_frame sr' = sent_frame sr"
  by (simp add: sent_frame_def fun_eq_iff get_interface_cong [of sr' sr])

lemma get_interface_strncpy [simp]:
  "sr_get_interface sr (list_of (strncpy n :: iface_name)) = sr_get_interface sr n"
  unfolding sr_get_interface_def by (rule if_walk_cong) simp

lemma deliverable_new:
  "frame_ok b l \<Longrightarrow> sr_get_interface sr n = Some i \<Longrightarrow> ether_shost (eth_at 0 b) = if_addr i \<Longrightarrow>
   deliverable sr (new_pkt b l n)"
  by (simp add: deliverable_def new_pkt_def frame_ok_def)

lemma frame_ok_blit: "frame_ok b l \<Longrightarrow> frame_ok (blit 0 (list_of (sha :: mac)) b) l"
  by (simp add: frame_ok_def)

lemma set_unlink_req: "set (snd (unlink_req ip rs)) \<subseteq> set rs"
  by (induction rs) (auto simp: case_prod_unfold Let_def)

lemma insert_hands_out:
  assumes "sr_arpcache_insert t c m ip = (Some q, c')"
  shows "q \<in> set (requests c)"
proof -
  have "fst (unlink_req ip rs) = Some q \<Longrightarrow> q \<in> set rs" for rs
    by (induction rs) (auto simp: case_prod_unfold Let_def split: if_splits)
  then show ?thesis using assms by (auto simp: sr_arpcache_insert_def case_prod_unfold Let_def)
qed

section \<open>What every waiting packet has\<close>

definition queue_all :: "(sr_instance \<Rightarrow> sr_packet \<Rightarrow> bool) \<Rightarrow> sr_instance \<Rightarrow> bool" where
  "queue_all Q sr \<longleftrightarrow> (\<forall>r \<in> set (requests (cache sr)). list_all (Q sr) (rq_packets r))"

definition keeps_all :: "(sr_instance \<Rightarrow> sr_packet \<Rightarrow> bool) \<Rightarrow> sr_instance \<Rightarrow> sr_instance \<Rightarrow> bool" where
  "keeps_all Q sr sr' \<longleftrightarrow> if_list sr' = if_list sr
     \<and> (queue_all Q sr \<longrightarrow> queue_all Q sr' \<and> (\<exists>out. sock_out sr' = sock_out sr @ out \<and> list_all (sent_frame sr) out))"

lemma queue_all_deliverable [simp]: "queue_all deliverable sr = queue_deliverable sr"
  by (simp add: queue_all_def queue_deliverable_def)

lemma keeps_all_refl [simp]: "keeps_all Q sr sr"
  by (simp add: keeps_all_def)

lemma keeps_all_trans:
  assumes "keeps_all Q a b" and "keeps_all Q b c"
  shows "keeps_all Q a c"
  using assms sent_frame_cong [of b a] by (fastforce simp: keeps_all_def)

text \<open>
  A property of waiting packets that implies that they are complete frames, depends on the interfaces only, and holds of
  every frame that carries the hardware address of its outgoing interface. The ARP queue and the packet handler keep it.
\<close>

locale waiting_property =
  fixes Q :: "sr_instance \<Rightarrow> sr_packet \<Rightarrow> bool"
  assumes Q_frame: "Q sr pk \<Longrightarrow> frame_ok (pk_buf pk) (pk_len pk)"
    and Q_cong: "if_list sr' = if_list sr \<Longrightarrow> Q sr' = Q sr"
    and Q_new: "frame_ok b l \<Longrightarrow> sr_get_interface sr n = Some i \<Longrightarrow> ether_shost (eth_at 0 b) = if_addr i \<Longrightarrow> Q sr (new_pkt b l n)"
begin

lemma queue_all_same: "same_router sr sr' \<Longrightarrow> queue_all Q sr' = queue_all Q sr"
  using same_router_fields [of sr sr'] Q_cong [of sr' sr] by (simp add: queue_all_def)

lemma keeps_log: "same_router sr sr' \<Longrightarrow> sock_out sr' = sock_out sr \<Longrightarrow> keeps_all Q sr sr'"
  using same_router_fields(1) [of sr sr'] queue_all_same [of sr sr'] by (simp add: keeps_all_def)

lemma keeps_send:
  assumes "frame_ok buf len" and "sr_send_packet env sr buf len iface = Inr (x, sr')"
  shows "keeps_all Q sr sr'"
proof -
  have same: "same_router sr sr'" using assms(2) by (rule send_packet_same)
  have "sock_out sr' = sock_out sr \<or> sock_out sr' = sock_out sr @ [vns_frame iface buf] \<and> sent_frame sr (vns_frame iface buf)"
    using assms send_packet_eq [OF assms(1), of env sr iface] unfolding sent_frame_def frame_ok_def
    by (fastforce split: if_splits)
  then show ?thesis
    using same_router_fields(1) [OF same] queue_all_same [OF same] by (auto simp: keeps_all_def)
qed

lemma keepsI:
  assumes "if_list sr' = if_list sr" and "sock_out sr' = sock_out sr"
    and "\<And>r' pk. queue_all Q sr \<Longrightarrow> r' \<in> set (requests (cache sr')) \<Longrightarrow> pk \<in> set (rq_packets r') \<Longrightarrow>
      Q sr pk"
  shows "keeps_all Q sr sr'"
  using assms Q_cong [OF assms(1)]
  by (auto simp: keeps_all_def queue_all_def [of Q sr'] list_all_iff)

lemma keeps_queuereq:
  assumes "sr_arpcache_queuereq (cache sr) ip (Some b) l (Some n) = Inr (p, c)"
    and new: "Q sr (new_pkt b l n)"
  shows "keeps_all Q sr (sr\<lparr>cache := c\<rparr>)"
proof (rule keepsI)
  obtain p1 c1 where f: "queuereq_find (cache sr) ip = (p1, c1)" by fastforce
  have c1: "requests c1 = requests (cache sr) \<or> requests c1 = requests (cache sr) @ [new_req p1 ip]"
    using f by (auto simp: queuereq_find_def split: option.splits)
  fix r' pk assume "queue_all Q sr" "r' \<in> set (requests (cache (sr\<lparr>cache := c\<rparr>)))" "pk \<in> set (rq_packets r')"
  then show "Q sr pk"
    using assms c1 f
    by (auto simp: sr_arpcache_queuereq_def queue_all_def list_all_iff set_upd_req new_req_def split: if_splits)
qed simp_all

lemma keeps_mark: "keeps_all Q sr (sr\<lparr>cache := mark_sent t p (cache sr)\<rparr>)"
  by (rule keepsI) (auto simp: mark_sent_def set_upd_req queue_all_def list_all_iff)

lemma keeps_destroy: "keeps_all Q sr (sr\<lparr>cache := sr_arpreq_destroy (cache sr) (Some p)\<rparr>)"
  using set_remove_req [of p "requests (cache sr)"]
  by (intro keepsI) (auto simp: sr_arpreq_destroy_def queue_all_def list_all_iff)

end

sublocale waiting_property \<subseteq> arp: arp_relation "keeps_all Q"
proof
  show "keeps_all Q sr (sr\<lparr>cache := c\<rparr>)"
    if "sr_get_interface sr n = Some i"
      and q: "sr_arpcache_queuereq (cache sr) ip (Some (unreachable_frame d i pbuf)) 70 (Some n) = Inr (p, c)"
    for sr ip d i pbuf n p c
    using that(1) by (intro keeps_queuereq [OF q] Q_new) simp_all
qed (simp, erule (1) keeps_all_trans, erule (1) keeps_send, rule keeps_mark, rule keeps_destroy)

context waiting_property
begin

lemma keeps_transmit:
  assumes "transmit fuel env sr ip buf len iface = Inr sr'" and "frame_ok buf len"
    and "sr_get_interface sr iface = Some i" and "ether_shost (eth_at 0 buf) = if_addr i"
  shows "keeps_all Q sr sr'"
proof (cases "sr_arpcache_lookup (cache sr) ip")
  case None
  with assms(1) obtain p c where q: "sr_arpcache_queuereq (cache sr) ip (Some buf) len (Some iface) = Inr (p, c)"
    and h: "sr_arpcache_handle_arpreq fuel env (sr\<lparr>cache := c\<rparr>) p = Inr sr'"
    by (auto simp: transmit_def)
  have "keeps_all Q sr (sr\<lparr>cache := c\<rparr>)"
    using assms(2-4) by (intro keeps_queuereq [OF q] Q_new)
  then show ?thesis
    using arp.R_handle [OF h] by (rule keeps_all_trans)
next
  case (Some a)
  have "frame_ok (mod_eth 0 (\<lambda>h. h\<lparr>ether_dhost := ae_mac a\<rparr>) buf) len" using assms(2) by (simp add: frame_ok_def)
  with Some assms(1) show ?thesis by (auto simp: transmit_def intro: keeps_send)
qed

lemma keeps_flush:
  "flush_packets env sha sr ps = Inr sr' \<Longrightarrow> list_all (Q sr) ps \<Longrightarrow> keeps_all Q sr sr'"
proof (induction ps arbitrary: sr)
  case (Cons pk ps)
  then obtain r sr1 where s: "sr_send_packet env sr (blit 0 (list_of sha) (pk_buf pk)) (pk_len pk)
      (list_of (pk_iface pk)) = Inr (r, sr1)" and f: "flush_packets env sha sr1 ps = Inr sr'"
    by auto
  have k: "keeps_all Q sr sr1" using Cons.prems(2) by (intro keeps_send [OF frame_ok_blit [OF Q_frame [of sr]] s]) simp
  then have "Q sr1 = Q sr" by (intro Q_cong) (simp add: keeps_all_def)
  with Cons.IH [OF f] Cons.prems(2) have "keeps_all Q sr1 sr'" by simp
  with k show ?case by (rule keeps_all_trans)
qed simp

lemma keeps_insert: "keeps_all Q sr (sr\<lparr>cache := snd (sr_arpcache_insert t (cache sr) m ip)\<rparr>)"
  using set_unlink_req [of ip "requests (cache sr)"]
  by (intro keepsI) (auto simp: sr_arpcache_insert_def case_prod_unfold Let_def queue_all_def list_all_iff)

lemma keeps_learn:
  assumes "arp_learn_reply env sr packet = Inr sr'" and q: "queue_all Q sr"
  shows "keeps_all Q sr sr'"
proof -
  let ?a = "arp_at 14 packet"
  obtain req c where i: "sr_arpcache_insert (now env) (cache sr) (ar_sha ?a) (ar_sip ?a) = (req, c)"
    by fastforce
  have first: "keeps_all Q sr (sr\<lparr>cache := c\<rparr>)"
    using keeps_insert [of sr "now env" "ar_sha ?a" "ar_sip ?a"] i by simp
  show ?thesis
  proof (cases req)
    case None
    with assms i first show ?thesis by (simp add: arp_learn_reply_def)
  next
    case (Some q)
    with assms i obtain sr2 where f: "flush_packets env (ar_sha ?a) (sr\<lparr>cache := c\<rparr>) (rq_packets q) = Inr sr2"
      and sr': "sr' = sr2\<lparr>cache := sr_arpreq_destroy (cache sr2) (Some (rq_id q))\<rparr>"
      by (auto simp: arp_learn_reply_def)
    have "list_all (Q sr) (rq_packets q)"
      using insert_hands_out i Some assms(2) by (auto simp: queue_all_def)
    then have "keeps_all Q (sr\<lparr>cache := c\<rparr>) sr2"
      using keeps_flush [OF f] Q_cong [of "sr\<lparr>cache := c\<rparr>" sr] by simp
    with first keeps_destroy show ?thesis unfolding sr' by (blast intro: keeps_all_trans)
  qed
qed

lemma keeps_accepted:
  assumes acc: "accepted packet len" and h: "sr_handlepacket fuel env sr packet len interface = Inr sr'"
  shows "keeps_all Q sr sr'"
proof -
  have len: "length packet = unat len" "34 \<le> length packet" "unat len < 2 ^ 31 - 24"
    using acc by (simp_all add: accepted_def)
  have frame: "frame_ok b len" if "length b = length packet" for b
    using len that by (simp add: frame_ok_def)
  have error: "keeps_all Q sr sr'" if "sr_get_interface sr interface = Some i" "length b = 70"
      "ether_shost (eth_at 0 b) = if_addr i" "transmit fuel env sr ip b 70 interface = Inr sr'" for i b ip
    using that(4) _ that(1,3) by (rule keeps_transmit) (simp add: that(2))
  from acc show ?thesis
  proof (cases rule: accepted_cases [where sr = sr and fuel = fuel and env = env and interface = interface])
    case echo
    have "unat len < 2 ^ 31" using len(3) by simp
    from echo_reply_eq [OF echo(3) len(1) this, of fuel env sr] echo(6) h have "sr' = sr \<or> (\<exists>d n i. sr_get_interface sr n = Some i
      \<and> transmit fuel env sr (ip_src (ip_at 14 packet)) (echo_frame d (if_addr i) packet) len n = Inr sr')"
      by (auto split: if_splits option.splits)
    then show ?thesis
      using frame echo(3) by (auto intro: keeps_transmit)
  next
    case port
    with h consider "sr' = sr" | i ip where "sr_get_interface sr interface = Some i"
      "transmit fuel env sr ip (icmp_t3_buf env i packet 3) 70 interface = Inr sr'"
      by (auto simp: port_unreachable_def Let_def split: if_splits)
    then show ?thesis by cases (simp, rule error, simp_all add: icmp_t3_buf_eq)
  next
    case ttl
    with h obtain i ip where "sr_get_interface sr interface = Some i"
      "transmit fuel env sr ip (icmp_t11_buf env i packet) 70 interface = Inr sr'"
      by (auto simp: time_exceeded_def Let_def)
    then show ?thesis by - (rule error, simp_all add: icmp_t11_buf_eq)
  next
    case net
    with h obtain i ip where "sr_get_interface sr interface = Some i"
      "transmit fuel env sr ip (icmp_t3_buf env i packet 0) 70 interface = Inr sr'"
      by (auto simp: net_unreachable_def Let_def)
    then show ?thesis by - (rule error, simp_all add: icmp_t3_buf_eq)
  next
    case (fwd e)
    with h show ?thesis
      using forward_packet_eq [OF len(2), of fuel env sr len e] frame len(2)
      by (auto split: option.splits intro: keeps_transmit)
  qed (use h in simp)
qed

lemma keeps_answer:
  assumes "arp_answer env sr packet len i interface = Inr sr'"
    and "length packet = unat len" and "42 \<le> unat len" and "unat len < 2 ^ 31 - 24"
  shows "keeps_all Q sr sr'"
proof -
  obtain b x where "sr_send_packet env sr b len interface = Inr (x, sr')" "length b = length packet"
    using assms(1-3) by (auto simp: arp_answer_def Let_def)
  then show ?thesis using assms(2-4) by (intro keeps_send [of b len]) (simp_all add: frame_ok_def)
qed

lemma keeps_handlepacket:
  assumes h: "sr_handlepacket fuel env sr packet len interface = Inr sr'"
    and len: "length packet = unat len" "unat len < 2 ^ 31 - 24"
  shows "keeps_all Q sr sr'"
  using len
proof (cases rule: packet_cases)
  case drop
  then show ?thesis using handlepacket_dropped [OF len(1)] h by simp
next
  case accept
  then show ?thesis using h by (rule keeps_accepted)
next
  case arp
  have "if_list sr' = if_list sr" using event_step_handlepacket [OF h] by (simp add: event_step_def)
  moreover have "keeps_all Q sr sr'" if "queue_all Q sr"
    using arp h len that
    by (auto simp: sr_handlepacket_def handle_arp_def Let_def split: if_splits intro: keeps_answer keeps_learn)
  ultimately show ?thesis by (cases "queue_all Q sr") (simp_all add: keeps_all_def)
qed

end

text \<open>Both properties of waiting packets are such properties.\<close>

interpretation deliver: waiting_property deliverable
proof
  show "deliverable sr pk \<Longrightarrow> frame_ok (pk_buf pk) (pk_len pk)" for sr pk by (simp add: deliverable_def)
qed (rule deliverable_cong, assumption, rule deliverable_new)

interpretation whole: waiting_property complete
  by unfold_locales (auto simp: complete_def fun_eq_iff new_pkt_def frame_ok_def)

section \<open>A reply delivers what waited for it\<close>

lemma set_dhost_blit:
  assumes "14 \<le> length b"
  shows "blit 0 (list_of m) b = mod_eth 0 (\<lambda>h. h\<lparr>ether_dhost := m\<rparr>) b"
proof -
  have "seg 6 6 (seg 0 14 b) @ seg 12 2 (seg 0 14 b) = seg 6 8 b"
    by (simp add: seg_seg seg_join)
  then have "wr_eth ((eth_at 0 b)\<lparr>ether_dhost := m\<rparr>) = list_of m @ seg 6 8 b"
    using assms by (simp add: wr_eth_def rd_eth_def seg_st16 seg_list_of)
  moreover have "drop 6 b = seg 6 8 b @ drop 14 b"
    using append_take_drop_id [symmetric, of "drop 6 b" 8] by (simp add: seg_def)
  ultimately show ?thesis
    using assms by (simp add: modify_def blit_def)
qed

definition delivered :: "mac \<Rightarrow> sr_packet \<Rightarrow> byte list" where
  "delivered sha pk = vns_frame (list_of (pk_iface pk)) (blit 0 (list_of sha) (pk_buf pk))"

lemma flush_deliverable:
  "list_all (deliverable sr) ps \<Longrightarrow>
   \<exists>log. flush_packets env sha sr ps =
     Inr (sr\<lparr>logfile := log, sock_out := sock_out sr @ map (delivered sha) ps\<rparr>)"
proof (induction ps arbitrary: sr)
  case Nil
  then show ?case by (intro exI [of _ "logfile sr"]) simp
next
  case (Cons pk ps)
  then have pk: "frame_ok (pk_buf pk) (pk_len pk)" by (simp add: deliverable_def)
  obtain i where i: "sr_get_interface sr (list_of (pk_iface pk)) = Some i" "ether_shost (eth_at 0 (pk_buf pk)) = if_addr i"
    using Cons.prems by (auto simp: deliverable_def split: option.splits)
  let ?b = "blit 0 (list_of sha) (pk_buf pk)"
  have len: "14 \<le> length (pk_buf pk)" using pk by (simp add: frame_ok_def)
  have "frame_ok ?b (pk_len pk)" "ether_shost (rd_eth (seg 0 14 ?b)) = if_addr i"
    using pk i(2) len by (simp_all add: frame_ok_def set_dhost_blit buf_simps)
  from send_ok_eq [OF this(1) i(1) this(2), of env] obtain r log where
    s: "sr_send_packet env sr ?b (pk_len pk) (list_of (pk_iface pk)) =
      Inr (r, sr\<lparr>logfile := log, sock_out := sock_out sr @ [delivered sha pk]\<rparr>)"
    unfolding delivered_def by blast
  let ?sr = "sr\<lparr>logfile := log, sock_out := sock_out sr @ [delivered sha pk]\<rparr>"
  have "list_all (deliverable ?sr) ps" using Cons.prems deliverable_cong [of ?sr sr] by simp
  then obtain log' where "flush_packets env sha ?sr ps =
      Inr (?sr\<lparr>logfile := log', sock_out := sock_out ?sr @ map (delivered sha) ps\<rparr>)"
    using Cons.IH by blast
  then show ?case
    using len by (intro exI [of _ log']) (simp add: s)
qed

text \<open>An ARP reply to the address of the receiving interface.\<close>

definition arp_reply_for :: "sr_if \<Rightarrow> byte list \<Rightarrow> u32 \<Rightarrow> bool" where
  "arp_reply_for i packet len \<longleftrightarrow> length packet = unat len \<and> 42 \<le> unat len
     \<and> ether_type (eth_at 0 packet) = htons ethertype_arp
     \<and> ar_op (arp_at 14 packet) = htons arp_op_reply \<and> ar_tip (arp_at 14 packet) = if_ip i"

lemma handlepacket_arp:
  assumes "length packet = unat len" "42 \<le> unat len" "ether_type (eth_at 0 packet) = htons ethertype_arp"
    and "sr_get_interface sr interface = Some i" and "ar_tip (arp_at 14 packet) = if_ip i"
  shows "sr_handlepacket fuel env sr packet len interface =
    (if ar_op (arp_at 14 packet) = htons arp_op_request then arp_answer env sr packet len i interface
     else if ar_op (arp_at 14 packet) = htons arp_op_reply then arp_learn_reply env sr packet
     else Inr sr)"
proof -
  have "htons ethertype_arp \<noteq> htons ethertype_ip" by (simp add: protocol_numbers)
  moreover have "\<not> unat (len - 14) < 28" using assms(2) by (simp add: minus_14)
  ultimately show ?thesis
    using assms by (simp add: sr_handlepacket_def handle_arp_def)
qed

lemma destroy_unlinked:
  assumes "cache_inv c" and "find_req ip (requests c) = Some q"
  shows "sr_arpreq_destroy (snd (sr_arpcache_insert t c m ip)) (Some (rq_id q)) = snd (sr_arpcache_insert t c m ip)"
proof -
  let ?c = "snd (sr_arpcache_insert t c m ip)"
  have q: "q \<in> set (requests c)" "rq_ip q = ip" using find_req_Some [OF assms(2)] by auto
  have "rq_id q \<notin> rq_id ` set (requests ?c)"
    using insert_spec(3) [OF assms(1)] distinct_ids [OF assms(1) q(1)] q(2) by auto
  then have "remove_req (rq_id q) (requests ?c) = requests ?c"
    using remove_req_filter cache_invD(3) [OF insert_spec(1) [OF assms(1)]] filter_key_absent by metis
  then show ?thesis by (simp add: sr_arpreq_destroy_def)
qed

lemma reply_delivers:
  assumes inv: "cache_inv (cache sr)" and "queue_deliverable sr"
    and i: "sr_get_interface sr interface = Some i" and r: "arp_reply_for i packet len"
    and f: "find_req (ar_sip (arp_at 14 packet)) (requests (cache sr)) = Some q"
  shows "\<exists>log. sr_handlepacket fuel env sr packet len interface =
    Inr (sr\<lparr>cache := snd (sr_arpcache_insert (now env) (cache sr) (ar_sha (arp_at 14 packet)) (ar_sip (arp_at 14 packet))),
      logfile := log,
      sock_out := sock_out sr @ map (delivered (ar_sha (arp_at 14 packet))) (rq_packets q)\<rparr>)"
proof -
  let ?a = "arp_at 14 packet"
  have ne: "htons arp_op_reply \<noteq> htons arp_op_request" by (simp add: protocol_numbers)
  have h: "sr_handlepacket fuel env sr packet len interface = arp_learn_reply env sr packet"
    using r i ne by (simp add: arp_reply_for_def handlepacket_arp)
  obtain c where ins: "sr_arpcache_insert (now env) (cache sr) (ar_sha ?a) (ar_sip ?a) = (Some q, c)"
    using insert_spec(2) [OF inv, of "now env" "ar_sha ?a" "ar_sip ?a"] f by (metis prod.collapse)
  have "q \<in> set (requests (cache sr))" using find_req_Some [OF f] by simp
  then have "list_all (deliverable (sr\<lparr>cache := c\<rparr>)) (rq_packets q)"
    using assms(2) deliverable_cong [of "sr\<lparr>cache := c\<rparr>" sr] by (simp add: queue_deliverable_def)
  then obtain log where "flush_packets env (ar_sha ?a) (sr\<lparr>cache := c\<rparr>) (rq_packets q) =
      Inr (sr\<lparr>cache := c, logfile := log, sock_out := sock_out sr @ map (delivered (ar_sha ?a)) (rq_packets q)\<rparr>)"
    using flush_deliverable [of "sr\<lparr>cache := c\<rparr>" "rq_packets q" env "ar_sha ?a"] by auto
  then show ?thesis
    using h ins destroy_unlinked [OF inv f, of "now env" "ar_sha ?a"]
    by (intro exI [of _ log]) (simp add: arp_learn_reply_def)
qed

section \<open>The invariant of the router\<close>

definition router_inv :: "sr_instance \<Rightarrow> bool" where
  "router_inv sr \<longleftrightarrow> cache_inv (cache sr) \<and> times_ok (cache sr) \<and> queue_deliverable sr"

lemma router_inv_handlepacket:
  assumes h: "sr_handlepacket fuel env sr packet len interface = Inr sr'"
    and len: "length packet = unat len" "unat len < 2 ^ 31 - 24" and inv: "router_inv sr"
  shows "router_inv sr' \<and> if_list sr' = if_list sr \<and> routing_table sr' = routing_table sr
    \<and> (\<exists>out. sock_out sr' = sock_out sr @ out \<and> list_all (sent_frame sr) out)"
  using event_step_handlepacket [OF h] deliver.keeps_handlepacket [OF h len] inv
  by (simp add: event_step_def keeps_all_def router_inv_def)

end
