(* ===== verification/Resolution.thy ===== *)
theory Resolution
  imports Delivery Rounds
begin

text \<open>
  Two events together: a packet for a next hop whose hardware address is not known, and the ARP reply that
  resolves it. The packet that finally leaves is the one that would have left at once, had the address
  been known.
\<close>

section \<open>The first packet\<close>

lemma forward_first:
  assumes "accepted packet len" and "\<not> own_addr sr (ip_dst (ip_at 14 packet))" and "ip_ttl (ip_at 14 packet) \<noteq> 1"
    and "sr_findLPMentry (routing_table sr) (ip_dst (ip_at 14 packet)) = Some e"
    and "sr_get_interface sr (list_of (rt_interface e)) = Some i"
    and "sr_arpcache_lookup (cache sr) (ip_dst (ip_at 14 packet)) = None"
    and "pend (cache sr) (ip_dst (ip_at 14 packet)) = None" and "cache_inv (cache sr)" and "1 < now env"
  shows "\<exists>log c. sr_handlepacket (Suc fuel) env sr packet len interface =
      Inr (sr\<lparr>cache := c, logfile := log, sock_out := sock_out sr @ [vns_frame (list_of (if_name i))
        (arp_request_frame (if_addr i) (if_ip i) (ip_dst (ip_at 14 packet)))]\<rparr>)
    \<and> entries c = entries (cache sr) \<and> cache_inv c
    \<and> pend c = (pend (cache sr))(ip_dst (ip_at 14 packet) \<mapsto>
        [new_pkt (forward_frame (ether_dhost (eth_at 0 packet)) (if_addr i) packet) len (list_of (rt_interface e))])"
proof -
  have len: "34 \<le> length packet" "length packet = unat len" "unat len < 2 ^ 31 - 24"
    using assms(1) by (simp_all add: accepted_def)
  let ?b = "forward_frame (ether_dhost (eth_at 0 packet)) (if_addr i) packet"
  have "sr_handlepacket (Suc fuel) env sr packet len interface =
      transmit (Suc fuel) env sr (ip_dst (ip_at 14 packet)) ?b len (list_of (rt_interface e))"
    using assms handlepacket_accepted [OF assms(1)] forward_packet_eq [OF len(1)] by simp
  moreover have "frame_ok ?b len" using len by (simp add: frame_ok_def)
  ultimately show ?thesis
    using transmit_first [OF assms(8,6) _ assms(7,9,4,5), of ?b len fuel] by simp
qed

text \<open>The request it leaves in the queue.\<close>

definition asked :: "env \<Rightarrow> sr_instance \<Rightarrow> u32 \<Rightarrow> sr_packet \<Rightarrow> sr_arpreq" where
  "asked env sr ip pk = \<lparr> rq_id = next_addr (cache sr), rq_ip = ip, rq_sent = now env, rq_times_sent = 1, rq_packets = [pk] \<rparr>"

lemma transmit_asked:
  assumes inv: "cache_inv (cache sr)" and "sr_arpcache_lookup (cache sr) ip = None" and "frame_ok buf len"
    and "pend (cache sr) ip = None" and "transmit (Suc fuel) env sr ip buf len iface = Inr sr'" and "now env > 1"
  shows "requests (cache sr') = requests (cache sr) @ [asked env sr ip (new_pkt buf len iface)]"
proof -
  let ?p = "next_addr (cache sr)" and ?rs = "requests (cache sr)"
  let ?r = "(new_req ?p ip)\<lparr>rq_packets := [new_pkt buf len iface]\<rparr>"
  let ?c = "(cache sr)\<lparr>requests := ?rs @ [?r], next_addr := Suc ?p\<rparr>"
  have "find_req ip ?rs = None" using assms(4) by (simp add: pend_def req_packets_def)
  then have q: "sr_arpcache_queuereq (cache sr) ip (Some buf) len (Some iface) = Inr (?p, ?c)"
    using assms(3) by (intro queue_new [OF inv]) (auto simp: frame_ok_def)
  have new: "?p \<notin> rq_id ` set ?rs" using cache_invD(4) [OF inv] by fastforce
  then have at: "req_at ?p (sr\<lparr>cache := ?c\<rparr>) = Inr ?r"
    using find_id [of ?r ?rs "[]"] by (simp add: req_at_def new_req_def)
  have "transmit (Suc fuel) env sr ip buf len iface = send_arp_request env (sr\<lparr>cache := ?c\<rparr>) ?r"
    using assms(2,6) q at by (simp add: transmit_def new_req_def)
  with assms(5) obtain b n x where "sr_send_packet env (sr\<lparr>cache := mark_sent (now env) ?p ?c\<rparr>) b 42 n = Inr (x, sr')"
    by (auto simp: send_arp_request_def mark_sent_def new_req_def Let_def)
  then have "cache sr' = mark_sent (now env) ?p ?c" using same_router_fields(3) [OF send_packet_same] by fastforce
  then show ?thesis
    using upd_req_mid [of ?r ?rs "[]"] new by (simp add: mark_sent_def) (simp add: new_req_def asked_def)
qed

text \<open>
  A message of the router to a next hop: it leaves if the hardware address of the next hop is known, and otherwise it waits, with a
  request for the address if it is the first that waits.
\<close>

definition sent_or_waits ::
  "sr_instance \<Rightarrow> u32 \<Rightarrow> (mac \<Rightarrow> byte list) \<Rightarrow> byte list \<Rightarrow> sr_instance res \<Rightarrow> bool" where
  "sent_or_waits sr ip frame iface result \<longleftrightarrow>
     (\<forall>a. sr_arpcache_lookup (cache sr) ip = Some a \<longrightarrow>
        (\<exists>log. result = Inr (sr\<lparr>logfile := log, sock_out := sock_out sr @ [vns_frame iface (frame (ae_mac a))]\<rparr>)))
     \<and> (\<forall>e j. sr_arpcache_lookup (cache sr) ip = None \<and> pend (cache sr) ip = None
        \<and> sr_findLPMentry (routing_table sr) ip = Some e \<and> sr_get_interface sr (list_of (rt_interface e)) = Some j \<longrightarrow>
        (\<exists>log c m. result = Inr (sr\<lparr>cache := c, logfile := log, sock_out := sock_out sr @
            [vns_frame (list_of (if_name j)) (arp_request_frame (if_addr j) (if_ip j) ip)]\<rparr>)
          \<and> pend c = (pend (cache sr))(ip \<mapsto> [new_pkt (frame m) 70 iface])))"

lemma transmit_message:
  assumes "cache_inv (cache sr)" and "1 < now env" and "sr_get_interface sr iface = Some i"
    and "\<And>m. length (frame m) = 70" and "\<And>m. ether_shost (eth_at 0 (frame m)) = if_addr i"
    and "\<And>m m'. mod_eth 0 (\<lambda>h. h\<lparr>ether_dhost := m'\<rparr>) (frame m) = frame m'"
  shows "sent_or_waits sr ip frame iface (transmit (Suc fuel) env sr ip (frame m) 70 iface)"
proof -
  have f: "frame_ok (frame m) 70" using assms(4) by simp
  have "\<exists>log. transmit (Suc fuel) env sr ip (frame m) 70 iface =
      Inr (sr\<lparr>logfile := log, sock_out := sock_out sr @ [vns_frame iface (frame (ae_mac a))]\<rparr>)"
    if "sr_arpcache_lookup (cache sr) ip = Some a" for a
    using transmit_hit [OF that f assms(3,5), of "Suc fuel" env] assms(6) by simp
  moreover have "\<exists>log c m'. transmit (Suc fuel) env sr ip (frame m) 70 iface = Inr (sr\<lparr>cache := c, logfile := log, sock_out := sock_out sr @
            [vns_frame (list_of (if_name j)) (arp_request_frame (if_addr j) (if_ip j) ip)]\<rparr>)
          \<and> pend c = (pend (cache sr))(ip \<mapsto> [new_pkt (frame m') 70 iface])"
    if "sr_arpcache_lookup (cache sr) ip = None" "pend (cache sr) ip = None"
      "sr_findLPMentry (routing_table sr) ip = Some e" "sr_get_interface sr (list_of (rt_interface e)) = Some j" for e j
    using transmit_first [OF assms(1) that(1) f that(2) assms(2) that(3,4), of fuel iface] by blast
  ultimately show ?thesis by (simp add: sent_or_waits_def)
qed

text \<open>Rounds of the timeout thread repeat the request; they keep the packet, as long as the request is not given up.\<close>

lemma pend_one: "requests c = [r] \<Longrightarrow> pend c = [rq_ip r \<mapsto> rq_packets r]"
  by (auto simp: pend_def req_packets_def fun_eq_iff)

lemma first_then_rounds:
  assumes acc: "accepted packet len" and "\<not> own_addr sr (ip_dst (ip_at 14 packet))" and "ip_ttl (ip_at 14 packet) \<noteq> 1"
    and e: "sr_findLPMentry (routing_table sr) (ip_dst (ip_at 14 packet)) = Some e"
    and i: "sr_get_interface sr (list_of (rt_interface e)) = Some i"
    and empty: "requests (cache sr) = []" "no_mappings (cache sr)" and inv: "cache_inv (cache sr)" and t: "1 < now env"
    and n: "resends (now env) envs \<le> 4"
  shows "\<exists>log c. bnd (sr_handlepacket (Suc fuel) env sr packet len interface) (\<lambda>sr1. rounds (Suc k) (Suc fuel) sr1 envs) =
      Inr (sr\<lparr>cache := c, logfile := log, sock_out := sock_out sr @ replicate (Suc (resends (now env) envs))
        (vns_frame (list_of (if_name i)) (arp_request_frame (if_addr i) (if_ip i) (ip_dst (ip_at 14 packet))))\<rparr>)
    \<and> entries c = entries (cache sr) \<and> cache_inv c \<and> queue_deliverable (sr\<lparr>cache := c\<rparr>)
    \<and> pend c = [ip_dst (ip_at 14 packet) \<mapsto>
        [new_pkt (forward_frame (ether_dhost (eth_at 0 packet)) (if_addr i) packet) len (list_of (rt_interface e))]]"
proof -
  let ?ip = "ip_dst (ip_at 14 packet)" and ?b = "forward_frame (ether_dhost (eth_at 0 packet)) (if_addr i) packet"
  let ?pk = "new_pkt ?b len (list_of (rt_interface e))" and ?f = "vns_frame (list_of (if_name i)) (arp_request_frame (if_addr i) (if_ip i) (ip_dst (ip_at 14 packet)))"
  have len: "34 \<le> length packet" "length packet = unat len" "unat len < 2 ^ 31 - 24"
    using acc by (simp_all add: accepted_def)
  have "entry_scan ?ip None es = None" if "\<forall>x \<in> set es. \<not> ae_valid x" for es using that by (induction es) auto
  then have look: "sr_arpcache_lookup (cache sr) ?ip = None" using empty(2) by (simp add: sr_arpcache_lookup_def no_mappings_def)
  have pend: "pend (cache sr) ?ip = None" using empty(1) by (simp add: pend_def req_packets_def)
  obtain log c where h: "sr_handlepacket (Suc fuel) env sr packet len interface = Inr (sr\<lparr>cache := c, logfile := log, sock_out := sock_out sr @ [?f]\<rparr>)"
    and c: "entries c = entries (cache sr)" "cache_inv c"
    using forward_first [OF assms(1-5) look pend inv t] by blast
  let ?sr1 = "sr\<lparr>cache := c, logfile := log, sock_out := sock_out sr @ [?f]\<rparr>"
  have "transmit (Suc fuel) env sr ?ip ?b len (list_of (rt_interface e)) = Inr ?sr1"
    using h assms(2-5) handlepacket_accepted [OF acc] forward_packet_eq [OF len(1)] by simp
  from transmit_asked [OF inv look _ pend this t] have rs: "requests c = [asked env sr ?ip ?pk]"
    using len empty(1) by (simp add: frame_ok_def)
  have "sr_get_interface ?sr1 = sr_get_interface sr" by simp
  then obtain log' r' where rounds: "rounds (Suc k) (Suc fuel) ?sr1 envs =
      Inr (on_queue [r'] log' (sock_out ?sr1 @ replicate (resends (now env) envs) ?f) ?sr1)"
    and r': "rq_id r' = next_addr (cache sr)" "rq_ip r' = ?ip" "rq_packets r' = [?pk]"
    using rounds_resend [of ?sr1 "asked env sr ?ip ?pk" e i envs k fuel] rs empty(2) e i n c(1)
    by (auto simp: asked_def no_mappings_def)
  let ?c = "c\<lparr>requests := [r']\<rparr>"
  have "cache_inv ?c" using c(2) rs r' by (simp add: cache_inv_def asked_def)
  moreover have "pend ?c = [?ip \<mapsto> [?pk]]" using pend_one [of ?c r'] r' by simp
  moreover have "deliverable (sr\<lparr>cache := ?c\<rparr>) ?pk"
    using i len by (intro deliverable_new) (simp_all add: frame_ok_def)
  then have "queue_deliverable (sr\<lparr>cache := ?c\<rparr>)" using r'(3) by (simp add: queue_deliverable_def)
  ultimately show ?thesis
    using h rounds c(1) by (intro exI [of _ log'] exI [of _ ?c]) simp
qed

section \<open>The reply\<close>

lemma reply_effect:
  assumes "cache_inv (cache sr)" and "queue_deliverable sr"
    and "sr_get_interface sr interface = Some i" and "arp_reply_for i packet len"
    and "pend (cache sr) (ar_sip (arp_at 14 packet)) = Some ps"
  shows "\<exists>log c. sr_handlepacket fuel env sr packet len interface = Inr (sr\<lparr>cache := c, logfile := log,
        sock_out := sock_out sr @ map (delivered (ar_sha (arp_at 14 packet))) ps\<rparr>)
    \<and> pend c = (pend (cache sr))(ar_sip (arp_at 14 packet) := None)
    \<and> (has_free_slot (cache sr) \<and> arp_view (cache sr) (ar_sip (arp_at 14 packet)) = None \<longrightarrow>
        arp_view c (ar_sip (arp_at 14 packet)) = Some (ar_sha (arp_at 14 packet), now env))"
proof -
  let ?a = "arp_at 14 packet"
  obtain q where q: "find_req (ar_sip ?a) (requests (cache sr)) = Some q" "rq_packets q = ps"
    using assms(5) by (auto simp: pend_def req_packets_def)
  obtain log where "sr_handlepacket fuel env sr packet len interface =
    Inr (sr\<lparr>cache := snd (sr_arpcache_insert (now env) (cache sr) (ar_sha ?a) (ar_sip ?a)), logfile := log,
      sock_out := sock_out sr @ map (delivered (ar_sha ?a)) ps\<rparr>)"
    using reply_delivers [OF assms(1-4) q(1)] q(2) by blast
  then show ?thesis
    using insert_spec(4) [OF assms(1)] arp_table.view_learn_new [of "cache sr" "ar_sip ?a" "now env" "ar_sha ?a"]
    by (intro exI [of _ log] exI) (auto simp: arp_learn_def)
qed

section \<open>Together\<close>

lemma vns_frame_name: "vns_frame (list_of (strncpy n :: iface_name)) f = vns_frame n f"
proof -
  have "cstr (list_of (strncpy n :: iface_name)) = take 32 (cstr n)" by (simp add: cstr_strncpy cstr_take)
  then have "(strncpy (list_of (strncpy n :: iface_name)) :: 16 barr) = strncpy n"
    by (simp add: strncpy_def [of "list_of _"]) (simp add: strncpy_def barr_of_def min_def)
  then show ?thesis by (simp add: vns_frame_def)
qed

lemma delivered_new:
  assumes "frame_ok b len"
  shows "delivered sha (new_pkt b len n) = vns_frame n (mod_eth 0 (\<lambda>h. h\<lparr>ether_dhost := sha\<rparr>) b)"
  using assms by (simp add: delivered_def new_pkt_def frame_ok_def vns_frame_name set_dhost_blit)

lemma resolved_hop:
  assumes acc: "accepted packet len" and "\<not> own_addr sr (ip_dst (ip_at 14 packet))" and "ip_ttl (ip_at 14 packet) \<noteq> 1"
    and "sr_findLPMentry (routing_table sr) (ip_dst (ip_at 14 packet)) = Some e"
    and "sr_get_interface sr (list_of (rt_interface e)) = Some i"
    and look: "sr_arpcache_lookup (cache sr) (ip_dst (ip_at 14 packet)) = None"
    and pend: "pend (cache sr) (ip_dst (ip_at 14 packet)) = None" and "cache_inv (cache sr)" and "1 < now env"
    and queue: "queue_deliverable sr" and slot: "has_free_slot (cache sr)"
    and j: "sr_get_interface sr interface' = Some j" and reply: "arp_reply_for j reply len'"
    and sip: "ar_sip (arp_at 14 reply) = ip_dst (ip_at 14 packet)"
  shows "\<exists>log c. bnd (sr_handlepacket (Suc fuel) env sr packet len interface)
        (\<lambda>sr1. sr_handlepacket fuel' env' sr1 reply len' interface') =
      Inr (sr\<lparr>cache := c, logfile := log, sock_out := sock_out sr @
        [vns_frame (list_of (if_name i)) (arp_request_frame (if_addr i) (if_ip i) (ip_dst (ip_at 14 packet))),
         vns_frame (list_of (rt_interface e)) (forward_frame (ar_sha (arp_at 14 reply)) (if_addr i) packet)]\<rparr>)
    \<and> pend c = pend (cache sr) \<and> arp_view c (ip_dst (ip_at 14 packet)) = Some (ar_sha (arp_at 14 reply), now env')"
proof -
  let ?ip = "ip_dst (ip_at 14 packet)" and ?b = "forward_frame (ether_dhost (eth_at 0 packet)) (if_addr i) packet"
  have len: "34 \<le> length packet" "length packet = unat len" "unat len < 2 ^ 31 - 24"
    using acc by (simp_all add: accepted_def)
  obtain log c where h: "sr_handlepacket (Suc fuel) env sr packet len interface =
      Inr (sr\<lparr>cache := c, logfile := log, sock_out := sock_out sr @ [vns_frame (list_of (if_name i))
        (arp_request_frame (if_addr i) (if_ip i) ?ip)]\<rparr>)"
    and c: "entries c = entries (cache sr)" "cache_inv c"
    "pend c = (pend (cache sr))(?ip \<mapsto> [new_pkt ?b len (list_of (rt_interface e))])"
    using forward_first [OF assms(1-9)] by blast
  define sr1 where "sr1 = sr\<lparr>cache := c, logfile := log, sock_out := sock_out sr @ [vns_frame (list_of (if_name i))
        (arp_request_frame (if_addr i) (if_ip i) ?ip)]\<rparr>"
  have h1: "sr_handlepacket (Suc fuel) env sr packet len interface = Inr sr1" unfolding sr1_def by (rule h)
  have q2: "queue_deliverable sr1"
    using deliver.keeps_handlepacket [OF h1 len(2,3)] queue by (simp add: keeps_all_def)
  have j2: "sr_get_interface sr1 interface' = Some j"
    using j get_interface_cong [of sr1 sr] by (simp add: sr1_def)
  have slot2: "has_free_slot (cache sr1)" "arp_view (cache sr1) ?ip = None"
    using slot look c(1) by (simp_all add: sr1_def has_free_slot_def arp_view_def sr_arpcache_lookup_def)
  have f: "frame_ok ?b len" using len by (simp add: frame_ok_def)
  have "pend (cache sr1) (ar_sip (arp_at 14 reply)) = Some [new_pkt ?b len (list_of (rt_interface e))]"
    using c(3) sip by (simp add: sr1_def)
  from reply_effect [OF _ q2 j2 reply this, of fuel' env'] obtain log' c' where
    "sr_handlepacket fuel' env' sr1 reply len' interface' = Inr (sr1\<lparr>cache := c', logfile := log',
        sock_out := sock_out sr1 @ [delivered (ar_sha (arp_at 14 reply)) (new_pkt ?b len (list_of (rt_interface e)))]\<rparr>)"
    "pend c' = (pend (cache sr1))(?ip := None)" "arp_view c' ?ip = Some (ar_sha (arp_at 14 reply), now env')"
    using c(2) slot2 sip by (auto simp: sr1_def)
  then show ?thesis
    using h1 c(3) pend len(1)
    by (intro exI [of _ log'] exI [of _ c']) (simp add: sr1_def [symmetric], simp add: sr1_def delivered_new [OF f] fun_upd_idem)
qed

end
