(* ===== verification/Threads.thy ===== *)
theory Threads
  imports Resolution Rounds
begin

text \<open>
  The two threads inside one event. The timeout thread holds the cache lock during a whole round. The main thread
  takes the lock only inside \<^verbatim>\<open>sr_arpcache_lookup\<close>, \<^verbatim>\<open>sr_arpcache_queuereq\<close>, \<^verbatim>\<open>sr_arpcache_insert\<close> and
  \<^verbatim>\<open>sr_arpreq_destroy\<close>, so rounds can run between two of these calls. Two sequences of calls hold a pointer to a
  request across such a point: \<^verbatim>\<open>sr_arpcache_queuereq\<close> followed by \<^verbatim>\<open>sr_arpcache_handle_arpreq\<close> when a
  packet has to wait, and \<^verbatim>\<open>sr_arpcache_insert\<close> followed by sending the packets and \<^verbatim>\<open>sr_arpreq_destroy\<close> when a reply
  arrives. The first is not safe: a round may give up and free the request. The second is: the
  request was taken out of the queue before, so no round reaches it.
\<close>

section \<open>A round between two calls\<close>

text \<open>The part of \<open>transmit\<close> before the lock is released, and the whole of it with a round in between.\<close>

definition transmit_begin :: "sr_instance \<Rightarrow> u32 \<Rightarrow> byte list \<Rightarrow> u32 \<Rightarrow> byte list \<Rightarrow> (nat \<times> sr_instance) res" where
  "transmit_begin sr ip buf len iface =
     bnd (sr_arpcache_queuereq (cache sr) ip (Some buf) len (Some iface)) (\<lambda>(arpreq, c). Inr (arpreq, sr\<lparr>cache := c\<rparr>))"

definition transmit_raced ::
  "nat \<Rightarrow> nat \<Rightarrow> env \<Rightarrow> env \<Rightarrow> sr_instance \<Rightarrow> u32 \<Rightarrow> byte list \<Rightarrow> u32 \<Rightarrow> byte list \<Rightarrow> sr_instance res" where
  "transmit_raced k fuel round env sr ip buf len iface =
     bnd (transmit_begin sr ip buf len iface) (\<lambda>(arpreq, sr1).
     bnd (sr_arpcache_timeout k fuel round sr1) (\<lambda>sr2.
     sr_arpcache_handle_arpreq fuel env sr2 arpreq))"

lemma transmit_split:
  "sr_arpcache_lookup (cache sr) ip = None \<Longrightarrow>
   transmit fuel env sr ip buf len iface =
   bnd (transmit_begin sr ip buf len iface) (\<lambda>(arpreq, sr1). sr_arpcache_handle_arpreq fuel env sr1 arpreq)"
  by (simp add: transmit_def transmit_begin_def bnd_assoc case_prod_unfold)

text \<open>
  The reply of \<open>arp_learn_reply\<close> in two parts, with rounds in between. The main thread holds the pointer that
  \<^verbatim>\<open>sr_arpcache_insert\<close> returned. What it finds there after the rounds depends on the queue before and after them: a request that
  is in the queue has the contents the rounds left; one that was in the queue before, or was made by them, and is not there any more has
  been freed, because \<^verbatim>\<open>sr_arpreq_destroy\<close> is how a round takes requests out; one that never was in the queue is reached by no
  store of the rounds and is as it was.
\<close>

definition held_req :: "sr_arpcache \<Rightarrow> sr_arpcache \<Rightarrow> sr_arpreq \<Rightarrow> sr_arpreq res" where
  "held_req before after arpreq =
     (case find (\<lambda>r. rq_id r = rq_id arpreq) (requests after) of
        Some r \<Rightarrow> Inr r
      | None \<Rightarrow>
        if rq_id arpreq \<in> rq_id ` set (requests before) \<or> next_addr before \<le> rq_id arpreq then Inl Use_after_free
        else Inr arpreq)"

definition reply_end :: "env \<Rightarrow> sr_arpcache \<Rightarrow> sr_instance \<Rightarrow> mac \<Rightarrow> sr_arpreq \<Rightarrow> sr_instance res" where
  "reply_end env before sr sha arpreq =
     bnd (held_req before (cache sr) arpreq) (\<lambda>req.
     bnd (flush_packets env sha sr (rq_packets req)) (\<lambda>sr2.
     Inr (sr2\<lparr>cache := sr_arpreq_destroy (cache sr2) (Some (rq_id req))\<rparr>)))"

definition reply_raced :: "nat \<Rightarrow> nat \<Rightarrow> env list \<Rightarrow> env \<Rightarrow> sr_instance \<Rightarrow> byte list \<Rightarrow> sr_instance res" where
  "reply_raced k fuel envs env sr packet =
     (let a_hdr0 = arp_at 14 packet;
          (arpreq, c) = sr_arpcache_insert (now env) (cache sr) (ar_sha a_hdr0) (ar_sip a_hdr0) in
      bnd (rounds k fuel (sr\<lparr>cache := c\<rparr>) envs) (\<lambda>sr1.
      (case arpreq of None \<Rightarrow> Inr sr1 | Some req \<Rightarrow> reply_end env c sr1 (ar_sha a_hdr0) req)))"

section \<open>The pointer to a request\<close>

lemma round_req_same: "round_req env r = Some r' \<Longrightarrow> rq_id r' = rq_id r \<and> rq_ip r' = rq_ip r \<and> rq_packets r' = rq_packets r"
  by (auto simp: round_req_def split: if_splits)

lemma round_req_gone: "round_req env r = None \<longleftrightarrow> exhausted env r"
  by (auto simp: round_req_def exhausted_def due_def)

lemma map_filter_append: "List.map_filter f (xs @ ys) = List.map_filter f xs @ List.map_filter f ys"
  by (simp add: map_filter_def)

lemma handle_ready:
  assumes "cache_inv (cache sr)" and "r \<in> set (requests (cache sr))" and "ready sr r"
  shows "\<exists>sr'. sr_arpcache_handle_arpreq (Suc fuel) env sr (rq_id r) = Inr sr'"
proof -
  obtain xs ys where "requests (cache sr) = xs @ r # ys" using assms(2) by (meson split_list)
  then show ?thesis using handle_round [OF _ cache_invD(3) [OF assms(1)] ready_able [OF assms(3), of env], of xs ys fuel] by blast
qed

lemma handle_freed: "p \<notin> rq_id ` set (requests (cache sr)) \<Longrightarrow> sr_arpcache_handle_arpreq (Suc fuel) env sr p = Inl Use_after_free"
  by (auto simp: req_at_def find_None_iff image_iff split: option.splits dest!: find_Some_iff [THEN iffD1])

text \<open>Handling a request after a round: a fault exactly when the round gave the request up.\<close>

lemma handle_after_round:
  assumes inv: "cache_inv (cache sr)" and ready: "list_all (ready (expired (now round) sr)) (requests (cache sr))"
    and k: "length (requests (cache sr)) \<le> k" and r: "r \<in> set (requests (cache sr))"
  shows "if exhausted round r
    then bnd (sr_arpcache_timeout k (Suc fuel) round sr) (\<lambda>sr2. sr_arpcache_handle_arpreq (Suc fuel) env sr2 (rq_id r)) = Inl Use_after_free
    else \<exists>sr'. bnd (sr_arpcache_timeout k (Suc fuel) round sr) (\<lambda>sr2. sr_arpcache_handle_arpreq (Suc fuel) env sr2 (rq_id r)) = Inr sr'"
proof -
  let ?e = "expired (now round) sr" and ?rs' = "List.map_filter (round_req round) (requests (cache sr))"
  obtain log out where h: "sr_arpcache_timeout k (Suc fuel) round sr = Inr (on_queue ?rs' log out ?e)"
    using round_exact [OF inv ready k] by blast
  let ?sr2 = "on_queue ?rs' log out ?e"
  have q: "requests (cache ?sr2) = ?rs'" by simp
  have inv2: "cache_inv (cache ?sr2)"
    using cache_inv_round [OF cache_inv_expire [OF inv], of round "now round"] by simp
  have member: "r' \<in> set ?rs' \<longleftrightarrow> (\<exists>s \<in> set (requests (cache sr)). round_req round s = Some r')" for r'
    by (force simp: map_filter_def)
  show ?thesis
  proof (cases "exhausted round r")
    case True
    have "s = r" if "s \<in> set (requests (cache sr))" "rq_id s = rq_id r" for s
      using distinct_ids [OF inv r] that by blast
    then have "rq_id r \<notin> rq_id ` set ?rs'"
      using True round_req_gone [of round r] by (force simp: member dest: round_req_same)
    then show ?thesis using True h handle_freed [of "rq_id r" ?sr2 fuel env] q by simp
  next
    case False
    then obtain r' where r': "round_req round r = Some r'" using round_req_gone [of round r] by auto
    have "ready ?e r" using ready r by (auto simp: list_all_iff)
    then have "ready ?sr2 r'" using round_req_same [OF r'] unfolding queue_irrelevant(2) by (simp add: ready_def)
    moreover have "r' \<in> set (requests (cache ?sr2))" using r r' member q by auto
    ultimately show ?thesis
      using False h handle_ready [OF inv2, of r' fuel env] round_req_same [OF r'] by auto
  qed
qed

section \<open>A packet that has to wait\<close>

text \<open>A request of the queue, or the one for an address with a new packet in front.\<close>

definition queued_in :: "sr_arpreq list \<Rightarrow> u32 \<Rightarrow> sr_packet \<Rightarrow> sr_arpreq \<Rightarrow> bool" where
  "queued_in rs ip n s \<longleftrightarrow> s \<in> set rs
     \<or> rq_ip s = ip \<and> (\<exists>ps. rq_packets s = n # ps \<and> (ps = [] \<or> (\<exists>q \<in> set rs. rq_packets q = ps)))"

lemma upd_req_member:
  assumes "cache_inv c" and "q \<in> set (requests c)" and "s \<in> set (upd_req (rq_id q) f (requests c))"
  shows "s = f q \<or> s \<in> set (requests c) \<and> rq_id s \<noteq> rq_id q"
proof -
  obtain t where t: "t \<in> set (requests c)" "s = (if rq_id t = rq_id q then f t else t)"
    using assms(3) unfolding set_upd_req by blast
  then show ?thesis using distinct_ids [OF assms(1,2) t(1)] by (cases "rq_id t = rq_id q") simp_all
qed

lemma given_up_find:
  assumes "cache_inv c" and "find_req ip (requests c) = Some q"
  shows "given_up env c ip \<longleftrightarrow> exhausted env q"
proof -
  have q: "q \<in> set (requests c)" "rq_ip q = ip" using find_req_Some [OF assms(2)] by auto
  have "r = q" if "r \<in> set (requests c)" "rq_ip r = ip" for r
    by (rule distinct_ips [OF assms(1) q(1) that(1)]) (simp add: q(2) that(2))
  then show ?thesis unfolding given_up_def using q by metis
qed

lemma transmit_begin_spec:
  assumes inv: "cache_inv (cache sr)" and f: "frame_ok buf len"
  obtains p c r where "transmit_begin sr ip buf len iface = Inr (p, sr\<lparr>cache := c\<rparr>)" and "cache_inv c" and "entries c = entries (cache sr)"
    and "r \<in> set (requests c)" "rq_id r = p" and "exhausted env r \<longleftrightarrow> given_up env (cache sr) ip"
    and "length (requests c) \<le> Suc (length (requests (cache sr)))"
    and "\<And>s. s \<in> set (requests c) \<Longrightarrow> queued_in (requests (cache sr)) ip (new_pkt buf len iface) s"
proof -
  have len: "len \<noteq> 0" "unat len \<le> length buf" using f by (auto simp: frame_ok_def)
  let ?f = "\<lambda>r. r\<lparr>rq_packets := new_pkt buf len iface # rq_packets r\<rparr>"
  obtain p c r where q: "sr_arpcache_queuereq (cache sr) ip (Some buf) len (Some iface) = Inr (p, c)"
    and c: "cache_inv c" "entries c = entries (cache sr)"
    using queuereq_spec [OF inv len, of ip iface] by blast
  have b: "transmit_begin sr ip buf len iface = Inr (p, sr\<lparr>cache := c\<rparr>)" by (simp add: transmit_begin_def q)
  show thesis
  proof (cases "find_req ip (requests (cache sr))")
    case None
    let ?r = "(new_req (next_addr (cache sr)) ip)\<lparr>rq_packets := [new_pkt buf len iface]\<rparr>"
    have "requests c = requests (cache sr) @ [?r]" "p = next_addr (cache sr)"
      using q queue_new [OF inv None len, of iface] by auto
    moreover have "\<not> exhausted env ?r" by (simp add: exhausted_def new_req_def)
    moreover have "\<not> given_up env (cache sr) ip" using None by (auto simp: given_up_def find_req_None)
    ultimately show ?thesis
      by (intro that [OF b c, of ?r]) (auto simp: new_req_def queued_in_def)
  next
    case (Some q0)
    then have q0: "q0 \<in> set (requests (cache sr))" "rq_ip q0 = ip" by (auto dest: find_req_Some)
    have rs: "requests c = upd_req (rq_id q0) ?f (requests (cache sr))" "p = rq_id q0"
      using q len Some by (auto simp: sr_arpcache_queuereq_def queuereq_find_def)
    have "?f q0 \<in> set (requests c)" using q0(1) unfolding rs set_upd_req by force
    moreover have "exhausted env (?f q0) \<longleftrightarrow> given_up env (cache sr) ip"
      using given_up_find [OF inv Some] by (simp add: exhausted_def)
    moreover have "queued_in (requests (cache sr)) ip (new_pkt buf len iface) s" if "s \<in> set (requests c)" for s
      using upd_req_member [OF inv q0(1) that [unfolded rs(1)]] q0 by (auto simp: queued_in_def)
    ultimately show ?thesis
      by (intro that [OF b c, of "?f q0"]) (simp_all add: rs upd_req_def)
  qed
qed

text \<open>The round finds every request ready if it was, and if the new packet can be answered.\<close>

lemma transmit_begin_ready:
  assumes "list_all (ready e) rs" and "routed e ip" and "answerable e n"
    and "queued_in rs ip n s"
  shows "ready e s"
  using assms by (fastforce simp: ready_def list_all_iff queued_in_def)

lemma transmit_race:
  assumes inv: "cache_inv (cache sr)" and look: "sr_arpcache_lookup (cache sr) ip = None" and f: "frame_ok buf len"
    and ready: "list_all (ready (expired (now round) sr)) (requests (cache sr))" and "routed sr ip"
    and "answerable (expired (now round) sr) (new_pkt buf len iface)" and k: "length (requests (cache sr)) < k"
  shows "(if given_up round (cache sr) ip then transmit_raced k (Suc fuel) round env sr ip buf len iface = Inl Use_after_free
      else \<exists>sr'. transmit_raced k (Suc fuel) round env sr ip buf len iface = Inr sr')
    \<and> (\<exists>sr'. transmit (Suc fuel) env sr ip buf len iface = Inr sr')"
proof -
  obtain p c r where b: "transmit_begin sr ip buf len iface = Inr (p, sr\<lparr>cache := c\<rparr>)" and c: "cache_inv c" "entries c = entries (cache sr)"
    and r: "r \<in> set (requests c)" "rq_id r = p" and ex: "exhausted round r \<longleftrightarrow> given_up round (cache sr) ip"
    and l: "length (requests c) \<le> Suc (length (requests (cache sr)))"
    and old: "\<And>s. s \<in> set (requests c) \<Longrightarrow>
      queued_in (requests (cache sr)) ip (new_pkt buf len iface) s"
    using transmit_begin_spec [OF inv f, of ip iface round] by blast
  let ?sr = "sr\<lparr>cache := c\<rparr>" and ?e = "expired (now round) sr"
  have "routed ?e ip" using assms(5) by (simp add: routed_def cong: option.case_cong)
  then have e: "ready ?e s" if "s \<in> set (requests c)" for s
    using transmit_begin_ready [OF ready _ assms(6) old [OF that]] by blast
  have "answerable (expired (now round) ?sr) = answerable ?e"
    using c(2) by (simp add: fun_eq_iff answerable_def expired_def sr_arpcache_expire_def sr_arpcache_lookup_def cong: option.case_cong)
  then have same: "ready (expired (now round) ?sr) s = ready ?e s" for s
    by (simp add: ready_def routed_def cong: option.case_cong)
  have "list_all (ready (expired (now round) ?sr)) (requests (cache ?sr))" using e by (simp add: same list_all_iff)
  note race = handle_after_round [OF _ this, of k r fuel env]
  have raced: "transmit_raced k (Suc fuel) round env sr ip buf len iface =
      bnd (sr_arpcache_timeout k (Suc fuel) round ?sr) (\<lambda>sr2. sr_arpcache_handle_arpreq (Suc fuel) env sr2 (rq_id r))"
    by (simp only: transmit_raced_def b r(2) bnd_Inr case_prod_conv)
  have "sr_arpcache_lookup c a \<noteq> None" if "sr_arpcache_lookup (cache ?e) a \<noteq> None" for a
    using that c(2) entry_scan_expire_None [of a "entries (cache sr)" "now round"]
    by (auto simp: sr_arpcache_expire_def sr_arpcache_lookup_def simp del: not_None_eq)
  then have "answerable ?sr pk" if "answerable ?e pk" for pk
    using that by (simp add: answerable_def del: not_None_eq split: option.splits)
  moreover have "routed ?sr = routed ?e" by (simp add: routed_def fun_eq_iff cong: option.case_cong)
  ultimately have "ready ?sr r" using e [OF r(1)] by (simp add: ready_def list_all_iff)
  then have "\<exists>sr'. transmit (Suc fuel) env sr ip buf len iface = Inr sr'"
    using handle_ready [of ?sr r fuel env] c(1) r by (simp add: transmit_split [OF look] b del: sr_arpcache_handle_arpreq.simps)
  then show ?thesis using race c(1) r(1) l k ex unfolding raced by simp
qed

section \<open>A reply\<close>

text \<open>A run of the ARP code makes requests only at fresh addresses.\<close>

definition fresh_ids :: "sr_instance \<Rightarrow> sr_instance \<Rightarrow> bool" where
  "fresh_ids sr sr' \<longleftrightarrow> next_addr (cache sr) \<le> next_addr (cache sr')
     \<and> (\<forall>r' \<in> set (requests (cache sr')). rq_id r' \<in> rq_id ` set (requests (cache sr)) \<or> next_addr (cache sr) \<le> rq_id r')"

lemma fresh_ids_trans: "fresh_ids a b \<Longrightarrow> fresh_ids b c \<Longrightarrow> fresh_ids a c"
  unfolding fresh_ids_def by fastforce

lemma ids_upd_req: "(\<And>r. rq_id (f r) = rq_id r) \<Longrightarrow> rq_id ` set (upd_req p f rs) = rq_id ` set rs"
  unfolding upd_req_def set_map image_image by (rule image_cong) simp_all

lemma fresh_idsI:
  "next_addr (cache sr) \<le> next_addr (cache sr') \<Longrightarrow> rq_id ` set (requests (cache sr')) \<subseteq> rq_id ` set (requests (cache sr)) \<Longrightarrow> fresh_ids sr sr'"
  by (auto simp: fresh_ids_def)

lemma fresh_ids_queuereq:
  assumes "sr_arpcache_queuereq (cache sr) ip packet l iface = Inr (p, c)"
  shows "fresh_ids sr (sr\<lparr>cache := c\<rparr>)"
proof -
  obtain p1 c1 where f: "queuereq_find (cache sr) ip = (p1, c1)" by fastforce
  have "fresh_ids sr (sr\<lparr>cache := c1\<rparr>)"
    using f by (auto simp: fresh_ids_def queuereq_find_def new_req_def split: option.splits)
  moreover have "next_addr c = next_addr c1" "rq_id ` set (requests c) = rq_id ` set (requests c1)"
    using queuereq_cases(2) [OF assms f] ids_upd_req [of "\<lambda>r. r\<lparr>rq_packets := n # rq_packets r\<rparr>" p "requests c1" for n] by fastforce+
  then have "fresh_ids (sr\<lparr>cache := c1\<rparr>) (sr\<lparr>cache := c\<rparr>)" by (intro fresh_idsI) simp_all
  ultimately show ?thesis by (rule fresh_ids_trans)
qed

interpretation ids: arp_relation fresh_ids
proof
  show "fresh_ids sr sr'" if "sr_send_packet env sr buf len iface = Inr (x, sr')" for env sr buf len iface x sr'
    using same_router_fields(3) [OF send_packet_same [OF that]] by (intro fresh_idsI) simp_all
  show "fresh_ids sr (sr\<lparr>cache := mark_sent t (rq_id r) (cache sr)\<rparr>)" for sr t r
    by (intro fresh_idsI) (simp_all add: mark_sent_def ids_upd_req)
  show "fresh_ids sr (sr\<lparr>cache := sr_arpreq_destroy (cache sr) (Some p)\<rparr>)" for sr p
    using set_remove_req [of p "requests (cache sr)"] by (intro fresh_idsI) (auto simp: sr_arpreq_destroy_def)
qed (rule fresh_idsI, simp_all, erule (1) fresh_ids_trans, erule fresh_ids_queuereq)

lemma remove_req_id: "p \<notin> rq_id ` set rs \<Longrightarrow> remove_req p rs = rs"
  by (induction rs) auto

lemma fresh_ids_rounds: "rounds k fuel sr envs = Inr sr' \<Longrightarrow> fresh_ids sr sr' \<and> if_list sr' = if_list sr"
proof (induction envs arbitrary: sr)
  case Nil
  then show ?case by (simp add: rounds_def fresh_ids_def)
next
  case (Cons env envs)
  then obtain sr1 where sr1: "sr_arpcache_timeout k fuel env sr = Inr sr1" "rounds k fuel sr1 envs = Inr sr'"
    by (auto simp: rounds_def)
  have "fresh_ids sr (sr\<lparr>cache := sr_arpcache_expire (now env) (cache sr)\<rparr>)"
    by (intro fresh_idsI) (simp_all add: sr_arpcache_expire_def)
  then have "fresh_ids sr sr1" using ids.R_timeout [OF sr1(1)] by (rule fresh_ids_trans)
  moreover have "if_list sr1 = if_list sr" using deliver.arp.R_timeout [OF sr1(1)] by (simp add: keeps_all_def)
  ultimately show ?case using Cons.IH [OF sr1(2)] by (auto intro: fresh_ids_trans)
qed

text \<open>
  The request that \<^verbatim>\<open>sr_arpcache_insert\<close> handed out is not in the queue, before the rounds and after them, so the pointer to it
  stays good and what it points to does not change.
\<close>

lemma unlinked_kept:
  assumes inv: "cache_inv (cache sr)" and q: "find_req ip (requests (cache sr)) = Some q"
    and c: "c = snd (sr_arpcache_insert t (cache sr) m ip)" and rounds: "rounds k fuel (sr\<lparr>cache := c\<rparr>) envs = Inr sr1"
  shows "held_req c (cache sr1) q = Inr q" and "rq_id q \<notin> rq_id ` set (requests (cache sr1))"
proof -
  have mem: "q \<in> set (requests (cache sr))" "rq_ip q = ip" using find_req_Some [OF q] by auto
  have rs: "requests c = filter (\<lambda>r. rq_ip r \<noteq> ip) (requests (cache sr))" unfolding c using insert_spec(3) [OF inv] .
  have "rq_id r \<noteq> rq_id q" if "r \<in> set (requests c)" for r
    using that distinct_ids [OF inv mem(1), of r] mem(2) unfolding rs by auto
  then have before: "rq_id q \<notin> rq_id ` set (requests c)" by force
  have "next_addr c = next_addr (cache sr)"
    unfolding c by (simp add: sr_arpcache_insert_def case_prod_unfold Let_def)
  then have old: "rq_id q < next_addr c" using cache_invD(4) [OF inv mem(1)] by simp
  show after: "rq_id q \<notin> rq_id ` set (requests (cache sr1))"
    using fresh_ids_rounds [OF rounds] before old by (fastforce simp: fresh_ids_def)
  then have "find (\<lambda>r. rq_id r = rq_id q) (requests (cache sr1)) = None" by (metis (mono_tags, lifting) find_None_iff image_eqI)
  then show "held_req c (cache sr1) q = Inr q" using before old by (simp add: held_req_def)
qed

lemma reply_race:
  assumes inv: "cache_inv (cache sr)" and deliver: "queue_deliverable sr"
    and q: "find_req (ar_sip (arp_at 14 packet)) (requests (cache sr)) = Some q"
    and rounds: "rounds k fuel (sr\<lparr>cache :=
      snd (sr_arpcache_insert (now env) (cache sr) (ar_sha (arp_at 14 packet)) (ar_sip (arp_at 14 packet)))\<rparr>) envs = Inr sr1"
  shows "\<exists>log. reply_raced k fuel envs env sr packet =
    Inr (sr1\<lparr>logfile := log, sock_out := sock_out sr1 @ map (delivered (ar_sha (arp_at 14 packet))) (rq_packets q)\<rparr>)"
proof -
  let ?a = "arp_at 14 packet"
  obtain c where ins: "sr_arpcache_insert (now env) (cache sr) (ar_sha ?a) (ar_sip ?a) = (Some q, c)"
    using insert_spec(2) [OF inv, of "now env" "ar_sha ?a" "ar_sip ?a"] q by (metis prod.collapse)
  then have r: "rounds k fuel (sr\<lparr>cache := c\<rparr>) envs = Inr sr1" using rounds by simp
  have c: "c = snd (sr_arpcache_insert (now env) (cache sr) (ar_sha ?a) (ar_sip ?a))" using ins by simp
  note kept = unlinked_kept [OF inv q c r]
  have "if_list sr1 = if_list sr" using fresh_ids_rounds [OF r] by simp
  moreover have "q \<in> set (requests (cache sr))" using find_req_Some [OF q] by simp
  ultimately have "list_all (deliverable sr1) (rq_packets q)"
    using deliver deliverable_cong [of sr1 sr] by (simp add: queue_deliverable_def)
  then obtain log where f: "flush_packets env (ar_sha ?a) sr1 (rq_packets q) =
      Inr (sr1\<lparr>logfile := log, sock_out := sock_out sr1 @ map (delivered (ar_sha ?a)) (rq_packets q)\<rparr>)"
    using flush_deliverable by blast
  have "sr_arpreq_destroy (cache sr1) (Some (rq_id q)) = cache sr1"
    using remove_req_id [OF kept(2)] by (simp add: sr_arpreq_destroy_def)
  then have "reply_end env c sr1 (ar_sha ?a) q =
      Inr (sr1\<lparr>logfile := log, sock_out := sock_out sr1 @ map (delivered (ar_sha ?a)) (rq_packets q)\<rparr>)"
    by (simp add: reply_end_def kept(1) f)
  then show ?thesis using r ins by (intro exI [of _ log]) (simp add: reply_raced_def Let_def)
qed

text \<open>Without rounds this is the reply of the packet handler.\<close>

lemma reply_split:
  assumes inv: "cache_inv (cache sr)"
  shows "reply_raced k fuel [] env sr packet = arp_learn_reply env sr packet"
proof -
  let ?a = "arp_at 14 packet"
  obtain arpreq c where i: "sr_arpcache_insert (now env) (cache sr) (ar_sha ?a) (ar_sip ?a) = (arpreq, c)" by fastforce
  have "held_req c c q = Inr q" if "arpreq = Some q" for q
    using unlinked_kept(1) [OF inv, of "ar_sip ?a" q c "now env" "ar_sha ?a" k fuel "[]" "sr\<lparr>cache := c\<rparr>"]
      insert_spec(2) [OF inv, of "now env" "ar_sha ?a" "ar_sip ?a"] i that by (simp add: rounds_def)
  then show ?thesis
    using i by (simp add: reply_raced_def arp_learn_reply_def reply_end_def rounds_def Let_def split: option.splits)
qed

end
