(* ===== verification/Abstract_router.thy ===== *)
theory Abstract_router
  imports Resolution
begin

text \<open>
  What a router does with a packet, without buffers, tables and queues: a decision that depends on the packet, the
  interfaces and the routes, and its effect on an abstract network state: which hardware addresses are
  known, which messages wait for one, what was sent. A message that waits is a function of the address it waits for.
  The packet handler refines this: one abstract step for each packet.
\<close>

section \<open>The specification\<close>

datatype decision =
    Ignore
  | Answer "byte list"
  | Send_to u32 "mac \<Rightarrow> byte list"
  | Learn_hw u32 mac

record net_state =
  known_hw :: "u32 \<rightharpoonup> mac"
  waiting_msgs :: "u32 \<rightharpoonup> (mac \<Rightarrow> byte list) list"
  sent_msgs :: "byte list list"

text \<open>The effect of a decision; \<open>ask ip\<close> is the message that asks for the hardware address of \<open>ip\<close>.\<close>

fun perform :: "(u32 \<Rightarrow> byte list) \<Rightarrow> decision \<Rightarrow> net_state \<Rightarrow> net_state" where
  "perform ask Ignore s = s"
| "perform ask (Answer m) s = s\<lparr>sent_msgs := sent_msgs s @ [m]\<rparr>"
| "perform ask (Send_to ip msg) s =
     (case known_hw s ip of
        Some mac \<Rightarrow> s\<lparr>sent_msgs := sent_msgs s @ [msg mac]\<rparr>
      | None \<Rightarrow>
          (case waiting_msgs s ip of
             None \<Rightarrow> s\<lparr>waiting_msgs := (waiting_msgs s)(ip \<mapsto> [msg]), sent_msgs := sent_msgs s @ [ask ip]\<rparr>
           | Some ms \<Rightarrow> s\<lparr>waiting_msgs := (waiting_msgs s)(ip \<mapsto> msg # ms)\<rparr>))"
| "perform ask (Learn_hw ip mac) s =
     s\<lparr>known_hw := (known_hw s)(ip \<mapsto> mac), waiting_msgs := (waiting_msgs s)(ip := None),
       sent_msgs := sent_msgs s @ (case waiting_msgs s ip of None \<Rightarrow> [] | Some ms \<Rightarrow> map (\<lambda>msg. msg mac) ms)\<rparr>"

text \<open>A message to be sent along the route to an address, and the request for its hardware address.\<close>

definition along :: "sr_instance \<Rightarrow> u32 \<Rightarrow> (mac \<Rightarrow> mac \<Rightarrow> byte list) \<Rightarrow> decision" where
  "along sr ip frame =
     (case sr_findLPMentry (routing_table sr) ip of
        None \<Rightarrow> Ignore
      | Some e \<Rightarrow>
          (case sr_get_interface sr (list_of (rt_interface e)) of
             None \<Rightarrow> Ignore
           | Some i \<Rightarrow> Send_to ip (\<lambda>mac. vns_frame (list_of (rt_interface e)) (frame mac (if_addr i)))))"

definition ask :: "sr_instance \<Rightarrow> u32 \<Rightarrow> byte list" where
  "ask sr ip =
     (case sr_findLPMentry (routing_table sr) ip of
        None \<Rightarrow> []
      | Some e \<Rightarrow>
          (case sr_get_interface sr (list_of (rt_interface e)) of
             None \<Rightarrow> []
           | Some i \<Rightarrow> vns_frame (list_of (if_name i)) (arp_request_frame (if_addr i) (if_ip i) ip)))"

text \<open>Error messages go back by the interface \<open>i\<close>, named \<open>interface\<close>, on which the packet came.\<close>

definition unreachable_to_sender :: "sr_if \<Rightarrow> byte list \<Rightarrow> byte list \<Rightarrow> byte \<Rightarrow> decision" where
  "unreachable_to_sender i interface packet code = Send_to (ip_src (ip_at 14 packet)) (\<lambda>mac. vns_frame interface
     (icmp_t3_frame mac (if_addr i) (ip_id (ip_at 14 packet)) (if_ip i) (ip_src (ip_at 14 packet)) code (arr_at 14 packet)))"

definition expired_to_sender :: "sr_if \<Rightarrow> byte list \<Rightarrow> byte list \<Rightarrow> decision" where
  "expired_to_sender i interface packet = Send_to (ip_src (ip_at 14 packet)) (\<lambda>mac. vns_frame interface
     (icmp_t11_frame mac (if_addr i) (ip_id (ip_at 14 packet)) (if_ip i) (ip_src (ip_at 14 packet)) (arr_at 14 packet)))"

definition decide_arp :: "sr_if \<Rightarrow> byte list \<Rightarrow> byte list \<Rightarrow> decision" where
  "decide_arp i interface packet =
     (let a = arp_at 14 packet in
      if ar_tip a \<noteq> if_ip i then Ignore
      else if ar_op a = htons arp_op_request then Answer (vns_frame interface (arp_reply_frame i packet))
      else if ar_op a = htons arp_op_reply then Learn_hw (ar_sip a) (ar_sha a)
      else Ignore)"

definition decide_ip :: "sr_instance \<Rightarrow> sr_if \<Rightarrow> byte list \<Rightarrow> byte list \<Rightarrow> decision" where
  "decide_ip sr i interface packet =
     (let h = ip_at 14 packet in
      if own_addr sr (ip_dst h) then
        if ip_p h = ip_protocol_icmp then
          if icmp_type (icmp_at 34 packet) = 8 \<and> icmp_valid packet
          then along sr (ip_src h) (\<lambda>d s. echo_frame d s packet) else Ignore
        else if ip_p h = ip_protocol_tcp \<or> ip_p h = ip_protocol_udp then unreachable_to_sender i interface packet 3
        else Ignore
      else if sr_findLPMentry (routing_table sr) (ip_dst h) = None then unreachable_to_sender i interface packet 0
      else if ip_ttl h = 1 then expired_to_sender i interface packet
      else along sr (ip_dst h) (\<lambda>d s. forward_frame d s packet))"

definition decide :: "sr_instance \<Rightarrow> sr_if \<Rightarrow> byte list \<Rightarrow> byte list \<Rightarrow> decision" where
  "decide sr i interface packet =
     (if dropped packet then Ignore
      else if ether_type (eth_at 0 packet) = htons ethertype_arp then decide_arp i interface packet
      else decide_ip sr i interface packet)"

section \<open>Abstraction\<close>

definition net_of :: "sr_instance \<Rightarrow> net_state" where
  "net_of sr = \<lparr> known_hw = (\<lambda>ip. map_option fst (arp_view (cache sr) ip)),
     waiting_msgs = (\<lambda>ip. map_option (map (\<lambda>pk mac. delivered mac pk)) (pend (cache sr) ip)),
     sent_msgs = sock_out sr \<rparr>"

text \<open>
  The states in which a step is that simple: a next hop that is not known has a route and was asked for at most a second
  ago, if at all (otherwise the request is repeated or given up), and a mapping that is learnt is new and finds a free slot.
\<close>

fun smooth :: "env \<Rightarrow> sr_instance \<Rightarrow> decision \<Rightarrow> bool" where
  "smooth env sr (Send_to ip msg) \<longleftrightarrow> sr_arpcache_lookup (cache sr) ip = None \<longrightarrow>
     sr_findLPMentry (routing_table sr) ip \<noteq> None
     \<and> (case find_req ip (requests (cache sr)) of None \<Rightarrow> True | Some r \<Rightarrow> now env - rq_sent r \<le> 1)"
| "smooth env sr (Learn_hw ip mac) \<longleftrightarrow> has_free_slot (cache sr) \<and> arp_view (cache sr) ip = None"
| "smooth env sr d \<longleftrightarrow> True"

definition refines :: "sr_instance res \<Rightarrow> sr_instance \<Rightarrow> decision \<Rightarrow> bool" where
  "refines r sr d \<longleftrightarrow> (\<exists>sr'. r = Inr sr' \<and> net_of sr' = perform (ask sr) d (net_of sr))"

lemma refinesI: "r = Inr sr' \<Longrightarrow> net_of sr' = perform (ask sr) d (net_of sr) \<Longrightarrow> refines r sr d"
  by (simp add: refines_def)

lemma refines_ignore [simp]: "refines (Inr sr) sr Ignore"
  by (simp add: refines_def)

lemma net_of_simps [simp]:
  "known_hw (net_of sr) ip = map_option ae_mac (sr_arpcache_lookup (cache sr) ip)"
  "waiting_msgs (net_of sr) ip = map_option (map (\<lambda>pk mac. delivered mac pk)) (pend (cache sr) ip)"
  "sent_msgs (net_of sr) = sock_out sr"
  by (simp_all add: net_of_def arp_view_def option.map_comp comp_def)

lemma lookup_entries: "entries c = entries c' \<Longrightarrow> sr_arpcache_lookup c = sr_arpcache_lookup c'"
  by (simp add: sr_arpcache_lookup_def fun_eq_iff)

text \<open>Two states of the network are equal when they agree in what is known, what waits and what was sent.\<close>

lemma net_of_eqI:
  assumes "\<And>ip. known_hw (net_of sr') ip = known_hw s ip" and "\<And>ip. waiting_msgs (net_of sr') ip = waiting_msgs s ip"
    and "sock_out sr' = sent_msgs s"
  shows "net_of sr' = s"
  using assms by (cases s) (auto simp: net_of_def)

section \<open>Sending to a next hop\<close>

lemma routes_okD: "routes_ok sr \<Longrightarrow> sr_findLPMentry (routing_table sr) ip = Some e \<Longrightarrow>
  \<exists>i. sr_get_interface sr (list_of (rt_interface e)) = Some i"
  using lpm.best_Some [of "routing_table sr" ip e] by (auto simp: routes_ok_def)

lemma transmit_refines:
  assumes inv: "cache_inv (cache sr)" and routes: "routes_ok sr" and f: "frame_ok buf len" and "1 < now env"
    and j: "sr_get_interface sr iface = Some j" "ether_shost (eth_at 0 buf) = if_addr j"
    and smooth: "smooth env sr (Send_to ip msg)"
    and msg: "\<And>mac. msg mac = vns_frame iface (mod_eth 0 (\<lambda>h. h\<lparr>ether_dhost := mac\<rparr>) buf)"
  shows "refines (transmit (Suc fuel) env sr ip buf len iface) sr (Send_to ip msg)"
proof (cases "sr_arpcache_lookup (cache sr) ip")
  case (Some a)
  obtain log where h: "transmit (Suc fuel) env sr ip buf len iface = Inr (sr\<lparr>logfile := log,
      sock_out := sock_out sr @ [msg (ae_mac a)]\<rparr>)"
    using transmit_hit [OF Some f j, of "Suc fuel" env] msg by auto
  show ?thesis by (intro refinesI [OF h] net_of_eqI) (simp_all add: Some)
next
  case None
  obtain e where e: "sr_findLPMentry (routing_table sr) ip = Some e" using smooth None by auto
  then obtain i where i: "sr_get_interface sr (list_of (rt_interface e)) = Some i" using routes_okD [OF routes] by blast
  have d: "delivered mac (new_pkt buf len iface) = msg mac" for mac using delivered_new [OF f] msg by simp
  show ?thesis
  proof (cases "find_req ip (requests (cache sr))")
    case new: None
    then have p: "pend (cache sr) ip = None" by (simp add: pend_def req_packets_def)
    obtain log c where h: "transmit (Suc fuel) env sr ip buf len iface = Inr (sr\<lparr>cache := c, logfile := log,
        sock_out := sock_out sr @ [ask sr ip]\<rparr>)"
      and c: "entries c = entries (cache sr)" "pend c = (pend (cache sr))(ip \<mapsto> [new_pkt buf len iface])"
      using transmit_first [OF inv None f p assms(4) e i, of fuel iface] by (auto simp: ask_def e i)
    show ?thesis by (intro refinesI [OF h] net_of_eqI) (simp_all add: None p lookup_entries [OF c(1)] c(2) d)
  next
    case (Some r)
    then have p: "pend (cache sr) ip = Some (rq_packets r)" by (simp add: pend_def req_packets_def)
    obtain c where h: "transmit (Suc fuel) env sr ip buf len iface = Inr (sr\<lparr>cache := c\<rparr>)"
      and c: "entries c = entries (cache sr)" "pend c = (pend (cache sr))(ip \<mapsto> new_pkt buf len iface # rq_packets r)"
      using transmit_waiting [OF inv None f Some, of env fuel iface] smooth None Some by auto
    show ?thesis by (intro refinesI [OF h] net_of_eqI) (simp_all add: None p lookup_entries [OF c(1)] c(2) d)
  qed
qed

lemma along_refines:
  assumes "cache_inv (cache sr)" and "routes_ok sr" and "1 < now env" and smooth: "smooth env sr (along sr ip frame)"
    and frame: "\<And>s. frame_ok (frame d s) len" "\<And>s. ether_shost (eth_at 0 (frame d s)) = s"
      "\<And>s mac. mod_eth 0 (\<lambda>h. h\<lparr>ether_dhost := mac\<rparr>) (frame d s) = frame mac s"
    and r: "r = (case sr_findLPMentry (routing_table sr) ip of None \<Rightarrow> Inr sr | Some e \<Rightarrow>
      (case sr_get_interface sr (list_of (rt_interface e)) of None \<Rightarrow> Inl Null_deref
       | Some i \<Rightarrow> transmit (Suc fuel) env sr ip (frame d (if_addr i)) len (list_of (rt_interface e))))"
  shows "refines r sr (along sr ip frame)"
proof (cases "sr_findLPMentry (routing_table sr) ip")
  case None
  then show ?thesis using r by (simp add: along_def)
next
  case (Some e)
  then obtain i where i: "sr_get_interface sr (list_of (rt_interface e)) = Some i" using routes_okD [OF assms(2)] by blast
  have a: "along sr ip frame = Send_to ip (\<lambda>mac. vns_frame (list_of (rt_interface e)) (frame mac (if_addr i)))"
    using Some i by (simp add: along_def)
  have "r = transmit (Suc fuel) env sr ip (frame d (if_addr i)) len (list_of (rt_interface e))"
    using r Some i by simp
  then show ?thesis
    using transmit_refines [OF assms(1,2) frame(1) assms(3) i frame(2) smooth [unfolded a]] frame(3) unfolding a by simp
qed

section \<open>Internet packets\<close>

lemma to_sender_refines:
  assumes "cache_inv (cache sr)" and "routes_ok sr" and "1 < now env" and "sr_get_interface sr interface = Some i"
  shows "smooth env sr (unreachable_to_sender i interface packet code) \<Longrightarrow>
      refines (transmit (Suc fuel) env sr (ip_src (ip_at 14 packet)) (icmp_t3_frame d (if_addr i) (ip_id (ip_at 14 packet))
        (if_ip i) (ip_src (ip_at 14 packet)) code (arr_at 14 packet)) 70 interface) sr (unreachable_to_sender i interface packet code)"
    and "smooth env sr (expired_to_sender i interface packet) \<Longrightarrow>
      refines (transmit (Suc fuel) env sr (ip_src (ip_at 14 packet)) (icmp_t11_frame d (if_addr i) (ip_id (ip_at 14 packet))
        (if_ip i) (ip_src (ip_at 14 packet)) (arr_at 14 packet)) 70 interface) sr (expired_to_sender i interface packet)"
  unfolding unreachable_to_sender_def expired_to_sender_def
  using assms by (intro transmit_refines; simp add: frame_ok_def)+

lemma accepted_refines:
  assumes inv: "cache_inv (cache sr)" and routes: "routes_ok sr" and now: "1 < now env"
    and i: "sr_get_interface sr interface = Some i" and acc: "accepted packet len" and long: "42 \<le> length packet"
    and smooth: "smooth env sr (decide_ip sr i interface packet)"
  shows "refines (sr_handlepacket (Suc fuel) env sr packet len interface) sr (decide_ip sr i interface packet)"
proof -
  have len: "34 \<le> length packet" "38 \<le> length packet" "length packet = unat len" "unat len < 2 ^ 31 - 24" "unat len < 2 ^ 31"
    using acc long by (simp_all add: accepted_def)
  have r: "8 \<le> unat (len - 14 - 20)" using len(3) long minus_34 [of len] by simp
  have ok: "frame_ok (echo_frame d s packet) len" "frame_ok (forward_frame d s packet) len" for d s
    using len by (simp_all add: frame_ok_def)
  note eq = handlepacket_accepted [OF acc, of "Suc fuel" env sr interface]
  note sender = to_sender_refines [OF inv routes now i]
  note along = along_refines [OF inv routes now]
  consider (echo) "own_addr sr (ip_dst (ip_at 14 packet))" "ip_p (ip_at 14 packet) = ip_protocol_icmp"
    | (port) "own_addr sr (ip_dst (ip_at 14 packet))" "ip_p (ip_at 14 packet) \<noteq> ip_protocol_icmp"
    | (net) "\<not> own_addr sr (ip_dst (ip_at 14 packet))" "sr_findLPMentry (routing_table sr) (ip_dst (ip_at 14 packet)) = None"
    | (fwd) e where "\<not> own_addr sr (ip_dst (ip_at 14 packet))" "sr_findLPMentry (routing_table sr) (ip_dst (ip_at 14 packet)) = Some e"
    by fastforce
  then show ?thesis
  proof cases
    case echo
    note h = eq [unfolded echo_reply_eq [OF len(2,3,5)]]
    show ?thesis
    proof (cases "icmp_type (icmp_at 34 packet) = 8 \<and> icmp_valid packet")
      case True
      then have d: "decide_ip sr i interface packet = along sr (ip_src (ip_at 14 packet)) (\<lambda>d s. echo_frame d s packet)"
        using echo by (simp add: decide_ip_def)
      show ?thesis
        unfolding d by (rule along [OF smooth [unfolded d] ok(1)]) (use h True echo long len(2) in \<open>simp_all split: option.splits\<close>)
    next
      case False
      then show ?thesis using h echo len(2) by (auto simp: decide_ip_def)
    qed
  next
    case port
    then show ?thesis
      using eq smooth sender(1) [of packet 3] i long r by (auto simp: decide_ip_def port_unreachable_eq)
  next
    case net
    then show ?thesis
      using eq smooth sender(1) [of packet 0] i long by (simp add: decide_ip_def net_unreachable_eq)
  next
    case fwd
    show ?thesis
    proof (cases "ip_ttl (ip_at 14 packet) = 1")
      case True
      then show ?thesis
        using fwd eq smooth sender(2) [of packet] i long by (simp add: decide_ip_def time_exceeded_eq)
    next
      case False
      then have d: "decide_ip sr i interface packet = along sr (ip_dst (ip_at 14 packet)) (\<lambda>d s. forward_frame d s packet)"
        using fwd by (simp add: decide_ip_def)
      show ?thesis
        unfolding d by (rule along [OF smooth [unfolded d] ok(2)])
          (use eq False fwd in \<open>simp_all add: forward_packet_eq [OF len(1)] split: option.splits\<close>)
    qed
  qed
qed

section \<open>ARP packets\<close>

lemma answer_effect:
  assumes "length packet = unat len" and "42 \<le> unat len" and "unat len < 2 ^ 31 - 24"
    and "ether_type (eth_at 0 packet) = htons ethertype_arp" and "ar_op (arp_at 14 packet) = htons arp_op_request"
    and "sr_get_interface sr interface = Some i" and "ar_tip (arp_at 14 packet) = if_ip i"
  shows "\<exists>log. sr_handlepacket fuel env sr packet len interface =
    Inr (sr\<lparr>logfile := log, sock_out := sock_out sr @ [vns_frame interface (arp_reply_frame i packet)]\<rparr>)"
proof -
  have len: "42 \<le> length packet" using assms(1,2) by simp
  have "frame_ok (arp_reply_frame i packet) len" using assms(1-3) by (simp add: frame_ok_def)
  from send_ok_eq [OF this assms(6), of env] obtain r log where
    "sr_send_packet env sr (arp_reply_frame i packet) len interface =
      Inr (r, sr\<lparr>logfile := log, sock_out := sock_out sr @ [vns_frame interface (arp_reply_frame i packet)]\<rparr>)" by auto
  then show ?thesis
    using handlepacket_arp [OF assms(1,2,4,6,7), of fuel env] assms(5) arp_answer_eq [OF len]
    by (intro exI [of _ log]) simp
qed

lemma learn_lookup:
  assumes "has_free_slot c" and "arp_view c ip = None"
  shows "map_option ae_mac (sr_arpcache_lookup (snd (sr_arpcache_insert t c mac ip)) ip') =
    ((\<lambda>a. map_option ae_mac (sr_arpcache_lookup c a))(ip \<mapsto> mac)) ip'"
proof -
  have "map_option fst (arp_view (arp_learn t mac ip c) ip') = (if ip' = ip then Some mac else map_option fst (arp_view c ip'))"
    using arp_table.view_learn_new [OF assms] arp_table.view_learn_other [of ip ip'] by auto
  then show ?thesis by (simp add: arp_view_def arp_learn_def option.map_comp comp_def)
qed

lemma learn_refines:
  assumes inv: "cache_inv (cache sr)" and queue: "queue_deliverable sr" and i: "sr_get_interface sr interface = Some i"
    and reply: "arp_reply_for i packet len"
    and smooth: "smooth env sr (Learn_hw (ar_sip (arp_at 14 packet)) (ar_sha (arp_at 14 packet)))"
  shows "refines (sr_handlepacket fuel env sr packet len interface) sr (Learn_hw (ar_sip (arp_at 14 packet)) (ar_sha (arp_at 14 packet)))"
proof -
  let ?ip = "ar_sip (arp_at 14 packet)" and ?mac = "ar_sha (arp_at 14 packet)"
  let ?c = "snd (sr_arpcache_insert (now env) (cache sr) ?mac ?ip)"
  let ?out = "case pend (cache sr) ?ip of None \<Rightarrow> [] | Some ps \<Rightarrow> map (delivered ?mac) ps"
  have "\<exists>log. sr_handlepacket fuel env sr packet len interface = Inr (sr\<lparr>cache := ?c, logfile := log, sock_out := sock_out sr @ ?out\<rparr>)"
  proof (cases "find_req ?ip (requests (cache sr))")
    case None
    have "htons arp_op_reply \<noteq> htons arp_op_request" by (simp add: protocol_numbers)
    then have "sr_handlepacket fuel env sr packet len interface = arp_learn_reply env sr packet"
      using reply i by (simp add: arp_reply_for_def handlepacket_arp)
    also have "\<dots> = Inr (sr\<lparr>cache := ?c\<rparr>)"
      using None insert_spec(2) [OF inv, of "now env" ?mac ?ip] by (simp add: arp_learn_reply_def case_prod_unfold Let_def)
    finally show ?thesis using None by (intro exI [of _ "logfile sr"]) (simp add: pend_def req_packets_def)
  next
    case (Some q)
    then show ?thesis using reply_delivers [OF inv queue i reply Some] by (simp add: pend_def req_packets_def)
  qed
  then obtain log where h: "sr_handlepacket fuel env sr packet len interface =
      Inr (sr\<lparr>cache := ?c, logfile := log, sock_out := sock_out sr @ ?out\<rparr>)" by blast
  show ?thesis
    using smooth by (intro refinesI [OF h] net_of_eqI)
      (simp_all add: learn_lookup insert_spec(4) [OF inv] fun_upd_apply comp_def split: option.splits)
qed

section \<open>The handler\<close>

lemma handler_refines:
  assumes inv: "cache_inv (cache sr)" and queue: "queue_deliverable sr" and routes: "routes_ok sr" and now: "1 < now env"
    and i: "sr_get_interface sr interface = Some i"
    and len: "length packet = unat len" "42 \<le> length packet" "unat len < 2 ^ 31 - 24"
    and smooth: "smooth env sr (decide sr i interface packet)"
  shows "refines (sr_handlepacket (Suc fuel) env sr packet len interface) sr (decide sr i interface packet)"
  using len(1,3)
proof (cases rule: packet_cases)
  case drop
  then show ?thesis using handlepacket_dropped [OF len(1)] by (simp add: decide_def)
next
  case accept
  have "htons ethertype_ip \<noteq> htons ethertype_arp" by (simp add: protocol_numbers)
  then have "decide sr i interface packet = decide_ip sr i interface packet"
    using accept by (auto simp: decide_def accepted_def dropped_def Let_def)
  then show ?thesis using accepted_refines [OF inv routes now i accept len(2)] smooth by simp
next
  case arp
  have nd: "\<not> dropped packet" using arp len by (simp add: dropped_def Let_def)
  then have d: "decide sr i interface packet = decide_arp i interface packet" using arp by (simp add: decide_def)
  show ?thesis
  proof (cases "ar_tip (arp_at 14 packet) = if_ip i")
    case True
    note h = handlepacket_arp [OF len(1) _ arp(2) i True, of "Suc fuel" env]
    have ne: "htons arp_op_reply \<noteq> htons arp_op_request" by (simp add: protocol_numbers)
    consider "ar_op (arp_at 14 packet) = htons arp_op_request" | "ar_op (arp_at 14 packet) = htons arp_op_reply"
      | "ar_op (arp_at 14 packet) \<noteq> htons arp_op_request" "ar_op (arp_at 14 packet) \<noteq> htons arp_op_reply" by blast
    then show ?thesis
    proof cases
      case 1
      obtain log where ans: "sr_handlepacket (Suc fuel) env sr packet len interface =
          Inr (sr\<lparr>logfile := log, sock_out := sock_out sr @ [vns_frame interface (arp_reply_frame i packet)]\<rparr>)"
        using answer_effect [OF len(1) _ len(3) arp(2) 1 i True, of "Suc fuel" env] len by auto
      show ?thesis
        using 1 True by (intro refinesI [OF ans] net_of_eqI) (simp_all add: d decide_arp_def)
    next
      case 2
      then have "decide sr i interface packet = Learn_hw (ar_sip (arp_at 14 packet)) (ar_sha (arp_at 14 packet))"
        using True ne by (simp add: d decide_arp_def Let_def)
      moreover have "arp_reply_for i packet len" using 2 True arp len by (simp add: arp_reply_for_def)
      ultimately show ?thesis using learn_refines [OF inv queue i] smooth by simp
    next
      case 3
      then show ?thesis using h len True by (simp add: d decide_arp_def)
    qed
  next
    case False
    then have "sr_handlepacket (Suc fuel) env sr packet len interface = Inr sr"
      using arp i len by (simp add: sr_handlepacket_def handle_arp_def minus_14)
    then show ?thesis using False by (simp add: d decide_arp_def)
  qed
qed

section \<open>Any number of packets\<close>

text \<open>A packet that arrives: the time and the rest of the environment, the packet, its length, its interface.\<close>

type_synonym arrival = "env \<times> byte list \<times> u32 \<times> byte list"

definition handle_arrival :: "nat \<Rightarrow> sr_instance \<Rightarrow> arrival \<Rightarrow> sr_instance res" where
  "handle_arrival fuel sr = (\<lambda>(env, packet, len, interface). sr_handlepacket fuel env sr packet len interface)"

definition decision_for :: "sr_instance \<Rightarrow> arrival \<Rightarrow> decision" where
  "decision_for sr = (\<lambda>(env, packet, len, interface).
     (case sr_get_interface sr interface of None \<Rightarrow> Ignore | Some i \<Rightarrow> decide sr i interface packet))"

definition arrival_ok :: "sr_instance \<Rightarrow> arrival \<Rightarrow> bool" where
  "arrival_ok sr ev = (case ev of (env, packet, len, interface) \<Rightarrow>
     1 < now env \<and> sr_get_interface sr interface \<noteq> None \<and> length packet = unat len \<and> 42 \<le> length packet
     \<and> unat len < 2 ^ 31 - 24 \<and> smooth env sr (decision_for sr ev))"

primrec smooth_run :: "nat \<Rightarrow> sr_instance \<Rightarrow> arrival list \<Rightarrow> bool" where
  "smooth_run fuel sr [] \<longleftrightarrow> True"
| "smooth_run fuel sr (ev # evs) \<longleftrightarrow> arrival_ok sr ev
     \<and> (case handle_arrival fuel sr ev of Inl _ \<Rightarrow> True | Inr sr' \<Rightarrow> smooth_run fuel sr' evs)"

text \<open>Decisions depend on the configuration only.\<close>

lemma decision_cong:
  assumes "if_list sr' = if_list sr" and "routing_table sr' = routing_table sr"
  shows "decision_for sr' = decision_for sr" and "ask sr' = ask sr" and "routes_ok sr' = routes_ok sr"
proof -
  note eqs = get_interface_cong [OF assms(1)] assms
  show "decision_for sr' = decision_for sr"
    unfolding decision_for_def decide_def decide_ip_def along_def own_addr_def eqs ..
  show "ask sr' = ask sr" unfolding ask_def eqs ..
  show "routes_ok sr' = routes_ok sr" unfolding routes_ok_def eqs ..
qed

lemma arrival_refines:
  assumes inv: "router_inv sr" and "routes_ok sr" and ok: "arrival_ok sr ev"
  shows "\<exists>sr'. handle_arrival (Suc fuel) sr ev = Inr sr' \<and> net_of sr' = perform (ask sr) (decision_for sr ev) (net_of sr)
    \<and> router_inv sr' \<and> if_list sr' = if_list sr \<and> routing_table sr' = routing_table sr"
proof -
  obtain env packet len interface where ev: "ev = (env, packet, len, interface)" by (cases ev)
  obtain i where i: "sr_get_interface sr interface = Some i" using ok by (auto simp: arrival_ok_def ev)
  have len: "length packet = unat len" "42 \<le> length packet" "unat len < 2 ^ 31 - 24" and now: "1 < now env"
    and smooth: "smooth env sr (decide sr i interface packet)"
    using ok i by (simp_all add: arrival_ok_def ev decision_for_def)
  obtain sr' where h: "sr_handlepacket (Suc fuel) env sr packet len interface = Inr sr'"
    "net_of sr' = perform (ask sr) (decide sr i interface packet) (net_of sr)"
    using handler_refines [OF _ _ assms(2) now i len smooth, of fuel] inv by (auto simp: refines_def router_inv_def)
  then show ?thesis
    using router_inv_handlepacket [OF h(1) len(1,3) inv] i
    by (simp add: ev handle_arrival_def decision_for_def)
qed

lemma run_refines:
  assumes "router_inv sr" and "routes_ok sr" and "smooth_run (Suc fuel) sr evs"
  shows "\<exists>sr'. each (handle_arrival (Suc fuel)) sr evs = Inr sr'
    \<and> net_of sr' = fold (\<lambda>ev. perform (ask sr) (decision_for sr ev)) evs (net_of sr)"
  using assms
proof (induction evs arbitrary: sr)
  case (Cons ev evs)
  obtain sr1 where sr1: "handle_arrival (Suc fuel) sr ev = Inr sr1" "net_of sr1 = perform (ask sr) (decision_for sr ev) (net_of sr)"
    "router_inv sr1" "if_list sr1 = if_list sr" "routing_table sr1 = routing_table sr"
    using arrival_refines [OF Cons.prems(1,2), of ev fuel] Cons.prems(3) by auto
  note cong = decision_cong [OF sr1(4,5)]
  have "\<exists>sr'. each (handle_arrival (Suc fuel)) sr1 evs = Inr sr'
    \<and> net_of sr' = fold (\<lambda>ev. perform (ask sr1) (decision_for sr1 ev)) evs (net_of sr1)"
    using Cons.prems(2,3) sr1(1) by (intro Cons.IH sr1(3)) (simp_all add: cong)
  then show ?case using sr1(1,2) by (simp add: cong)
qed simp

end
