(* ===== verification/Crossing.thy ===== *)
theory Crossing
  imports Startup Resolution
begin

text \<open>
  The components together: a session in which the server describes the hardware, delivers a packet for a network behind
  another interface, delivers the ARP reply that the packet needs, and closes the session. The packet has crossed the
  router. The timeout thread makes rounds between all of these; while the packet waits they repeat the ARP request.
\<close>

section \<open>The announced interfaces\<close>

text \<open>The interfaces that are configured answer as the announced ones.\<close>

lemma configured_walk: "list_all2 configured is js \<Longrightarrow> rel_option configured (if_walk is n) (if_walk js n)"
  by (induction rule: list_all2_induct) (auto simp: configured_def)

lemma configured_found:
  assumes "list_all2 configured is js" and "if_walk is n = Some i"
  obtains j where "if_walk js n = Some j" "if_addr j = if_addr i" "if_ip j = if_ip i" "if_name j = strncpy (list_of (if_name i))"
  using configured_walk [OF assms(1), of n] assms(2) by (auto simp: option_rel_Some1 configured_def)

lemma configured_ips: "list_all2 configured is js \<Longrightarrow> if_ip ` set js = if_ip ` set is"
  by (induction rule: list_all2_induct) (auto simp: configured_def)

lemma verified:
  assumes "list_all2 configured is js" and "is \<noteq> []" and "if_list sr = js" and "routing_table sr \<noteq> []"
    and "\<forall>e \<in> set (routing_table sr). if_walk is (list_of (rt_interface e)) \<noteq> None"
  shows "sr_verify_routing_table sr = 0"
proof -
  have "verify_walk js e" if "e \<in> set (routing_table sr)" for e
    using configured_walk [OF assms(1), of "list_of (rt_interface e)"] assms(5) that
    by (fastforce simp: verify_walk_iff option_rel_Some1)
  moreover have "js \<noteq> []" using assms(1,2) by auto
  ultimately show ?thesis using assms(3,4) by (simp add: sr_verify_routing_table_def verify_count_length)
qed

section \<open>The session\<close>

text \<open>
  A packet that has to cross: it arrives on the interface named \<open>n1\<close>, its route \<open>e\<close> leads out of the interface \<open>i\<close>, and the
  reply for its next hop arrives on the interface \<open>i2\<close> named \<open>n2\<close>.
\<close>

definition crosses ::
  "sr_if list \<Rightarrow> sr_rt list \<Rightarrow> byte list \<Rightarrow> byte list \<Rightarrow> sr_rt \<Rightarrow> sr_if \<Rightarrow> byte list \<Rightarrow> byte list \<Rightarrow> bool" where
  "crosses is table n1 packet e i n2 reply \<longleftrightarrow>
     names_end is \<and> length packet + 24 \<le> 10000 \<and> accepted packet (of_nat (length packet)) \<and> ip_ttl (ip_at 14 packet) \<noteq> 1
     \<and> ip_dst (ip_at 14 packet) \<notin> if_ip ` set is \<and> length (cstr n1) < 16 \<and> if_walk is n1 \<noteq> None
     \<and> sr_findLPMentry table (ip_dst (ip_at 14 packet)) = Some e \<and> if_walk is (list_of (rt_interface e)) = Some i
     \<and> length reply + 24 \<le> 10000 \<and> length (cstr n2) < 16 \<and> ar_sip (arp_at 14 reply) = ip_dst (ip_at 14 packet)
     \<and> (\<exists>i2. if_walk is n2 = Some i2 \<and> arp_reply_for i2 reply (of_nat (length reply)))"

text \<open>The frames that leave: the ARP request, \<open>n\<close> repetitions of it, and the packet.\<close>

definition crossing_out :: "nat \<Rightarrow> byte list \<Rightarrow> sr_rt \<Rightarrow> sr_if \<Rightarrow> byte list \<Rightarrow> byte list list" where
  "crossing_out n packet e i reply =
     replicate (Suc n) (vns_frame (list_of (if_name i)) (arp_request_frame (if_addr i) (if_ip i) (ip_dst (ip_at 14 packet))))
     @ [vns_frame (list_of (rt_interface e)) (forward_frame (ar_sha (arp_at 14 reply)) (if_addr i) packet)]"

lemma init_cache: "cache_inv (sr_arpcache_init c)" "no_mappings (sr_arpcache_init c)" "requests (sr_arpcache_init c) = []"
  by (rule cache_inv_init) (simp_all add: sr_arpcache_init_def no_mappings_def)

lemma pend_empty: "pend c = Map.empty \<Longrightarrow> requests c = []"
proof (rule ccontr)
  assume p: "pend c = Map.empty" and "requests c \<noteq> []"
  then obtain r rs where "requests c = r # rs" by (cases "requests c") auto
  then have "pend c (rq_ip r) = Some (rq_packets r)" by (simp add: pend_def req_packets_def)
  with p show False by simp
qed

text \<open>The reply, and the rounds after it.\<close>

lemma reply_then_rounds:
  assumes "cache_inv (cache sr)" and "queue_deliverable sr" and "sr_get_interface sr n2 = Some j" and "arp_reply_for j reply len"
    and "pend (cache sr) = [ar_sip (arp_at 14 reply) \<mapsto> ps]"
  shows "\<exists>log c. bnd (sr_handlepacket fuel env sr reply len n2) (\<lambda>sr1. rounds k fuel' sr1 envs) =
    Inr (sr\<lparr>cache := c, logfile := log, sock_out := sock_out sr @ map (delivered (ar_sha (arp_at 14 reply))) ps\<rparr>)"
proof -
  obtain log c where h: "sr_handlepacket fuel env sr reply len n2 = Inr (sr\<lparr>cache := c, logfile := log,
        sock_out := sock_out sr @ map (delivered (ar_sha (arp_at 14 reply))) ps\<rparr>)"
    and c: "pend c = (pend (cache sr))(ar_sip (arp_at 14 reply) := None)"
    using reply_effect [OF assms(1-4), of ps fuel env] assms(5) by auto
  let ?sr = "sr\<lparr>cache := c, logfile := log, sock_out := sock_out sr @ map (delivered (ar_sha (arp_at 14 reply))) ps\<rparr>"
  have "requests (cache ?sr) = []" using pend_empty [of c] c assms(5) by simp
  then obtain c' where "rounds k fuel' ?sr envs = Inr (?sr\<lparr>cache := c'\<rparr>)" using rounds_idle by blast
  then show ?thesis using h by (intro exI [of _ log] exI [of _ c']) simp
qed

text \<open>What the configured interfaces are for the two packets.\<close>

lemma crossing_interfaces:
  assumes cr: "crosses is table n1 packet e i n2 reply" and js: "list_all2 configured is js"
  obtains j j1 j2 where "if_walk js (list_of (rt_interface e)) = Some j" "if_addr j = if_addr i" "if_ip j = if_ip i"
      "if_name j = strncpy (list_of (if_name i))"
    and "if_walk js n1 = Some j1" "\<not> arp_for_other j1 packet"
    and "if_walk js n2 = Some j2" "arp_reply_for j2 reply (of_nat (length reply))" "\<not> arp_for_other j2 reply"
    and "14 \<le> length packet" "length packet + 24 \<le> 10000" "14 \<le> length reply" "length reply + 24 \<le> 10000"
proof -
  note cr = cr [unfolded crosses_def]
  obtain i2 where i2: "if_walk is n2 = Some i2" "arp_reply_for i2 reply (of_nat (length reply))" using cr by blast
  obtain j where j: "if_walk js (list_of (rt_interface e)) = Some j" "if_addr j = if_addr i" "if_ip j = if_ip i"
    "if_name j = strncpy (list_of (if_name i))" using configured_found [OF js, of _ i] cr by blast
  obtain j1 where j1: "if_walk js n1 = Some j1" using configured_walk [OF js, of n1] cr by (cases "if_walk js n1") auto
  obtain j2 where j2: "if_walk js n2 = Some j2" "if_ip j2 = if_ip i2" using configured_found [OF js i2(1)] by metis
  have reply: "arp_reply_for j2 reply (of_nat (length reply))" using i2(2) j2(2) by (simp add: arp_reply_for_def)
  have ip: "\<not> arp_for_other j1 packet" using cr by (auto simp: arp_for_other_def accepted_def protocol_numbers)
  have rp: "\<not> arp_for_other j2 reply" using reply by (auto simp: arp_for_other_def arp_reply_for_def protocol_numbers)
  show thesis
    using cr i2(2) by (intro that [OF j j1 ip j2(1) reply rp]) (auto simp: accepted_def arp_reply_for_def)
qed

text \<open>The two packets, once the interfaces are there, with rounds after each of them.\<close>

lemma packets_cross:
  assumes cr: "crosses is table n1 packet e i n2 reply" and js: "list_all2 configured is js"
    and sr: "if_list (inst c) = js" "routing_table (inst c) = table" "cache (inst c) = sr_arpcache_init ca"
    and now: "1 < now (proc (os k))" and n: "n = resends (now (proc (os k))) (ticks (os k))" "n \<le> 4"
  shows "\<exists>c'. (\<forall>ms. run_msgs (Suc fuel) os k c (vns_frame n1 packet # vns_frame n2 reply # ms) = run_msgs (Suc fuel) os (k + 2) c' ms)
    \<and> sock_out (inst c') = sock_out (inst c) @ crossing_out n packet e i reply"
proof -
  let ?ip = "ip_dst (ip_at 14 packet)" and ?l1 = "of_nat (length packet) :: u32" and ?l2 = "of_nat (length reply) :: u32"
  obtain j j1 j2 where j: "if_walk js (list_of (rt_interface e)) = Some j" "if_addr j = if_addr i" "if_ip j = if_ip i"
      "if_name j = strncpy (list_of (if_name i))"
    and j1: "if_walk js n1 = Some j1" and ip: "\<not> arp_for_other j1 packet"
    and j2: "if_walk js n2 = Some j2" and reply: "arp_reply_for j2 reply ?l2" and rp: "\<not> arp_for_other j2 reply"
    and lens: "14 \<le> length packet" "length packet + 24 \<le> 10000" "14 \<le> length reply" "length reply + 24 \<le> 10000"
    using crossing_interfaces [OF cr js] .
  note cr = cr [unfolded crosses_def]
  let ?b = "forward_frame (ether_dhost (eth_at 0 packet)) (if_addr i) packet"
  let ?pk = "new_pkt ?b ?l1 (list_of (rt_interface e))"
  let ?req = "vns_frame (list_of (if_name i)) (arp_request_frame (if_addr i) (if_ip i) ?ip)"
  obtain log1 where d1: "dispatch (Suc fuel) (os k) c VNSPACKET (host_order (vns_frame n1 packet)) =
      bnd (sr_handlepacket (Suc fuel) (proc (os k)) ((inst c)\<lparr>logfile := log1\<rparr>) packet ?l1 n1) (\<lambda>sr. Inr (1, c\<lparr>inst := sr\<rparr>))"
    using dispatch_frame [OF lens(1,2), of n1 c j1 "Suc fuel" "os k"] cr j1 sr(1) ip by (auto simp: sr_get_interface_def)
  let ?sr = "(inst c)\<lparr>logfile := log1\<rparr>"
  obtain log2 c2 where h: "bnd (sr_handlepacket (Suc fuel) (proc (os k)) ?sr packet ?l1 n1)
        (\<lambda>sr1. rounds (Suc fuel) (Suc fuel) sr1 (ticks (os k))) =
      Inr (?sr\<lparr>cache := c2, logfile := log2, sock_out := sock_out ?sr @ replicate (Suc n) ?req\<rparr>)"
    and c2: "cache_inv c2" "queue_deliverable (?sr\<lparr>cache := c2\<rparr>)" "pend c2 = [?ip \<mapsto> [?pk]]"
    using first_then_rounds [of packet ?l1 ?sr e j "proc (os k)" "ticks (os k)" fuel n1 fuel] cr j sr configured_ips [OF js] init_cache now n
    by (auto simp: own_addr_def sr_get_interface_def vns_frame_name)
  define sr2 where "sr2 = ?sr\<lparr>cache := c2, logfile := log2, sock_out := sock_out ?sr @ replicate (Suc n) ?req\<rparr>"
  obtain sr1 where sr1: "sr_handlepacket (Suc fuel) (proc (os k)) ?sr packet ?l1 n1 = Inr sr1"
    "rounds (Suc fuel) (Suc fuel) sr1 (ticks (os k)) = Inr sr2" using h by (auto simp: sr2_def)
  have i2: "sr_get_interface sr2 n2 = Some j2" using j2 sr(1) by (simp add: sr2_def sr_get_interface_def)
  obtain log3 where d2: "dispatch (Suc fuel) (os (Suc k)) (c\<lparr>inst := sr2\<rparr>) VNSPACKET (host_order (vns_frame n2 reply)) =
      bnd (sr_handlepacket (Suc fuel) (proc (os (Suc k))) (sr2\<lparr>logfile := log3\<rparr>) reply ?l2 n2) (\<lambda>sr. Inr (1, c\<lparr>inst := sr\<rparr>))"
    using dispatch_frame [OF lens(3,4), of n2 "c\<lparr>inst := sr2\<rparr>" j2 "Suc fuel" "os (Suc k)"] cr i2 rp by auto
  let ?sr3 = "sr2\<lparr>logfile := log3\<rparr>"
  have "if_list ?sr3 = if_list (?sr\<lparr>cache := c2\<rparr>)" by (simp add: sr2_def)
  then have q3: "queue_deliverable ?sr3"
    using c2(2) deliverable_cong [of ?sr3 "?sr\<lparr>cache := c2\<rparr>"] by (simp add: queue_deliverable_def sr2_def)
  have inv3: "cache_inv (cache ?sr3)" and p3: "pend (cache ?sr3) = [ar_sip (arp_at 14 reply) \<mapsto> [?pk]]"
    and i3: "sr_get_interface ?sr3 n2 = Some j2"
    using c2(1,3) cr i2 by (simp_all add: sr2_def)
  obtain log4 c4 where h4: "bnd (sr_handlepacket (Suc fuel) (proc (os (Suc k))) ?sr3 reply ?l2 n2)
        (\<lambda>sr1. rounds (Suc fuel) (Suc fuel) sr1 (ticks (os (Suc k)))) =
      Inr (?sr3\<lparr>cache := c4, logfile := log4, sock_out := sock_out ?sr3 @ [delivered (ar_sha (arp_at 14 reply)) ?pk]\<rparr>)"
    using reply_then_rounds [OF inv3 q3 i3 reply p3, of "Suc fuel" "proc (os (Suc k))" "Suc fuel" "Suc fuel" "ticks (os (Suc k))"] by auto
  define sr4 where "sr4 = ?sr3\<lparr>cache := c4, logfile := log4, sock_out := sock_out ?sr3 @ [delivered (ar_sha (arp_at 14 reply)) ?pk]\<rparr>"
  obtain sr3 where sr3: "sr_handlepacket (Suc fuel) (proc (os (Suc k))) ?sr3 reply ?l2 n2 = Inr sr3"
    "rounds (Suc fuel) (Suc fuel) sr3 (ticks (os (Suc k))) = Inr sr4" using h4 by (auto simp: sr4_def)
  have "frame_ok ?b ?l1" using cr lens by (auto simp: accepted_def frame_ok_def)
  then have "sock_out sr4 = sock_out (inst c) @ crossing_out n packet e i reply"
    using cr by (simp add: sr4_def sr2_def crossing_out_def delivered_new accepted_def)
  moreover have "run_msgs (Suc fuel) os k c (vns_frame n1 packet # vns_frame n2 reply # ms) = run_msgs (Suc fuel) os (k + 2) (c\<lparr>inst := sr4\<rparr>) ms" for ms
    using d1 d2 sr1 sr3 vns_frame_parts(3) [OF lens(2)] vns_frame_parts(3) [OF lens(4)] by (simp add: timeout_rounds_def)
  ultimately show ?thesis by (intro exI [of _ "c\<lparr>inst := sr4\<rparr>"]) simp
qed

definition crossing_msgs :: "sr_if list \<Rightarrow> byte list \<Rightarrow> byte list \<Rightarrow> byte list \<Rightarrow> byte list \<Rightarrow> byte list \<Rightarrow> byte list list" where
  "crossing_msgs is n1 packet n2 reply reason =
     [hw_msg (concat (map announce is)), vns_frame n1 packet, vns_frame n2 reply, vns_msg VNSCLOSE reason]"

lemma session_crosses:
  assumes cr: "crosses is table n1 packet e i n2 reply" and hw: "length is \<le> 85"
    and table: "table \<noteq> []" "\<forall>e \<in> set table. if_walk is (list_of (rt_interface e)) \<noteq> None"
    and c: "inst c = sr_init sr" "if_list sr = []" "routing_table sr = table"
    and now: "1 < now (proc (os 4))" and n: "n = resends (now (proc (os 4))) (ticks (os 4))" "n \<le> 4" and reason: "0 \<in> set reason"
  shows "\<exists>c'. run_msgs (Suc fuel) os 3 c (crossing_msgs is n1 packet n2 reply reason) = Inr (True, c')
    \<and> sock_out (inst c') = sock_out sr @ crossing_out n packet e i reply"
proof -
  obtain js sr1 where js: "list_all2 configured is js" and sr1: "sr1 = (inst c)\<lparr>if_list := if_list (inst c) @ js\<rparr>"
    and d: "dispatch (Suc fuel) (os 3) c VNSHWINFO (host_order (hw_msg (concat (map announce is)))) =
      Inr (if sr_verify_routing_table sr1 = 0 then 1 else - 1, c\<lparr>inst := sr1\<rparr>)"
    using dispatch_hwinfo [OF hw, of c "Suc fuel" "os 3"] cr c by (auto simp: crosses_def sr_init_def)
  have f: "if_list sr1 = js" "routing_table sr1 = table" "cache sr1 = sr_arpcache_init (cache sr)" "sock_out sr1 = sock_out sr"
    using sr1 c by (simp_all add: sr_init_def)
  have v: "sr_verify_routing_table sr1 = 0" using verified [OF js _ f(1)] f(2) table cr by (cases "is") (auto simp: crosses_def)
  obtain c' where c': "run_msgs (Suc fuel) os 4 (c\<lparr>inst := sr1\<rparr>) (vns_frame n1 packet # vns_frame n2 reply # ms) = run_msgs (Suc fuel) os 6 c' ms"
    "sock_out (inst c') = sock_out sr @ crossing_out n packet e i reply" for ms
    using packets_cross [OF cr js, of "c\<lparr>inst := sr1\<rparr>" "cache sr" os 4 n fuel] f now n by auto
  have idle: "timeout_rounds (Suc fuel) (os 3) (c\<lparr>inst := sr1\<rparr>) = Inr (c\<lparr>inst := sr1\<rparr>)"
    using f(3) init_cache by (simp add: timeout_rounds_def rounds_empty)
  have close: "run_msgs (Suc fuel) os 6 c' [vns_msg VNSCLOSE reason] = Inr (True, c')"
    using reason by (simp add: vns_msg_parts dispatch_def command_numbers read_str_def)
  show ?thesis
    using c' close d v idle hw_msg_ok(2) [OF hw]
    by (intro exI [of _ c']) (simp add: crossing_msgs_def del: run_msgs.simps, subst run_msgs.simps, simp del: run_msgs.simps)
qed

text \<open>The program, from its options to its exit.\<close>

lemma program_crosses:
  assumes args: "parse_opts default_opts args = Some p" and sup: "table_supplied (os 2) p table c first fs" and log: "o_logfile p = None"
    and key: "files c (text_bytes ''auth_key'') = Some (key @ kr)" "length key = 64" "10 \<notin> set key" "length (cstr (user_name b p)) < 32"
    and hs: "length salt + 8 \<le> 10000" "9 + length why \<le> 10000" "auth \<noteq> 0" "reachable_server (os 0) (o_server p)" "\<forall>k. writes_ok (os k)"
    and s: "stream (input c) = vns_msg VNS_AUTH_REQUEST salt @ vns_msg VNS_AUTH_STATUS (auth # why) @ first
      @ concat (crossing_msgs is n1 packet n2 reply reason) @ rest"
    and cr: "crosses is table n1 packet e i n2 reply" and hw: "length is \<le> 85"
    and table: "\<forall>e \<in> set table. if_walk is (list_of (rt_interface e)) \<noteq> None"
    and now: "1 < now (proc (os 4))" and n: "n = resends (now (proc (os 4))) (ticks (os 4))" "n \<le> 4"
    and reason: "0 \<in> set reason" "length reason + 8 \<le> 10000"
  shows "\<exists>c'. main (Suc fuel) b os args c = Some (Inr (0, c')) \<and> sock_out (inst c') = sock_out (inst c)
    @ [auth_reply_msg (cstr (user_name b p)) (sha1 (salt @ key)), first_msg (booted b p table (inst c))] @ crossing_out n packet e i reply"
proof -
  let ?sr = "logged_in (os 0) (auth_reply_msg (cstr (user_name b p)) (sha1 (salt @ key))) (booted b p table (inst c))"
  let ?start = "c\<lparr>inst := sr_init ?sr, files := fs\<rparr>" and ?ms = "crossing_msgs is n1 packet n2 reply reason"
  have "length packet + 24 \<le> 10000" "length reply + 24 \<le> 10000" using cr by (simp_all add: crosses_def)
  then have ms: "\<forall>m \<in> set ?ms. msg_ok m"
    using hw_msg_ok(1) [OF hw] vns_frame_parts(2) vns_msg_parts(2) reason(2) by (simp add: crossing_msgs_def)
  have "table \<noteq> []" using sup by (simp add: table_supplied_def Let_def)
  then obtain c' where c': "run_msgs (Suc fuel) os 3 ?start ?ms = Inr (True, c')"
    "sock_out (inst c') = sock_out ?sr @ crossing_out n packet e i reply"
    using session_crosses [OF cr hw _ table, of ?start ?sr os n reason fuel] now n reason(1)
    by (auto simp: logged_in_def booted_def)
  obtain es where "main (Suc fuel) b os args c = Some (Inr (0, c'\<lparr>input := es\<rparr>))"
    using main_session [OF args sup log key hs s ms refl, of "Suc fuel"] c'(1) by blast
  then show ?thesis using c'(2) by (simp add: logged_in_def booted_def)
qed

end
