(* ===== verification/System.thy ===== *)
theory System
  imports Startup Threads Abstract_router Crossing
begin

text \<open>
  The process as a transition system: the main thread handles one command of the server, or the timeout
  thread makes one round, in any order, and the input arrives in the meantime. All reachable states satisfy the
  invariants of the ARP table and of the queue. Waiting packets can be sent as they are if the server does not change the interfaces
  while packets wait for them; the runs in which it does not are \<open>orderly\<close>.
\<close>

inductive sys_step :: "conn \<Rightarrow> conn \<Rightarrow> bool" where
  command: "dispatch fuel os c cmd m = Inr (r, c') \<Longrightarrow> 8 \<le> length m \<Longrightarrow> length m \<le> 10000 \<Longrightarrow> sys_step c c'"
| round: "sr_arpcache_timeout k fuel env (inst c) = Inr sr \<Longrightarrow> sys_step c (c\<lparr>inst := sr\<rparr>)"
| arrival: "sys_step c (c\<lparr>input := es\<rparr>)"

definition orderly :: "conn \<Rightarrow> conn \<Rightarrow> bool" where
  "orderly c c' \<longleftrightarrow> sys_step c c' \<and> (requests (cache (inst c)) = [] \<or> if_list (inst c') = if_list (inst c))"

inductive reachable :: "(conn \<Rightarrow> conn \<Rightarrow> bool) \<Rightarrow> conn \<Rightarrow> conn \<Rightarrow> bool" for step c0 where
  start: "reachable step c0 c0"
| step: "reachable step c0 c \<Longrightarrow> step c c' \<Longrightarrow> reachable step c0 c'"

inductive_cases sys_stepE [elim]: "sys_step c c'"

section \<open>The invariant\<close>

text \<open>The messages of a session after it was opened: frames, and answers to authentication requests.\<close>

definition wire_msg :: "byte list \<Rightarrow> bool" where
  "wire_msg m \<longleftrightarrow> (\<exists>iface frame. m = vns_frame iface frame \<and> 14 \<le> length frame \<and> length frame < 2 ^ 31 - 24)
     \<or> (\<exists>u d. m = auth_reply_msg u d \<and> length u \<le> 32)"

lemma wire_msg_reply: "length u \<le> 32 \<Longrightarrow> wire_msg (auth_reply_msg u d)"
  unfolding wire_msg_def by blast

lemma wire_msg_frame: "sent_frame sr m \<Longrightarrow> wire_msg m"
  unfolding sent_frame_def wire_msg_def by blast

text \<open>Such a message says its length and its type.\<close>

lemma wire_msg_header:
  assumes "wire_msg m"
  shows "8 \<le> length m \<and> u32_at 0 m = htonl (of_nat (length m)) \<and> (command_of m = VNSPACKET \<or> command_of m = VNS_AUTH_REPLY)"
  using assms unfolding wire_msg_def
proof (elim disjE exE conjE)
  fix iface frame assume "m = vns_frame iface frame"
  then show ?thesis by (simp add: vns_frame_def wr_packet_header_def wire_simps)
next
  fix u d assume "m = auth_reply_msg u d"
  then show ?thesis by (simp add: auth_reply_msg_def vns_msg_parts(1,3)) (simp add: vns_msg_def wr_base_def wire_simps)
qed

text \<open>The invariant, with a property \<open>Q\<close> of the waiting packets, and what keeps it.\<close>

definition queue_inv :: "(sr_instance \<Rightarrow> sr_packet \<Rightarrow> bool) \<Rightarrow> sr_instance \<Rightarrow> bool" where
  "queue_inv Q sr \<longleftrightarrow> cache_inv (cache sr) \<and> times_ok (cache sr) \<and> queue_all Q sr"

definition preserved :: "(sr_instance \<Rightarrow> sr_packet \<Rightarrow> bool) \<Rightarrow> sr_instance \<Rightarrow> sr_instance \<Rightarrow> bool" where
  "preserved Q sr sr' \<longleftrightarrow> routing_table sr' = routing_table sr
     \<and> (\<exists>out. sock_out sr' = sock_out sr @ out \<and> (queue_inv Q sr \<longrightarrow> queue_inv Q sr' \<and> list_all wire_msg out))"

lemma preservedI [intro?]:
  "routing_table sr' = routing_table sr \<Longrightarrow> sock_out sr' = sock_out sr @ out \<Longrightarrow>
   (queue_inv Q sr \<Longrightarrow> queue_inv Q sr' \<and> list_all wire_msg out) \<Longrightarrow> preserved Q sr sr'"
  by (auto simp: preserved_def)

lemma preserved_refl [simp]: "preserved Q sr sr"
  by (simp add: preserved_def)

lemma preserved_trans: "preserved Q a b \<Longrightarrow> preserved Q b c \<Longrightarrow> preserved Q a c"
  by (fastforce simp: preserved_def)

lemma preserved_event:
  assumes "event_step sr sr'" and "keeps_all Q sr sr'"
  shows "preserved Q sr sr'"
proof -
  obtain out where out: "sock_out sr' = sock_out sr @ out" using assms(1) by (auto simp: event_step_def)
  show ?thesis
  proof (rule preservedI [OF _ out])
    show "routing_table sr' = routing_table sr" using assms(1) by (simp add: event_step_def)
    assume "queue_inv Q sr"
    then show "queue_inv Q sr' \<and> list_all wire_msg out"
      using assms out by (auto simp: queue_inv_def event_step_def keeps_all_def list_all_iff intro: wire_msg_frame)
  qed
qed

lemma log_packet_same: "sr_log_packet t sr buf l = Inr sr' \<Longrightarrow> same_router sr sr' \<and> sock_out sr' = sock_out sr"
  by (auto dest!: log_packet_frame)

section \<open>Commands\<close>

lemma wrapped_length:
  assumes "n < 24"
  shows "42 \<le> unat (of_nat n - 24 :: u32)"
proof -
  have "(- 24 :: u32) = 4294967272" by simp
  then have "(of_nat n - 24 :: u32) = of_nat (n + 4294967272)" unfolding diff_conv_add_uminus by simp
  then have "unat (of_nat n - 24 :: u32) = n + 4294967272"
    using assms by (simp only: unat_of_nat) (simp add: take_bit_nat_eq_self)
  then show ?thesis by simp
qed

text \<open>Announcing hardware touches nothing but the interfaces.\<close>

lemma each_invariant:
  assumes "each f c xs = Inr c'" and "P c" and "\<And>c x c'. P c \<Longrightarrow> f c x = Inr c' \<Longrightarrow> P c'"
  shows "P c'"
  using assms(1,2)
proof (induction xs arbitrary: c)
  case (Cons x xs)
  then show ?case using assms(3) by auto
qed simp

lemma hwinfo_frame:
  assumes "sr_handle_hwinfo os sr m = Inr (n, sr')"
  shows "cache sr' = cache sr \<and> sock_out sr' = sock_out sr \<and> routing_table sr' = routing_table sr"
proof -
  have "\<exists>xs. each (hw_entry_loop os) sr xs = Inr sr'"
    using assms by (auto simp: sr_handle_hwinfo_def Let_def)
  then show ?thesis
    by (elim exE each_invariant)
      (auto simp: hw_entry_loop_def Let_def sr_add_interface_def sr_set_ether_ip_def sr_set_ether_addr_def split: if_splits)
qed

lemma rtable_inst: "sr_handle_rtable os c m = Inr (ok, c') \<Longrightarrow> inst c' = inst c"
  by (auto simp: sr_handle_rtable_def Let_def split: if_splits)

text \<open>Every event but the announcement of hardware keeps any property of the waiting packets.\<close>

context waiting_property
begin

lemma preserved_timeout:
  assumes "sr_arpcache_timeout k fuel env sr = Inr sr'"
  shows "preserved Q sr sr'"
proof -
  let ?sr = "sr\<lparr>cache := sr_arpcache_expire (now env) (cache sr)\<rparr>"
  have "event_step sr ?sr" by (simp add: event_step_def cache_inv_def sr_arpcache_expire_def times_ok_def)
  moreover have "keeps_all Q sr ?sr"
    by (rule keepsI) (auto simp: sr_arpcache_expire_def queue_all_def list_all_iff)
  moreover have "event_step ?sr sr'" "keeps_all Q ?sr sr'"
    using step.R_timeout [OF assms] arp.R_timeout [OF assms] by (simp_all add: event_step_router)
  ultimately show ?thesis by (blast intro: preserved_event event_step_trans keeps_all_trans)
qed

lemma preserved_packet:
  assumes h: "vns_packet fuel os sr m = Inr sr'" and len: "length m \<le> 10000"
  shows "preserved Q sr sr'"
proof -
  let ?l = "of_nat (length m) - 24 :: u32" and ?p = "drop 24 m"
  obtain d where d: "sr_arp_req_not_for_us sr ?p ?l (drop 8 m) = Inr d"
    and rest: "(if d then Inr sr else bnd (sr_log_packet (tv (proc os)) sr ?p (sint (ntohl (mLen (rd_base (seg 0 8 m))) - 24)))
      (\<lambda>sr1. sr_handlepacket fuel (proc os) sr1 ?p ?l (drop 8 m))) = Inr sr'"
    using h by (auto simp: vns_packet_def Let_def)
  have "24 \<le> length m"
  proof (rule ccontr)
    assume "\<not> 24 \<le> length m"
    then show False
      using d wrapped_length [of "length m"] by (auto simp: sr_arp_req_not_for_us_def Let_def split: option.splits)
  qed
  then have l: "?l = of_nat (length ?p)" by (simp add: of_nat_diff)
  then have u: "length ?p = unat ?l" using len by (simp add: unat_of_nat take_bit_nat_eq_self del: of_nat_diff)
  show ?thesis
  proof (cases d)
    case False
    then obtain sr1 where sr1: "sr_log_packet (tv (proc os)) sr ?p (sint (ntohl (mLen (rd_base (seg 0 8 m))) - 24)) = Inr sr1"
      "sr_handlepacket fuel (proc os) sr1 ?p ?l (drop 8 m) = Inr sr'" using rest by auto
    have "event_step sr sr1" "keeps_all Q sr sr1"
      using log_packet_same [OF sr1(1)] same_router_fields [of sr sr1] by (auto simp: event_step_def intro: keeps_log)
    moreover have "event_step sr1 sr'" using sr1(2) by (rule event_step_handlepacket)
    moreover have "unat ?l < 2 ^ 31 - 24" using u len by (simp only: flip: u) simp
    then have "keeps_all Q sr1 sr'" using keeps_handlepacket [OF sr1(2) u] by blast
    ultimately show ?thesis by (blast intro: preserved_event event_step_trans keeps_all_trans)
  qed (use rest in simp)
qed

lemma preserved_sent: "wire_msg m \<Longrightarrow> preserved Q sr (sr\<lparr>sock_out := sock_out sr @ [m]\<rparr>)"
proof (rule preservedI [where out = "[m]"])
  have "same_router sr (sr\<lparr>sock_out := sock_out sr @ [m]\<rparr>)"
    unfolding same_router_def by (rule exI [of _ "sock_out sr @ [m]"], rule exI [of _ "logfile sr"]) simp
  moreover assume "wire_msg m" "queue_inv Q sr"
  ultimately show "queue_inv Q (sr\<lparr>sock_out := sock_out sr @ [m]\<rparr>) \<and> list_all wire_msg [m]"
    using queue_all_same by (auto simp: queue_inv_def)
qed simp_all

lemma auth_request_inst:
  assumes "sr_handle_auth_request os c m = Inr (ok, c')"
  shows "preserved Q (inst c) (inst c')"
proof -
  consider "inst c' = inst c" | u d where "length u \<le> 32" "inst c' = (inst c)\<lparr>sock_out := sock_out (inst c) @ [auth_reply_msg u d]\<rparr>"
    using auth_request_sends [OF assms] by blast
  then show ?thesis by cases (simp_all add: preserved_sent wire_msg_reply)
qed

lemma preserved_dispatch:
  assumes "dispatch fuel os c cmd m = Inr (r, c')" and "length m \<le> 10000"
    and "\<And>n sr'. sr_handle_hwinfo os (inst c) m = Inr (n, sr') \<Longrightarrow> inst c' = sr' \<Longrightarrow> preserved Q (inst c) sr'"
  shows "preserved Q (inst c) (inst c')"
  using assms
  by (auto simp: dispatch_def dest: rtable_inst intro: preserved_packet auth_request_inst split: if_splits)

lemma preserved_step:
  assumes "sys_step c c'"
    and "\<And>os m n. sr_handle_hwinfo os (inst c) m = Inr (n, inst c') \<Longrightarrow> preserved Q (inst c) (inst c')"
  shows "preserved Q (inst c) (inst c')"
  using assms(1) by (rule sys_stepE) (auto intro: preserved_dispatch preserved_timeout assms(2))

lemma preserved_reachable:
  assumes "reachable step c0 c" and "\<And>c c'. step c c' \<Longrightarrow> preserved Q (inst c) (inst c')"
  shows "preserved Q (inst c0) (inst c)"
  using assms(1) by (induction rule: reachable.induct) (auto intro: preserved_trans assms(2))

end

text \<open>That the packets are complete does not depend on the interfaces; that they can be delivered does.\<close>

lemma complete_reachable: "reachable sys_step c0 c \<Longrightarrow> preserved complete (inst c0) (inst c)"
proof (erule whole.preserved_reachable)
  show "preserved complete (inst c) (inst c')" if "sys_step c c'" for c c'
    using that
  proof (rule whole.preserved_step)
    fix os m n assume "sr_handle_hwinfo os (inst c) m = Inr (n, inst c')"
    from hwinfo_frame [OF this] show "preserved complete (inst c) (inst c')"
      by (auto simp: preserved_def queue_inv_def queue_all_def complete_def list_all_iff)
  qed
qed

lemma orderly_reachable: "reachable orderly c0 c \<Longrightarrow> preserved deliverable (inst c0) (inst c)"
proof (erule deliver.preserved_reachable)
  show "preserved deliverable (inst c) (inst c')" if o: "orderly c c'" for c c'
    using o [unfolded orderly_def, THEN conjunct1]
  proof (rule deliver.preserved_step)
    fix os m n assume "sr_handle_hwinfo os (inst c) m = Inr (n, inst c')"
    from hwinfo_frame [OF this] show "preserved deliverable (inst c) (inst c')"
      using o deliverable_cong [of "inst c'" "inst c"]
      by (auto simp: orderly_def preserved_def queue_inv_def queue_deliverable_def list_all_iff)
  qed
qed

text \<open>After \<^verbatim>\<open>sr_init\<close> the invariant holds.\<close>

lemma router_inv_queue: "router_inv sr = queue_inv deliverable sr"
  by (simp add: router_inv_def queue_inv_def)

lemma queue_inv_init: "queue_inv Q (sr_init sr)"
  by (simp add: queue_inv_def sr_init_def sr_arpcache_init_def cache_inv_def times_ok_def queue_all_def)

text \<open>The main loop makes such steps.\<close>

lemma reachable_trans: "reachable step b c \<Longrightarrow> reachable step a b \<Longrightarrow> reachable step a c"
  by (induction rule: reachable.induct) (auto intro: reachable.step)

lemma reachable_one: "step c c' \<Longrightarrow> reachable step c c'"
  using reachable.start by (rule reachable.step)

lemma rounds_reachable: "rounds k fuel (inst c) envs = Inr sr \<Longrightarrow> reachable sys_step c (c\<lparr>inst := sr\<rparr>)"
proof (induction envs arbitrary: c)
  case Nil
  then have "sr = inst c" by (simp add: rounds_def)
  then have "c\<lparr>inst := sr\<rparr> = c" by simp
  then show ?case by (simp add: reachable.start)
next
  case (Cons env envs)
  then obtain sr1 where sr1: "sr_arpcache_timeout k fuel env (inst c) = Inr sr1" "rounds k fuel sr1 envs = Inr sr"
    by (auto simp: rounds_def)
  from Cons.IH [of "c\<lparr>inst := sr1\<rparr>"] sr1(2) have "reachable sys_step (c\<lparr>inst := sr1\<rparr>) (c\<lparr>inst := sr\<rparr>)" by simp
  then show ?case
    using reachable_one [where step = sys_step, OF sys_step.round [OF sr1(1)]] by (rule reachable_trans)
qed

lemma run_msgs_reachable:
  "run_msgs fuel os k c ms = Inr (b, c') \<Longrightarrow> \<forall>m \<in> set ms. msg_ok m \<Longrightarrow> reachable sys_step c c'"
proof (induction ms arbitrary: c k)
  case Nil
  then show ?case by (simp add: reachable.start)
next
  case (Cons m ms)
  then obtain r c1 where c1: "dispatch fuel (os k) c (command_of m) (host_order m) = Inr (r, c1)"
    "(if r = 1 then bnd (timeout_rounds fuel (os k) c1) (\<lambda>c. run_msgs fuel os (Suc k) c ms) else Inr (True, c1)) = Inr (b, c')" by auto
  have "sys_step c c1" using Cons.prems(2) by (intro sys_step.command [OF c1(1)]) (auto simp: msg_ok_def)
  then have first: "reachable sys_step c c1" by (rule reachable_one [where step = sys_step])
  show ?case
  proof (cases "r = 1")
    case True
    then obtain sr where sr: "rounds fuel fuel (inst c1) (ticks (os k)) = Inr sr" "run_msgs fuel os (Suc k) (c1\<lparr>inst := sr\<rparr>) ms = Inr (b, c')"
      using c1(2) by (auto simp: timeout_rounds_def)
    have "reachable sys_step (c1\<lparr>inst := sr\<rparr>) c'" using Cons.IH [OF sr(2)] Cons.prems(2) by simp
    then show ?thesis using rounds_reachable [OF sr(1)] first by (blast intro: reachable_trans)
  qed (use c1(2) first in simp)
qed

end
