(* ===== verification/Example.thy ===== *)
theory Example
  imports System
begin

text \<open>
  A small network, on which the theorems are applied: a router with two interfaces, \<open>eth1\<close> in
  10.0.1.0/24 and \<open>eth2\<close> in 192.168.2.0/24, a host 10.0.1.100 behind the first and a server 192.168.2.2
  behind the second. Addresses are in network byte order.
\<close>

section \<open>The router\<close>

definition mac_n :: "byte \<Rightarrow> mac" where
  "mac_n b = barr_of [2, 0, 0, 0, 0, b]"

definition eth1 :: sr_if where
  "eth1 = \<lparr> if_name = strncpy (text_bytes ''eth1''), if_addr = mac_n 1, if_ip = 0x0101000a, if_speed = 0 \<rparr>"

definition eth2 :: sr_if where
  "eth2 = \<lparr> if_name = strncpy (text_bytes ''eth2''), if_addr = mac_n 2, if_ip = 0x0102a8c0, if_speed = 0 \<rparr>"

abbreviation (input) host_ip :: u32 where "host_ip \<equiv> 0x6401000a"
abbreviation (input) server_ip :: u32 where "server_ip \<equiv> 0x0202a8c0"

definition route1 :: sr_rt where
  "route1 = \<lparr> rt_dest = 0x0001000a, rt_gw = 0, rt_mask = 0x00ffffff, rt_interface = strncpy (text_bytes ''eth1'') \<rparr>"

definition route2 :: sr_rt where
  "route2 = \<lparr> rt_dest = 0x0002a8c0, rt_gw = 0, rt_mask = 0x00ffffff, rt_interface = strncpy (text_bytes ''eth2'') \<rparr>"

definition known :: "u32 \<Rightarrow> byte \<Rightarrow> sr_arpentry" where
  "known ip b = \<lparr> ae_mac = mac_n b, ae_ip = ip, ae_added = 1000, ae_valid = True \<rparr>"

definition free_entry :: sr_arpentry where
  "free_entry = \<lparr> ae_mac = barr_of [], ae_ip = 0, ae_added = 0, ae_valid = False \<rparr>"

definition cache_of :: "sr_arpentry list \<Rightarrow> sr_arpreq list \<Rightarrow> sr_arpcache" where
  "cache_of es rs = \<lparr> entries = es @ replicate (100 - length es) free_entry, requests = rs, next_addr = 100 \<rparr>"

definition router :: "sr_arpcache \<Rightarrow> sr_instance" where
  "router c = \<lparr> sockfd = 3, user = barr_of [], host = barr_of [], template = barr_of [], topo_id = 0,
     if_list = [eth1, eth2], routing_table = [route1, route2], cache = c, logfile = None, sock_out = [] \<rparr>"

definition clock :: "int \<Rightarrow> env" where
  "clock t = \<lparr> now = t, tv = (t, 0), junk = (\<lambda>_. 0), write_ret = (\<lambda>m. int (length m)) \<rparr>"

lemma router_sel [simp]:
  "if_list (router c) = [eth1, eth2]" "routing_table (router c) = [route1, route2]" "cache (router c) = c"
  "sock_out (router c) = []" "logfile (router c) = None"
  by (simp_all add: router_def)

lemma clock_sel [simp]: "now (clock t) = t"
  by (simp add: clock_def)

lemma eth_sel [simp]:
  "if_addr eth1 = mac_n 1" "if_addr eth2 = mac_n 2" "if_ip eth1 = 0x0101000a" "if_ip eth2 = 0x0102a8c0"
  "if_name eth1 = strncpy (text_bytes ''eth1'')" "if_name eth2 = strncpy (text_bytes ''eth2'')"
  by (simp_all add: eth1_def eth2_def)

lemma eth_lookup [simp]:
  "sr_get_interface (router c) (text_bytes ''eth1'') = Some eth1"
  "sr_get_interface (router c) (text_bytes ''eth2'') = Some eth2"
  by (simp_all add: sr_get_interface_def) (simp_all add: strneq_def cstr_def text_bytes_def)

lemma route_iface [simp]:
  "rt_interface route1 = strncpy (text_bytes ''eth1'')" "rt_interface route2 = strncpy (text_bytes ''eth2'')"
  by (simp_all add: route1_def route2_def)

lemma swap_numerals:
  "ntohl 0x0001000a = 0x0a000100" "ntohl 0x0002a8c0 = 0xc0a80200" "ntohl 0x00ffffff = 0xffffff00"
  "ntohl 0x6401000a = 0x0a000164" "ntohl 0x0202a8c0 = 0xc0a80202" "ntohl 0x0101000a = 0x0a000101"
  "ntohl 0x08080808 = 0x08080808"
  by (simp_all add: bswap32_def st32_def u32_at_def)

lemma lpm_router [simp]:
  "sr_findLPMentry [route1, route2] 0x6401000a = Some route1"
  "sr_findLPMentry [route1, route2] 0x0202a8c0 = Some route2"
  "sr_findLPMentry [route1, route2] 0x0101000a = Some route1"
  "sr_findLPMentry [route1, route2] 0x08080808 = None"
  by (simp_all add: sr_findLPMentry_def route1_def route2_def Let_def swap_numerals)

text \<open>A shorter prefix that covers the second network.\<close>

definition route16 :: sr_rt where
  "route16 = \<lparr> rt_dest = 0x0000a8c0, rt_gw = 0, rt_mask = 0x0000ffff, rt_interface = strncpy (text_bytes ''eth1'') \<rparr>"

lemma lpm_route16:
  "sr_findLPMentry [route16, route2] 0x0202a8c0 = Some route2" "lpm_hit 0x0202a8c0 route16"
  "ntohl (rt_mask route16) = prefix_mask 16" "ntohl (rt_mask route2) = prefix_mask 24"
proof -
  have s: "ntohl 0x0000a8c0 = 0xc0a80000" "ntohl 0x0000ffff = 0xffff0000"
    by (simp_all add: bswap32_def st32_def u32_at_def)
  show "sr_findLPMentry [route16, route2] 0x0202a8c0 = Some route2" "lpm_hit 0x0202a8c0 route16"
    "ntohl (rt_mask route16) = prefix_mask 16" "ntohl (rt_mask route2) = prefix_mask 24"
    by (simp_all add: sr_findLPMentry_def lpm_hit_def route16_def route2_def Let_def swap_numerals s
        prefix_mask_def mask_eq_exp_minus_1)
qed

lemma free_invalid [simp]: "\<not> ae_valid free_entry"
  by (simp add: free_entry_def)

lemma entry_scan_free [simp]: "entry_scan ip a (replicate n free_entry) = a"
  by (induction n) (simp_all add: free_entry_def)

lemma lookup_cache_of: "sr_arpcache_lookup (cache_of es rs) ip = entry_scan ip None es"
  by (simp add: sr_arpcache_lookup_def cache_of_def entry_scan_append)

lemma requests_cache_of [simp]: "requests (cache_of es rs) = rs"
  by (simp add: cache_of_def)

lemma arp_view_cache_of: "arp_view (cache_of es rs) ip = map_option (\<lambda>e. (ae_mac e, ae_added e)) (entry_scan ip None es)"
  by (simp add: arp_view_def lookup_cache_of)

lemma free_slot_cache_of: "length es < 100 \<Longrightarrow> has_free_slot (cache_of es rs)"
  by (auto simp: has_free_slot_def cache_of_def free_entry_def)

lemma expire_free [simp]: "expire_entry t free_entry = free_entry"
  by (simp add: expire_entry_def free_entry_def)

lemma cache_inv_empty [simp]: "length es \<le> 100 \<Longrightarrow> cache_inv (cache_of es [])"
  by (simp add: cache_inv_def cache_of_def)

lemma routes_ok_router [simp]: "routes_ok (router c)"
  by (simp add: routes_ok_def)

lemma calm_empty [simp]: "length es \<le> 100 \<Longrightarrow> calm env rank (router (cache_of es []))"
  by (simp add: calm_def long_packets_def acyclic_errors_def given_up_def)

lemma enough_empty [simp]: "enough env rank (cache_of es []) 1"
  by (simp add: enough_def)

section \<open>Packets\<close>

definition ip_hdr_of :: "byte \<Rightarrow> byte \<Rightarrow> u32 \<Rightarrow> u32 \<Rightarrow> sr_ip_hdr" where
  "ip_hdr_of ttl p src dst = ip_checksummed \<lparr> ip_hl = 5, ip_v = 4, ip_tos = 0, ip_len = htons 46, ip_id = 7,
     ip_off = 0, ip_ttl = ttl, ip_p = p, ip_sum = 0, ip_src = src, ip_dst = dst \<rparr>"

text \<open>A frame from the host to the router's first interface.\<close>

definition ip_frame :: "sr_ip_hdr \<Rightarrow> byte list \<Rightarrow> byte list" where
  "ip_frame h payload = wr_eth \<lparr> ether_dhost = mac_n 1, ether_shost = mac_n 100, ether_type = htons ethertype_ip \<rparr> @
     wr_ip h @ payload"

definition echo_payload :: "byte list" where
  "echo_payload = (let c = \<lparr> icmp_type = 8, icmp_code = 0, icmp_sum = 0 \<rparr>; d = replicate 22 0 in
     wr_icmp (c\<lparr>icmp_sum := cksum (wr_icmp c @ d)\<rparr>) @ d)"

definition arp_frame :: "u16 \<Rightarrow> mac \<Rightarrow> u32 \<Rightarrow> u32 \<Rightarrow> byte list" where
  "arp_frame op sha sip tip =
     wr_eth \<lparr> ether_dhost = mac_n 2, ether_shost = sha, ether_type = htons ethertype_arp \<rparr> @
     wr_arp \<lparr> ar_hrd = htons arp_hrd_ethernet, ar_pro = htons ethertype_ip, ar_hln = 6, ar_pln = 4, ar_op = htons op,
       ar_sha = sha, ar_sip = sip, ar_tha = mac_n 2, ar_tip = tip \<rparr>"

lemma ip_hdr_of_sel [simp]:
  "ip_ttl (ip_hdr_of ttl p src dst) = ttl" "ip_p (ip_hdr_of ttl p src dst) = p"
  "ip_src (ip_hdr_of ttl p src dst) = src" "ip_dst (ip_hdr_of ttl p src dst) = dst"
  "ip_valid (ip_hdr_of ttl p src dst)"
  by (simp_all add: ip_hdr_of_def ip_checksummed_def ip_valid_def)

lemma ip_frame_simps [simp]:
  "length (ip_frame h pl) = 34 + length pl" "eth_at 0 (ip_frame h pl) =
     \<lparr> ether_dhost = mac_n 1, ether_shost = mac_n 100, ether_type = htons ethertype_ip \<rparr>"
  "ip_at 14 (ip_frame h pl) = h" "drop 38 (ip_frame h pl) = drop 4 pl" "icmp_at 34 (ip_frame h pl) = icmp_at 0 pl"
  by (simp_all add: ip_frame_def) (simp add: seg_def)

lemma echo_payload_simps [simp]: "length echo_payload = 26" "icmp_type (icmp_at 0 echo_payload) = 8"
  by (simp_all add: echo_payload_def Let_def seg_def)

lemma echo_payload_valid: "icmp_valid (ip_frame h echo_payload)"
  by (simp add: icmp_valid_def) (simp add: echo_payload_def Let_def seg_def)

lemma blocked_example [simp]:
  "\<not> blocked_net 0x6401000a" "\<not> blocked_net 0x0202a8c0" "\<not> blocked_net 0x0101000a" "\<not> blocked_net 0x0102a8c0" "\<not> blocked_net 0x08080808"
  "blocked_net 0x0502000a"
  by (simp_all add: blocked_net_def st32_def)

lemma accepted_frame:
  "length pl = 26 \<Longrightarrow> \<not> blocked_net src \<Longrightarrow> \<not> blocked_net dst \<Longrightarrow> accepted (ip_frame (ip_hdr_of ttl p src dst) pl) 60"
  by (simp add: accepted_def)

lemma arp_frame_simps [simp]:
  "length (arp_frame op sha sip tip) = 42"
  "eth_at 0 (arp_frame op sha sip tip) = \<lparr> ether_dhost = mac_n 2, ether_shost = sha, ether_type = htons ethertype_arp \<rparr>"
  "arp_at 14 (arp_frame op sha sip tip) = \<lparr> ar_hrd = htons arp_hrd_ethernet, ar_pro = htons ethertype_ip, ar_hln = 6,
     ar_pln = 4, ar_op = htons op, ar_sha = sha, ar_sip = sip, ar_tha = mac_n 2, ar_tip = tip \<rparr>"
  by (simp_all add: arp_frame_def) (simp add: seg_def)

definition udp_frame :: "byte list" where
  "udp_frame = ip_frame (ip_hdr_of 64 ip_protocol_udp 0x6401000a 0x0202a8c0) (replicate 26 0)"

lemma udp_frame_simps [simp]:
  "length udp_frame = 60" "ip_at 14 udp_frame = ip_hdr_of 64 ip_protocol_udp 0x6401000a 0x0202a8c0"
  "eth_at 0 udp_frame = \<lparr> ether_dhost = mac_n 1, ether_shost = mac_n 100, ether_type = htons ethertype_ip \<rparr>"
  "accepted udp_frame 60"
  by (simp_all add: udp_frame_def accepted_frame)

text \<open>A run of the handler for the theorems that start from one.\<close>

lemma udp_run: "\<exists>sr'. sr_handlepacket 1 (clock 2000) (router (cache_of [] [])) udp_frame 60 (text_bytes ''eth1'') = Inr sr'"
proof -
  have "\<exists>sr'. sr_handlepacket 1 (clock 2000) (router (cache_of [] [])) udp_frame 60 (text_bytes ''eth1'') = Inr sr'
      \<and> calm (clock 2000) (\<lambda>_. 0) sr'"
    by (rule handlepacket_returns [where i = eth1]) (simp_all add: given_up_def enough_def)
  then show ?thesis by blast
qed

section \<open>A packet that waits\<close>

text \<open>The frame of a forwarded packet waits for the server's address, one ARP request was sent.\<close>

definition waiting_pkt :: sr_packet where
  "waiting_pkt = new_pkt (wr_eth \<lparr> ether_dhost = mac_n 0, ether_shost = mac_n 2, ether_type = htons ethertype_ip \<rparr> @
     wr_ip (ip_hdr_of 63 ip_protocol_udp 0x6401000a 0x0202a8c0) @ replicate 26 0) 60 (text_bytes ''eth2'')"

definition waiting :: sr_arpreq where
  "waiting = \<lparr> rq_id = 1, rq_ip = 0x0202a8c0, rq_sent = 1999, rq_times_sent = 1, rq_packets = [waiting_pkt] \<rparr>"

lemma waiting_sel [simp]:
  "rq_id waiting = 1" "rq_ip waiting = 0x0202a8c0" "rq_sent waiting = 1999" "rq_times_sent waiting = 1"
  "rq_packets waiting = [waiting_pkt]"
  by (simp_all add: waiting_def)

lemma one_attempt [simp]: "\<not> 5 \<le> (1 :: u32)"
  by (simp add: word_le_nat_alt)

lemma waiting_deliverable [simp]: "deliverable (router c) waiting_pkt"
  unfolding waiting_pkt_def by (rule deliverable_new [where i = eth2]) (simp_all add: frame_ok_def)

lemma waiting_ok [simp]: "packet_ok waiting_pkt"
  unfolding waiting_pkt_def by (rule packet_ok_new) simp_all

lemma cache_inv_waiting [simp]: "length es \<le> 100 \<Longrightarrow> cache_inv (cache_of es [waiting])"
  by (simp add: cache_inv_def cache_of_def)

text \<open>The same request after five attempts.\<close>

definition exhausted_req :: sr_arpreq where
  "exhausted_req = waiting\<lparr>rq_times_sent := 5\<rparr>"

lemma exhausted_req_sel [simp]:
  "rq_id exhausted_req = 1" "rq_ip exhausted_req = 0x0202a8c0" "rq_sent exhausted_req = 1999"
  "rq_times_sent exhausted_req = 5" "rq_packets exhausted_req = [waiting_pkt]"
  by (simp_all add: exhausted_req_def)

lemma cache_inv_exhausted [simp]: "length es \<le> 100 \<Longrightarrow> cache_inv (cache_of es [exhausted_req])"
  by (simp add: cache_inv_def cache_of_def)

lemma waiting_pkt_simps [simp]:
  "length (pk_buf waiting_pkt) = 60" "pk_src waiting_pkt = 0x6401000a" "quotable (pk_buf waiting_pkt) (pk_len waiting_pkt)"
  by (simp_all add: waiting_pkt_def new_pkt_def pk_src_def quotable_def frame_ok_def)

lemma calm_exhausted [simp]: "length es \<le> 100 \<Longrightarrow> calm env rank (router (cache_of es [exhausted_req]))"
  by (simp add: calm_def long_packets_def acyclic_errors_def given_up_def)

text \<open>An error message of the router to its own first address, sent there by a packet with a forged source.\<close>

definition land_pkt :: sr_packet where
  "land_pkt = new_pkt (ip_frame (ip_hdr_of 255 ip_protocol_icmp 0x0101000a 0x0101000a) (replicate 36 0)) 70 (text_bytes ''eth1'')"

definition land_req :: sr_arpreq where
  "land_req = \<lparr> rq_id = 1, rq_ip = 0x0101000a, rq_sent = 1999, rq_times_sent = 5, rq_packets = [land_pkt] \<rparr>"

lemma land_sel [simp]:
  "rq_id land_req = 1" "rq_ip land_req = 0x0101000a" "rq_sent land_req = 1999" "rq_times_sent land_req = 5"
  "rq_packets land_req = [land_pkt]" "length (pk_buf land_pkt) = 70" "pk_src land_pkt = 0x0101000a"
  by (simp_all add: land_req_def land_pkt_def new_pkt_def pk_src_def)

lemma cache_inv_land [simp]: "cache_inv (cache_of [] [land_req])"
proof -
  have "packet_ok land_pkt" unfolding land_pkt_def by (rule packet_ok_new) simp_all
  then show ?thesis by (simp add: cache_inv_def cache_of_def)
qed

text \<open>Requests whose last attempt was at a given time, with the source of their packet in the table.\<close>

definition waiting_since :: "int \<Rightarrow> sr_arpreq" where
  "waiting_since t = waiting\<lparr>rq_sent := t\<rparr>"

definition exhausted_since :: "int \<Rightarrow> sr_arpreq" where
  "exhausted_since t = exhausted_req\<lparr>rq_sent := t\<rparr>"

lemma since_sel [simp]:
  "rq_id (waiting_since t) = 1" "rq_ip (waiting_since t) = 0x0202a8c0" "rq_sent (waiting_since t) = t"
  "rq_times_sent (waiting_since t) = 1" "rq_packets (waiting_since t) = [waiting_pkt]"
  "rq_id (exhausted_since t) = 1" "rq_ip (exhausted_since t) = 0x0202a8c0" "rq_sent (exhausted_since t) = t"
  "rq_times_sent (exhausted_since t) = 5" "rq_packets (exhausted_since t) = [waiting_pkt]"
  by (simp_all add: waiting_since_def exhausted_since_def)

lemma cache_inv_since [simp]:
  "length es \<le> 100 \<Longrightarrow> cache_inv (cache_of es [waiting_since t])"
  "length es \<le> 100 \<Longrightarrow> cache_inv (cache_of es [exhausted_since t])"
  by (simp_all add: cache_inv_def cache_of_def)

lemma expired_router:
  "expired t (router (cache_of [known ip b] rs)) = router (cache_of [expire_entry t (known ip b)] rs)"
  by (simp add: expired_def sr_arpcache_expire_def cache_of_def router_def)

lemma expire_known: "t \<le> 1015 \<Longrightarrow> expire_entry t (known ip b) = known ip b"
  by (simp add: expire_entry_def known_def)

lemma ready_example:
  "ready (router (cache_of [known host_ip 100] rs)) (waiting_since t)"
  "ready (router (cache_of [known host_ip 100] rs)) (exhausted_since t)"
  by (simp_all add: ready_def routed_def answerable_def lookup_cache_of known_def)

lemma round_example:
  assumes "1 < now env - t"
  shows "round_req env (exhausted_since t) = None"
    and "round_out env (router (cache_of [known host_ip 100] rs)) (exhausted_since t) =
      [vns_frame (list_of (rt_interface route1)) (unreachable_frame (mac_n 100) eth1 (pk_buf waiting_pkt))]"
  using assms by (simp_all add: round_req_def round_out_def due_def unreachable_out_def lookup_cache_of known_def)

lemma replaced_queue: "(router c)\<lparr>cache := c', logfile := log\<rparr> = (router c')\<lparr>logfile := log\<rparr>"
    "(cache_of es rs)\<lparr>requests := rs'\<rparr> = cache_of es rs'"
  by (simp_all add: router_def cache_of_def)

lemma server_unknown: "sr_arpcache_lookup (cache_of [known host_ip b] rs) server_ip = None"
  by (simp add: lookup_cache_of known_def)

lemma routed_example: "routed (router c) server_ip"
  by (simp add: routed_def)

lemma answerable_example:
  "answerable (router (cache_of [known host_ip 100] rs)) (new_pkt (pk_buf waiting_pkt) 60 (text_bytes ''eth2''))"
proof -
  have "new_pkt (pk_buf waiting_pkt) 60 (text_bytes ''eth2'') = waiting_pkt" by (simp add: waiting_pkt_def new_pkt_def)
  then show ?thesis using ready_example(1) [of rs 0] by (simp add: ready_def)
qed

text \<open>A round after the reply has emptied the queue.\<close>

lemma answered_round:
  "\<exists>sr1. rounds 0 1 ((router (cache_of [] [waiting]))\<lparr>cache :=
      snd (sr_arpcache_insert 2000 (cache_of [] [waiting]) (mac_n 7) server_ip)\<rparr>) [clock 2001, clock 2002] = Inr sr1 \<and> sock_out sr1 = []"
  using rounds_idle [of "(router (cache_of [] [waiting]))\<lparr>cache := snd (sr_arpcache_insert 2000 (cache_of [] [waiting]) (mac_n 7) server_ip)\<rparr>"
      0 1 "[clock 2001, clock 2002]"]
  by (auto simp: sr_arpcache_insert_def)

text \<open>A packet for the server, whose hardware address is not known, and then the server's ARP reply.\<close>

definition first_and_reply :: "arrival list" where
  "first_and_reply = [(clock 2000, udp_frame, 60, text_bytes ''eth1''),
     (clock 2001, arp_frame arp_op_reply (mac_n 7) 0x0202a8c0 0x0102a8c0, 42, text_bytes ''eth2'')]"

lemma smooth_example: "smooth_run (Suc 0) (router (cache_of [] [])) first_and_reply"
proof -
  let ?sr = "router (cache_of [] [])"
  obtain log c out where h: "sr_handlepacket (Suc 0) (clock 2000) ?sr udp_frame 60 (text_bytes ''eth1'') =
      Inr (?sr\<lparr>cache := c, logfile := log, sock_out := out\<rparr>)" and c: "entries c = entries (cache_of [] [])"
    using forward_first [of udp_frame 60 ?sr route2 eth2 "clock 2000" 0 "text_bytes ''eth1''"]
    by (auto simp: own_addr_def lookup_cache_of pend_def req_packets_def)
  have ok: "arrival_ok ?sr (clock 2000, udp_frame, 60, text_bytes ''eth1'')"
    by (simp add: arrival_ok_def decision_for_def decide_def dropped_def decide_ip_def own_addr_def along_def lookup_cache_of
        ethertype_arp_def ethertype_ip_def)
  have slot: "has_free_slot c" "arp_view c 0x0202a8c0 = None"
    using free_slot_cache_of [of "[]" "[]"] arp_view_cache_of [of "[]" "[]"] c
    by (simp_all add: has_free_slot_def arp_view_def sr_arpcache_lookup_def)
  have i: "sr_get_interface (?sr\<lparr>cache := c, logfile := log, sock_out := out\<rparr>) (text_bytes ''eth2'') = Some eth2"
    using get_interface_cong [of "?sr\<lparr>cache := c, logfile := log, sock_out := out\<rparr>" ?sr] by simp
  show ?thesis
    using h ok slot i
    by (simp add: first_and_reply_def handle_arrival_def)
      (simp add: arrival_ok_def decision_for_def decide_def dropped_def decide_arp_def Let_def protocol_numbers
        split: sum.split)
qed

text \<open>A second request that was given up, for the host, with an error message of the router waiting.\<close>

definition error_req :: sr_arpreq where
  "error_req = \<lparr> rq_id = 2, rq_ip = 0x6401000a, rq_sent = 1999, rq_times_sent = 5, rq_packets = [land_pkt] \<rparr>"

lemma error_req_sel [simp]:
  "rq_id error_req = 2" "rq_ip error_req = 0x6401000a" "rq_sent error_req = 1999" "rq_times_sent error_req = 5"
  "rq_packets error_req = [land_pkt]"
  by (simp_all add: error_req_def)

lemma calm_chain:
  "calm env (\<lambda>ip. if ip = 0x0202a8c0 then 1 else 0) (router (cache_of [] [exhausted_req, error_req]))"
proof -
  have p: "packet_ok land_pkt" unfolding land_pkt_def by (rule packet_ok_new) simp_all
  then have "cache_inv (cache_of [] [exhausted_req, error_req])" by (simp add: cache_inv_def cache_of_def)
  moreover have "long_packets (cache_of [] [exhausted_req, error_req])"
    using p by (simp add: long_packets_def) (simp add: quotable_def frame_ok_def land_pkt_def new_pkt_def)
  ultimately show ?thesis by (simp add: calm_def acyclic_errors_def given_up_def)
qed

section \<open>A process\<close>

definition eth3 :: sr_if where
  "eth3 = \<lparr> if_name = strncpy (text_bytes ''eth3''), if_addr = mac_n 3, if_ip = 0x0103000a, if_speed = 0 \<rparr>"

definition machine :: "int \<Rightarrow> os" where
  "machine t = \<lparr> proc = clock t, fresh_if = (\<lambda>_. eth1), may_write = (\<lambda>_. True), resolves = (\<lambda>_. True),
     socket_ret = 3, connect_ret = 0, ticks = [] \<rparr>"

definition machine_at :: "nat \<Rightarrow> os" where
  "machine_at k = machine (2000 + int k)"

text \<open>A machine on which the commands come three seconds apart, with two rounds of the timeout thread after each.\<close>

definition slow_machine :: "nat \<Rightarrow> os" where
  "slow_machine k = (machine (2000 + 3 * int k))\<lparr>ticks := [clock (2001 + 3 * int k), clock (2002 + 3 * int k)]\<rparr>"

text \<open>A process with a key file; its input arrives in two pieces with a signal in between.\<close>

definition process :: "sr_instance \<Rightarrow> net_event list \<Rightarrow> conn" where
  "process sr es = \<lparr> inst = sr, input = es, files = [text_bytes ''auth_key'' \<mapsto> replicate 64 97], closed = False \<rparr>"

definition in_pieces :: "byte list \<Rightarrow> net_event list" where
  "in_pieces m = [Data (take 1 m), Interrupted, Data (drop 1 m)]"

lemma process_input [simp]:
  "inst (process sr es) = sr" "input (process sr es) = es" "stream (in_pieces m) = m"
  "(process sr es)\<lparr>input := es'\<rparr> = process sr es'" "(process sr es)\<lparr>inst := sr'\<rparr> = process sr' es"
  by (simp_all add: process_def in_pieces_def)

lemma in_pieces_no_failure [simp]: "Failed \<notin> set (in_pieces m)"
  by (simp add: in_pieces_def)

lemma machine_ok [simp]:
  "reachable_server (machine t) server" "writes_ok (machine t)" "socket_ret (machine t) = 3" "proc (machine t) = clock t"
  by (simp_all add: reachable_server_def writes_ok_def machine_def clock_def)

lemma machine_at_ok [simp]:
  "reachable_server (machine_at k) server" "writes_ok (machine_at k)" "socket_ret (machine_at k) = 3"
  by (simp_all add: machine_at_def)

lemma machine_at_rounds [simp]: "timeout_rounds fuel (machine_at k) c = Inr c"
  by (simp add: timeout_rounds_def rounds_def machine_at_def machine_def)

lemma slow_machine_ok [simp]:
  "reachable_server (slow_machine k) server" "writes_ok (slow_machine k)" "1 < now (proc (slow_machine k))"
  "resends (now (proc (slow_machine k))) (ticks (slow_machine k)) = 1"
  by (simp_all add: slow_machine_def reachable_server_def writes_ok_def machine_def clock_def)

lemma same_socket [simp]: "(router c)\<lparr>sockfd := 3, sock_out := out\<rparr> = (router c)\<lparr>sock_out := out\<rparr>"
  by (simp add: router_def)

lemma list_of_empty: "list_of (barr_of [] :: ('n::len) barr) = replicate LENGTH('n) 0"
  by (simp add: list_of_barr_of)

lemma router_strings [simp]:
  "cstr (list_of (user (router c))) = []" "cstr (list_of (template (router c))) = []" "sockfd (router c) = 3"
  "0 \<in> set (list_of (user (router c)))"
  by (simp_all add: router_def list_of_empty cstr_def)

lemma key_file: "files (process sr es) (text_bytes ''auth_key'') = Some (replicate 64 97)"
  by (simp add: process_def)

lemma credentials_process: "credentials (process (router c) es) (replicate 64 97)"
  by (simp add: credentials_def key_file)

lemma eth_name_short: "length (cstr (text_bytes ''eth1'')) < 16"
  by (simp add: cstr_def text_bytes_def)

definition stack_junk :: rt_words where
  "stack_junk = \<lparr> w_dest = barr_of [], w_gw = barr_of [], w_mask = barr_of [], w_iface = barr_of [] \<rparr>"

lemma loadable_example: "loadable route1" "loadable route2"
  by (simp_all add: loadable_def plain_name_def is_space_def cstr_def text_bytes_def strncpy_def list_of_barr_of)

text \<open>A start of the program: the routing table is in its file, the options name a user and a topology.\<close>

definition with_table :: "sr_rt list \<Rightarrow> conn \<Rightarrow> conn" where
  "with_table table c = c\<lparr>files := (files c)(text_bytes ''rtable'' \<mapsto> concat (map sr_print_routing_entry table))\<rparr>"

abbreviation (input) new_log :: "byte list option" where
  "new_log \<equiv> sr_dump_open (\<lambda>_. Some []) [] (text_bytes ''log'') 0 1024"

definition booting :: boot where
  "booting = \<lparr> pw_name = None, stack_words = (\<lambda>_. stack_junk), log_fopen = (\<lambda>_. None), std_out = [] \<rparr>"

definition example_opts :: opts where
  "example_opts = default_opts\<lparr>o_user := Some (text_bytes ''me''), o_topo := atoi (text_bytes ''7'')\<rparr>"

lemma example_parses:
  "parse_opts default_opts [(CHR ''u'', text_bytes ''me''), (CHR ''t'', text_bytes ''7'')] = Some example_opts"
  by (simp add: example_opts_def)

lemma example_opts_sel [simp]:
  "o_template example_opts = None" "o_logfile example_opts = None" "cstr (o_rtable example_opts) = text_bytes ''rtable''"
  "cstr (user_name booting example_opts) = text_bytes ''me''"
  by (simp_all add: example_opts_def default_opts_def user_name_def cstr_def) (simp_all add: text_bytes_def)

lemma with_table_simps [simp]:
  "inst (with_table t c) = inst c" "input (with_table t c) = input c"
  "(with_table t c)\<lparr>inst := sr\<rparr> = with_table t (c\<lparr>inst := sr\<rparr>)" "(with_table t c)\<lparr>input := es\<rparr> = with_table t (c\<lparr>input := es\<rparr>)"
  "files (with_table t c) (text_bytes ''rtable'') = Some (concat (map sr_print_routing_entry t))"
  "files (with_table t (process sr es)) (text_bytes ''auth_key'') = Some (replicate 64 97)"
  by (simp_all add: with_table_def process_def) (simp_all add: text_bytes_def)

lemma example_table_supplied:
  "table_supplied os example_opts [route1, route2] (with_table [route1, route2] c) [] (files (with_table [route1, route2] c))"
  by (simp add: table_supplied_def loadable_example)

text \<open>A start with a template: the server sends the routing table of the host \<open>h\<close>.\<close>

definition template_opts :: opts where
  "template_opts = default_opts\<lparr>o_user := Some (text_bytes ''me''), o_template := Some (text_bytes ''two''), o_rtable := text_bytes ''rtable.h''\<rparr>"

lemma template_parses:
  "parse_opts default_opts [(CHR ''u'', text_bytes ''me''), (CHR ''T'', text_bytes ''two''), (CHR ''r'', text_bytes ''rtable.h'')] =
    Some template_opts"
  by (simp add: template_opts_def)

lemma template_opts_sel [simp]:
  "o_logfile template_opts = None" "cstr (user_name booting template_opts) = text_bytes ''me''"
  by (simp_all add: template_opts_def default_opts_def user_name_def cstr_def) (simp_all add: text_bytes_def)

definition table_msg :: "byte list" where
  "table_msg = rtable_msg (text_bytes ''h'') (concat (map sr_print_routing_entry [route1, route2]))"

lemma template_table_supplied:
  "table_supplied (slow_machine k) template_opts [route1, route2] c table_msg
    ((files c)(text_bytes ''rtable.h'' \<mapsto> concat (map sr_print_routing_entry [route1, route2])))"
proof -
  have "length (sr_print_routing_entry route1) \<le> 80" "length (sr_print_routing_entry route2) \<le> 80"
    using loadable_example entry_length by (simp_all add: loadable_def)
  then have "40 + length (concat (map sr_print_routing_entry [route1, route2])) \<le> 10000" by simp
  moreover have "cstr (text_bytes ''two'') \<noteq> []" "cstr (text_bytes ''h'') = text_bytes ''h''"
    "cstr (text_bytes ''rtable.h'') = text_bytes ''rtable.'' @ text_bytes ''h''" "length (text_bytes ''h'') < 32"
    "text_bytes ''rtable.h'' = text_bytes ''rtable.'' @ text_bytes ''h''"
    by (simp_all add: cstr_def text_bytes_def)
  ultimately show ?thesis
    by (simp add: table_supplied_def Let_def loadable_example template_opts_def table_msg_def slow_machine_def machine_def)
      (rule exI [of _ "text_bytes ''h''"], simp)
qed

text \<open>The packet for the server crosses the router.\<close>

lemma eth_names_end: "names_end [eth1, eth2]" "names_end [eth3]"
  by (simp_all add: names_end_def eth1_def eth2_def eth3_def strncpy_def list_of_barr_of cstr_def text_bytes_def)

lemma crosses_example:
  "crosses [eth1, eth2] [route1, route2] (text_bytes ''eth1'') udp_frame route2 eth2 (text_bytes ''eth2'')
    (arp_frame arp_op_reply (mac_n 7) 0x0202a8c0 0x0102a8c0)"
  "\<forall>e \<in> set [route1, route2]. if_walk [eth1, eth2] (list_of (rt_interface e)) \<noteq> None"
proof -
  have w: "if_walk [eth1, eth2] n = sr_get_interface (router (cache_of [] [])) n" for n by (simp add: sr_get_interface_def)
  show "\<forall>e \<in> set [route1, route2]. if_walk [eth1, eth2] (list_of (rt_interface e)) \<noteq> None"
    by (simp add: w del: if_walk.simps)
  have "length (cstr (text_bytes ''eth2'')) < 16" by (simp add: cstr_def text_bytes_def)
  then show "crosses [eth1, eth2] [route1, route2] (text_bytes ''eth1'') udp_frame route2 eth2 (text_bytes ''eth2'')
      (arp_frame arp_op_reply (mac_n 7) 0x0202a8c0 0x0102a8c0)"
    using eth_name_short eth_names_end by (simp add: crosses_def w arp_reply_for_def del: if_walk.simps)
qed

lemma length_me: "length (text_bytes ''me'') < 32"
  by (simp add: text_bytes_def)

text \<open>The process with a waiting packet: a frame from the server was handled after \<^verbatim>\<open>sr_init\<close>.\<close>

lemma init_router: "sr_init (router (cache_of [] [])) = router (cache_of [] [])"
  by (simp add: sr_init_def sr_arpcache_init_def cache_of_def free_entry_def router_def)

lemma udp_waits:
  "\<exists>sr'. sr_handlepacket 1 (clock 2000) (router (cache_of [] [])) udp_frame 60 (text_bytes ''eth1'') = Inr sr'
    \<and> requests (cache sr') \<noteq> []"
proof -
  let ?sr = "router (cache_of [] [])" and ?b = "forward_frame (mac_n 1) (mac_n 2) udp_frame"
  have "sr_handlepacket 1 (clock 2000) ?sr udp_frame 60 (text_bytes ''eth1'') =
      transmit (Suc 0) (clock 2000) ?sr 0x0202a8c0 ?b 60 (list_of (rt_interface route2))"
    by (simp add: handlepacket_accepted own_addr_def forward_packet_eq)
  moreover have "frame_ok ?b 60" by (simp add: frame_ok_def)
  then obtain log c out where "transmit (Suc 0) (clock 2000) ?sr 0x0202a8c0 ?b 60 (list_of (rt_interface route2)) =
      Inr (?sr\<lparr>cache := c, logfile := log, sock_out := out\<rparr>)" and p: "pend c 0x0202a8c0 \<noteq> None"
    using transmit_first [of ?sr server_ip ?b 60 "clock 2000" route2 eth2 0 "list_of (rt_interface route2)"]
    by (fastforce simp: lookup_cache_of pend_def [of "cache_of [] []"] req_packets_def)
  moreover have "requests c \<noteq> []" using p by (auto simp: pend_def req_packets_def)
  ultimately show ?thesis by simp
qed

lemma reach_waiting:
  "\<exists>c'. reachable orderly (process (sr_init (router (cache_of [] []))) []) c' \<and> reachable sys_step (process (sr_init (router (cache_of [] []))) []) c'
    \<and> requests (cache (inst c')) \<noteq> []"
proof -
  let ?c = "process (router (cache_of [] [])) []" and ?m = "vns_frame (text_bytes ''eth1'') udp_frame"
  obtain sr' where h: "sr_handlepacket 1 (clock 2000) (router (cache_of [] [])) udp_frame 60 (text_bytes ''eth1'') = Inr sr'"
    "requests (cache sr') \<noteq> []" using udp_waits by blast
  have "\<not> arp_for_other eth1 udp_frame" by (simp add: arp_for_other_def ethertype_arp_def ethertype_ip_def)
  then have d: "dispatch 1 (machine 2000) ?c VNSPACKET (host_order ?m) = Inr (1, process sr' [])"
    using h(1) eth_name_short by (simp add: dispatch_def vns_packet_frame [where i = eth1] sr_log_packet_def)
  have s: "sys_step ?c (process sr' [])"
    using vns_frame_parts(1) [of udp_frame "text_bytes ''eth1''"]
    by (intro sys_step.command [OF d]) (simp_all add: host_order_def)
  then have "orderly ?c (process sr' [])" by (simp add: orderly_def)
  then have "reachable orderly ?c (process sr' [])" "reachable sys_step ?c (process sr' [])"
    using s reachable_one [where step = orderly] reachable_one [where step = sys_step] by blast+
  then show ?thesis using h(2) unfolding init_router by (intro exI [of _ "process sr' []"]) simp
qed

end
