(* ===== verification/Spec2Isabelle.thy ===== *)
theory Spec2Isabelle
  imports Example
begin

text \<open>
  A verification of the router of this repository: an IPv4 router for a virtual network, written in C,
  that exchanges Ethernet frames with a server (VNS) over a TCP socket.

  \<^bold>\<open>The program.\<close> \<^verbatim>\<open>src/sr_vns_comm.c\<close> receives messages from the server: a frame that arrives on an
  interface is handed to \<^verbatim>\<open>sr_handlepacket\<close> (\<^verbatim>\<open>src/sr_router.c\<close>), which answers ARP and echo requests,
  sends ICMP errors, forwards packets along the routing table (\<^verbatim>\<open>src/sr_rt.c\<close>, filled at start-up) and learns
  from ARP replies. Outgoing frames go through \<^verbatim>\<open>sr_send_packet\<close>, which logs them (\<^verbatim>\<open>src/sr_dumper.c\<close>) and writes
  them to the socket. Packets whose next hop has no known hardware address wait in the ARP cache
  (\<^verbatim>\<open>src/sr_arpcache.c\<close>); a second thread expires old mappings and repeats or gives up ARP requests once a second.

  \<^bold>\<open>The theories.\<close>
  \<^item> \<open>Prelude\<close>: bytes, buffers, byte order, C strings, results with faults.
  \<^item> \<open>Protocol\<close>: the packed headers of \<^verbatim>\<open>src/sr_protocol.h\<close>, each an instance of the locale \<open>packed_struct\<close>.
  \<^item> \<open>Utils\<close>: the checksum of \<^verbatim>\<open>src/sr_utils.c\<close> and its reference, one's complement arithmetic.
  \<^item> \<open>Inet\<close>: the address conversions and line input of the C library that the router calls.
  \<^item> \<open>Sha1\<close>: \<^verbatim>\<open>src/sha1.c\<close>, the standard's definition of the digest, and the locale \<open>incremental\<close> of hash functions that
    are fed in pieces, which the code is shown to be.
  \<^item> \<open>Instance\<close>: the state, \<^verbatim>\<open>struct sr_instance\<close> and what it owns, as records.
  \<^item> \<open>Interfaces\<close> (\<^verbatim>\<open>src/sr_if.c\<close>), \<open>Routing\<close> (\<^verbatim>\<open>src/sr_rt.c\<close>, \<^verbatim>\<open>sr_findLPMentry\<close>, \<^verbatim>\<open>sr_verify_routing_table\<close>;
    locale \<open>best_match\<close>), \<open>Rtfile\<close> (\<^verbatim>\<open>sr_load_rt\<close> and the printing of the table), \<open>Arpcache\<close> (the table and the
    queue of \<^verbatim>\<open>src/sr_arpcache.c\<close>; locales \<open>mapping_table\<close> and \<open>pending_queue\<close>), \<open>Vnscommand\<close> (the messages of
    \<^verbatim>\<open>src/vnscommand.h\<close>), \<open>Dumper\<close> (the packet log), \<open>Sending\<close> (\<^verbatim>\<open>sr_send_packet\<close>; locale \<open>frame_sender\<close>).
  \<^item> \<open>Frames\<close>: the frames the router originates, written down from the protocols.
  \<^item> \<open>Arpreq\<close>: \<^verbatim>\<open>sr_arpcache_handle_arpreq\<close>, the sweep and the timeout round; locale \<open>arp_relation\<close> for what every
    run of them, and every round, preserves. \<open>Giving_up\<close>: when they return, what giving up sends. \<open>Rounds\<close>: the exact effect of a
    round, and of rounds one after the other.
  \<^item> \<open>Router\<close>: \<^verbatim>\<open>sr_handlepacket\<close>, one definition for each branch, and each branch in terms of its frame.
    \<open>Router_safe\<close>: what it preserves and that it returns. \<open>Delivery\<close>: queued packets are delivered by the reply, and what
    is sent is well-formed; locale \<open>waiting_property\<close> for the properties that the handler keeps of all waiting packets, of which
    there are two: to be a complete frame, and to carry the address of its interface. \<open>Resolution\<close>: a packet with an unknown next hop,
    from its arrival to its delivery, with rounds of the timeout thread meanwhile.
  \<^item> \<open>Abstract_router\<close>: what a router does, as decisions and their effect on an abstract network state, and that the
    packet handler does it, for any number of packets.
  \<^item> \<open>Threads\<close>: the two sequences of calls in the packet handler that hold a pointer to a request while the lock is free, with
    rounds of the timeout thread in between, and what such a pointer is good for afterwards.
  \<^item> \<open>Receiving\<close>: the loops around \<^verbatim>\<open>recv\<close> and \<^verbatim>\<open>read\<close>, for any cutting of the stream. \<open>Server\<close>: the handlers of
    \<^verbatim>\<open>src/sr_vns_comm.c\<close>, \<^verbatim>\<open>sr_read_from_server_expect\<close> and \<^verbatim>\<open>sr_connect_to_server\<close>. \<open>Session\<close>: what each command does
    when it arrives whole (locale \<open>byte_source\<close>). \<open>Startup\<close>: \<^verbatim>\<open>src/sr_main.c\<close>, the main loop as a
    run over commands with the rounds of the timeout thread in between (the clocks \<open>ticks\<close> of \<open>os\<close>),
    and the run of the program from its options to its exit, with the routing table from its file or, with a template, from the server. \<open>Crossing\<close>: a packet that crosses the router, from the start of the
    program to its end, out of the facts of the components. \<open>System\<close>: the events of the two threads, in any
    order, as a transition system.
  \<^item> \<open>Printing\<close>: the functions that print packets, interfaces and the ARP table, and that they stay inside the packet.
  \<^item> \<open>Example\<close>: a small network and a process on which the theorems are applied.

  \<^bold>\<open>How the model reads.\<close> A C function that changes the instance takes and returns the record \<open>sr_instance\<close>; the
  record \<open>conn\<close> adds the rest of the process: the input to come, the files, whether the socket is closed.
  Pointers into the ARP queue are the addresses \<open>rq_id\<close>; using one after the request was freed is the fault
  \<open>Use_after_free\<close>. A null dereference, a read or write outside a buffer and a failed assertion are faults of the
  result type, so a theorem that an operation gives \<open>Inr\<close> says that none of them happens. What the operating
  system supplies (clock, contents of fresh memory, results of \<^verbatim>\<open>write\<close>, of \<^verbatim>\<open>connect\<close> and so on) are the arguments
  \<open>env\<close>, \<open>os\<close> and \<open>boot\<close>. Machine integers are words of their C width. A packet is a list of bytes
  together with the length argument of the C function.

  \<^bold>\<open>Loops and fuel.\<close> Only \<^verbatim>\<open>sr_arpcache_handle_arpreq\<close> recurses without a bound that the code guarantees; its model
  takes a bound on the depth. C17 and C1 show which bound is enough and that the functions then return; C29
  shows a state in which none is. The sweep takes a bound on the number of requests visited; C18 shows that the
  length of the queue is enough. For the rounds in the main loop both bounds are the argument \<open>fuel\<close> of \<open>main\<close>. The
  loops on the socket and the main loop are partial functions, whose value \<open>None\<close> means that the code never returns; C33 to C36 say when they return and when they do not. All
  other loops are total functions.

  \<^bold>\<open>The properties.\<close> C1 to C11: the packet handler. C1 that it returns, C2 that it refines the specification of
  \<open>Abstract_router\<close>; then every branch in terms of its frame; C6 follows a packet through the ARP queue, C7 is the well-formedness
  of state and output. C12 to C14: routes. C15, C16: checksums. C17 to C21: the ARP queue, the timeout
  round, rounds during a reply, and the table. C22 to C24: sending, the log, configuring interfaces. C25 to C31: inputs and
  schedules on which the code does not do what it should. C32, C33: authentication. C34 to C40: the session: packets
  from the socket to the handler, the main loop, the whole program, a packet that crosses the router in a run of the
  whole program, the routing table file, the invariant of all reachable states, and that every waiting packet is answered in the end.

  \<^bold>\<open>Not modelled.\<close> The main loop of \<open>Startup\<close>, so also C35 to C37, and \<open>System\<close> interleave the two threads one
  event at a time: a command or a timeout round runs to its end. \<open>Threads\<close> adds rounds between two calls of the packet handler that take the lock, for the two
  sequences of calls that keep a pointer to a request meanwhile. The steps of \<^verbatim>\<open>sr_arpcache_handle_arpreq\<close>, which the packet handler runs without the lock, and
  of the writes to socket and log are not interleaved further with those of the other thread. Debug output and error messages in the
  middle of other functions (but for the list of interfaces that \<^verbatim>\<open>sr_handle_hwinfo\<close> prints, which can read past the end of a name), and the addresses given to the socket calls, are not modelled.
\<close>

section \<open>Receiving a packet\<close>

text \<open>C1. The handler returns, without a fault, on every frame of at least 42 bytes (Ethernet
  frames are longer) that arrives on an interface of the router, whatever its contents, if
  the source of an IP packet has a route and the ARP requests that the router is about to give up do not
  depend on each other in a cycle; this condition holds again afterwards.\<close>

theorem handlepacket_total:
  assumes "calm env rank sr" and "enough env rank (cache sr) fuel"
    and "sr_get_interface sr interface = Some i"
    and "length packet = unat len" and "42 \<le> length packet" and "unat len < 2 ^ 31 - 24"
    and "ether_type (eth_at 0 packet) = htons ethertype_ip \<Longrightarrow>
      sr_findLPMentry (routing_table sr) (ip_src (ip_at 14 packet)) \<noteq> None"
    and "given_up env (cache sr) (ip_dst (ip_at 14 packet)) \<Longrightarrow>
      given_up env (cache sr) (ip_src (ip_at 14 packet)) \<Longrightarrow>
      rank (ip_src (ip_at 14 packet)) < rank (ip_dst (ip_at 14 packet))"
  shows "\<exists>sr'. sr_handlepacket fuel env sr packet len interface = Inr sr' \<and> calm env rank sr'"
  using assms by (rule handlepacket_returns)

theorem handlepacket_total_witness:
  "\<exists>sr'. sr_handlepacket 1 (clock 2000) (router (cache_of [] []))
      udp_frame 60 (text_bytes ''eth1'') = Inr sr'
    \<and> calm (clock 2000) (\<lambda>_. 0) sr'"
  by (rule handlepacket_total [where i = eth1]) (simp_all add: given_up_def enough_def)

text \<open>C2. The packet handler is a router: any sequence of packets has the effect that the specification \<open>decide\<close> and
  \<open>perform\<close> gives it. What is done with a packet (ignore it, answer it, send a message to a next hop, learn a hardware address)
  depends on the packet, the interfaces and the routes only; a message to a next hop is sent if its hardware address is
  known, and waits otherwise, with a request for the address if it is the first; a hardware address that is learnt
  releases the messages that waited for it. The conditions: frames of at least 42 bytes on interfaces of the router, next hops with
  routes, requests that are at most a second old (older ones are repeated or given up, C18), and a free slot for a new address.\<close>

theorem packets_follow_specification:
  assumes "router_inv sr" and "routes_ok sr" and "smooth_run (Suc fuel) sr arrivals"
  shows "\<exists>sr'. each (handle_arrival (Suc fuel)) sr arrivals = Inr sr'
    \<and> net_of sr' = fold (\<lambda>a. perform (ask sr) (decision_for sr a)) arrivals (net_of sr)"
  using assms by (rule run_refines)

theorem packets_follow_specification_witness:
  "\<exists>sr'. each (handle_arrival (Suc 0)) (router (cache_of [] [])) first_and_reply = Inr sr'
    \<and> net_of sr' = fold (\<lambda>a. perform (ask (router (cache_of [] []))) (decision_for (router (cache_of [] [])) a))
        first_and_reply (net_of (router (cache_of [] [])))"
  by (rule packets_follow_specification)
    (simp_all add: smooth_example router_inv_def times_ok_def queue_deliverable_def)

text \<open>C3. A valid packet for another network whose next hop is in the ARP cache is sent out of the
  interface of the longest matching route: the hardware addresses are replaced, the time to live
  is one less, the header checksum is that of the new header, and the rest of the packet is unchanged.
  Nothing else of the router's state changes but the log.\<close>

theorem forward_known_hop:
  assumes "accepted packet len" and "\<not> own_addr sr (ip_dst (ip_at 14 packet))" and "ip_ttl (ip_at 14 packet) \<noteq> 1"
    and "sr_findLPMentry (routing_table sr) (ip_dst (ip_at 14 packet)) = Some e"
    and "sr_get_interface sr (list_of (rt_interface e)) = Some i"
    and "sr_arpcache_lookup (cache sr) (ip_dst (ip_at 14 packet)) = Some a"
  shows "\<exists>log. sr_handlepacket fuel env sr packet len interface = Inr (sr\<lparr>logfile := log, sock_out := sock_out sr @
    [vns_frame (list_of (rt_interface e)) (forward_frame (ae_mac a) (if_addr i) packet)]\<rparr>)"
proof -
  have len: "34 \<le> length packet" "length packet = unat len" "unat len < 2 ^ 31 - 24"
    using assms(1) by (simp_all add: accepted_def)
  let ?b = "forward_frame (ether_dhost (eth_at 0 packet)) (if_addr i) packet"
  have "sr_handlepacket fuel env sr packet len interface =
      transmit fuel env sr (ip_dst (ip_at 14 packet)) ?b len (list_of (rt_interface e))"
    using assms handlepacket_accepted [OF assms(1)] forward_packet_eq [OF len(1)] by simp
  moreover have "frame_ok ?b len" using len by (simp add: frame_ok_def)
  ultimately show ?thesis
    using transmit_hit [OF assms(6) _ assms(5), of ?b len fuel env] by simp
qed

theorem forward_known_hop_witness:
  "\<exists>log. sr_handlepacket 1 (clock 2000) (router (cache_of [known server_ip 7] []))
      udp_frame 60 (text_bytes ''eth1'') =
    Inr ((router (cache_of [known server_ip 7] []))\<lparr>logfile := log, sock_out :=
      [vns_frame (list_of (rt_interface route2)) (forward_frame (mac_n 7) (mac_n 2)
        udp_frame)]\<rparr>)"
  using forward_known_hop [of udp_frame 60
      "router (cache_of [known server_ip 7] [])" route2 eth2 "known server_ip 7" 1 "clock 2000" "text_bytes ''eth1''"]
  by (simp add: accepted_frame own_addr_def lookup_cache_of known_def)

text \<open>C4. When the next hop is not known and nothing waits for it yet, the packet that would have been
  sent waits in the ARP queue, and a broadcast ARP request for the next hop leaves at once by the
  interface of the route.\<close>

theorem forward_unknown_hop:
  assumes "accepted packet len" and "\<not> own_addr sr (ip_dst (ip_at 14 packet))" and "ip_ttl (ip_at 14 packet) \<noteq> 1"
    and "sr_findLPMentry (routing_table sr) (ip_dst (ip_at 14 packet)) = Some e"
    and "sr_get_interface sr (list_of (rt_interface e)) = Some i"
    and "sr_arpcache_lookup (cache sr) (ip_dst (ip_at 14 packet)) = None"
    and "pend (cache sr) (ip_dst (ip_at 14 packet)) = None" and "cache_inv (cache sr)" and "1 < now env"
  shows "\<exists>log c. sr_handlepacket (Suc fuel) env sr packet len interface =
      Inr (sr\<lparr>cache := c, logfile := log, sock_out := sock_out sr @ [vns_frame (list_of (if_name i))
        (arp_request_frame (if_addr i) (if_ip i) (ip_dst (ip_at 14 packet)))]\<rparr>)
    \<and> entries c = entries (cache sr) \<and> cache_inv c
    \<and> pend c = (pend (cache sr))(ip_dst (ip_at 14 packet) \<mapsto>
        [new_pkt (forward_frame (ether_dhost (eth_at 0 packet)) (if_addr i) packet) len (list_of (rt_interface e))])"
  using assms by (rule forward_first)

theorem forward_unknown_hop_witness:
  "\<exists>log c. sr_handlepacket (Suc 0) (clock 2000) (router (cache_of [] []))
      udp_frame 60 (text_bytes ''eth1'') =
      Inr ((router (cache_of [] []))\<lparr>cache := c, logfile := log, sock_out :=
        [vns_frame (list_of (if_name eth2)) (arp_request_frame (mac_n 2) 0x0102a8c0 server_ip)]\<rparr>)
    \<and> entries c = entries (cache_of [] []) \<and> cache_inv c
    \<and> pend c = (pend (cache_of [] []))(server_ip \<mapsto>
        [new_pkt (forward_frame (mac_n 1) (mac_n 2) udp_frame)
          60 (list_of (rt_interface route2))])"
  using forward_unknown_hop [of udp_frame 60
      "router (cache_of [] [])" route2 eth2 "clock 2000" 0 "text_bytes ''eth1''"]
  by (simp add: accepted_frame own_addr_def lookup_cache_of pend_def req_packets_def)

text \<open>C5. An ARP reply to the receiving interface for an address on which packets wait: all of them are
  sent, in queue order, each by its interface and with the hardware address of the reply as its
  destination; nothing waits for the address any more; and the mapping is in the cache, if the
  address was not and a slot was free.\<close>

theorem arp_reply_delivers:
  assumes "cache_inv (cache sr)" and "queue_deliverable sr"
    and "sr_get_interface sr interface = Some i" and "arp_reply_for i packet len"
    and "pend (cache sr) (ar_sip (arp_at 14 packet)) = Some ps"
  shows "\<exists>log c. sr_handlepacket fuel env sr packet len interface = Inr (sr\<lparr>cache := c, logfile := log,
        sock_out := sock_out sr @ map (delivered (ar_sha (arp_at 14 packet))) ps\<rparr>)
    \<and> pend c = (pend (cache sr))(ar_sip (arp_at 14 packet) := None)
    \<and> (has_free_slot (cache sr) \<and> arp_view (cache sr) (ar_sip (arp_at 14 packet)) = None \<longrightarrow>
        arp_view c (ar_sip (arp_at 14 packet)) = Some (ar_sha (arp_at 14 packet), now env))"
  using assms by (rule reply_effect)

theorem arp_reply_delivers_witness:
  "\<exists>log c. sr_handlepacket 1 (clock 2000) (router (cache_of [] [waiting]))
      (arp_frame arp_op_reply (mac_n 7) server_ip 0x0102a8c0) 42 (text_bytes ''eth2'') =
      Inr ((router (cache_of [] [waiting]))\<lparr>cache := c, logfile := log,
        sock_out := map (delivered (mac_n 7)) [waiting_pkt]\<rparr>)
    \<and> pend c = (pend (cache_of [] [waiting]))(server_ip := None)
    \<and> (has_free_slot (cache_of [] [waiting]) \<and> arp_view (cache_of [] [waiting]) server_ip = None \<longrightarrow>
        arp_view c server_ip = Some (mac_n 7, 2000))"
  using arp_reply_delivers [of "router (cache_of [] [waiting])" "text_bytes ''eth2''" eth2
      "arp_frame arp_op_reply (mac_n 7) server_ip 0x0102a8c0" 42 "[waiting_pkt]" 1 "clock 2000"]
  by (simp add: queue_deliverable_def arp_reply_for_def pend_def req_packets_def)

text \<open>C6. A packet whose next hop is not known yet is not lost: when the ARP reply for the next hop comes, exactly one ARP
  request and then the packet itself have been sent, the packet just as if the hardware address had been known at once
  (C3); nothing waits for the next hop any more, and its address is in the ARP table.\<close>

theorem unknown_hop_resolved:
  assumes "accepted packet len" and "\<not> own_addr sr (ip_dst (ip_at 14 packet))" and "ip_ttl (ip_at 14 packet) \<noteq> 1"
    and "sr_findLPMentry (routing_table sr) (ip_dst (ip_at 14 packet)) = Some e"
    and "sr_get_interface sr (list_of (rt_interface e)) = Some i"
    and "sr_arpcache_lookup (cache sr) (ip_dst (ip_at 14 packet)) = None"
    and "pend (cache sr) (ip_dst (ip_at 14 packet)) = None" and "cache_inv (cache sr)" and "1 < now env"
    and "queue_deliverable sr" and "has_free_slot (cache sr)"
    and "sr_get_interface sr interface' = Some j" and "arp_reply_for j reply len'"
    and "ar_sip (arp_at 14 reply) = ip_dst (ip_at 14 packet)"
  shows "\<exists>log c. bnd (sr_handlepacket (Suc fuel) env sr packet len interface)
        (\<lambda>sr1. sr_handlepacket fuel' env' sr1 reply len' interface') =
      Inr (sr\<lparr>cache := c, logfile := log, sock_out := sock_out sr @
        [vns_frame (list_of (if_name i)) (arp_request_frame (if_addr i) (if_ip i) (ip_dst (ip_at 14 packet))),
         vns_frame (list_of (rt_interface e)) (forward_frame (ar_sha (arp_at 14 reply)) (if_addr i) packet)]\<rparr>)
    \<and> pend c = pend (cache sr) \<and> arp_view c (ip_dst (ip_at 14 packet)) = Some (ar_sha (arp_at 14 reply), now env')"
  using assms by (rule resolved_hop)

theorem unknown_hop_resolved_witness:
  "\<exists>log c. bnd (sr_handlepacket (Suc 0) (clock 2000) (router (cache_of [] [])) udp_frame 60 (text_bytes ''eth1''))
        (\<lambda>sr1. sr_handlepacket 1 (clock 2001) sr1 (arp_frame arp_op_reply (mac_n 7) server_ip 0x0102a8c0) 42 (text_bytes ''eth2'')) =
      Inr ((router (cache_of [] []))\<lparr>cache := c, logfile := log, sock_out :=
        [vns_frame (list_of (if_name eth2)) (arp_request_frame (mac_n 2) 0x0102a8c0 server_ip),
         vns_frame (list_of (rt_interface route2)) (forward_frame (mac_n 7) (mac_n 2) udp_frame)]\<rparr>)
    \<and> pend c = pend (cache_of [] []) \<and> arp_view c server_ip = Some (mac_n 7, 2001)"
  using unknown_hop_resolved [of udp_frame 60 "router (cache_of [] [])" route2 eth2 "clock 2000" "text_bytes ''eth2''" eth2
      "arp_frame arp_op_reply (mac_n 7) server_ip 0x0102a8c0" 42 0 "text_bytes ''eth1''" 1 "clock 2001"]
  by (simp add: own_addr_def lookup_cache_of pend_def req_packets_def queue_deliverable_def free_slot_cache_of arp_reply_for_def)

text \<open>C7. Well-formed states stay well-formed and only well-formed messages are sent, whatever packet is handled: the ARP table
  keeps its 100 slots, there is at most one request for an address, at most five ARP requests were sent for each, and
  every waiting packet is a complete frame with the hardware address of its outgoing interface as its source (which C5
  needs). Interfaces and routes do not change. What was sent stays sent, and everything sent in addition is a
  complete frame on an interface of the router, with the hardware address of that interface as its source.\<close>

theorem handlepacket_preserves:
  assumes "sr_handlepacket fuel env sr packet len interface = Inr sr'"
    and "length packet = unat len" and "unat len < 2 ^ 31 - 24" and "router_inv sr"
  shows "router_inv sr' \<and> if_list sr' = if_list sr \<and> routing_table sr' = routing_table sr
    \<and> (\<exists>out. sock_out sr' = sock_out sr @ out \<and> list_all (sent_frame sr) out)"
  using assms by (rule router_inv_handlepacket)

theorem handlepacket_preserves_witness:
  "\<exists>sr'. sr_handlepacket 1 (clock 2000) (router (cache_of [] [])) udp_frame 60 (text_bytes ''eth1'') = Inr sr'
    \<and> router_inv sr' \<and> if_list sr' = [eth1, eth2] \<and> list_all (sent_frame (router (cache_of [] []))) (sock_out sr')"
proof -
  obtain sr' where h: "sr_handlepacket 1 (clock 2000) (router (cache_of [] [])) udp_frame 60 (text_bytes ''eth1'') = Inr sr'"
    using udp_run by blast
  show ?thesis
    using handlepacket_preserves [OF h] h by (simp add: router_inv_def times_ok_def queue_deliverable_def)
qed

text \<open>C8. A valid echo request to any interface of the router, from a source with a route and a known
  hardware address, is answered with the echo reply: the addresses are exchanged, the time to live is
  that of a new packet, type and checksums are those of the reply, and the data comes back unchanged.\<close>

theorem echo_request_answered:
  assumes "accepted packet len" and "own_addr sr (ip_dst (ip_at 14 packet))"
    and "ip_p (ip_at 14 packet) = ip_protocol_icmp" and "38 \<le> length packet"
    and "icmp_type (icmp_at 34 packet) = 8" and "icmp_valid packet"
    and "sr_findLPMentry (routing_table sr) (ip_src (ip_at 14 packet)) = Some e"
    and "sr_get_interface sr (list_of (rt_interface e)) = Some i"
    and "sr_arpcache_lookup (cache sr) (ip_src (ip_at 14 packet)) = Some a"
  shows "\<exists>log. sr_handlepacket fuel env sr packet len interface = Inr (sr\<lparr>logfile := log, sock_out := sock_out sr @
    [vns_frame (list_of (rt_interface e)) (echo_frame (ae_mac a) (if_addr i) packet)]\<rparr>)"
proof -
  have len: "length packet = unat len" "unat len < 2 ^ 31 - 24" "unat len < 2 ^ 31"
    using assms(1) by (simp_all add: accepted_def)
  let ?b = "echo_frame (ether_dhost (eth_at 0 packet)) (if_addr i) packet"
  have "sr_handlepacket fuel env sr packet len interface =
      transmit fuel env sr (ip_src (ip_at 14 packet)) ?b len (list_of (rt_interface e))"
    using assms handlepacket_accepted [OF assms(1)] echo_reply_eq [OF assms(4) len(1,3)] by simp
  moreover have "frame_ok ?b len" using len assms(4) by (simp add: frame_ok_def)
  ultimately show ?thesis
    using transmit_hit [OF assms(9) _ assms(8), of ?b len fuel env] by simp
qed

theorem echo_request_answered_witness:
  "\<exists>log. sr_handlepacket 1 (clock 2000) (router (cache_of [known host_ip 100] []))
      (ip_frame (ip_hdr_of 64 ip_protocol_icmp host_ip 0x0102a8c0) echo_payload) 60 (text_bytes ''eth1'') =
    Inr ((router (cache_of [known host_ip 100] []))\<lparr>logfile := log, sock_out :=
      [vns_frame (list_of (rt_interface route1)) (echo_frame (mac_n 100) (mac_n 1)
        (ip_frame (ip_hdr_of 64 ip_protocol_icmp host_ip 0x0102a8c0) echo_payload))]\<rparr>)"
  using echo_request_answered [of "ip_frame (ip_hdr_of 64 ip_protocol_icmp host_ip 0x0102a8c0) echo_payload" 60
      "router (cache_of [known host_ip 100] [])" route1 eth1 "known host_ip 100" 1 "clock 2000" "text_bytes ''eth1''"]
  by (simp add: accepted_frame own_addr_def lookup_cache_of known_def echo_payload_valid)

text \<open>C9. A valid TCP or UDP packet for the router itself that arrives on an interface of the router, with at least eight bytes after its
  IP header, and whose source is known or can be asked for, is answered with an ICMP port unreachable message (type 3, code 3) that quotes
  the IP header and these eight bytes, with correct checksums. If the hardware address of the packet's source is in the ARP table, the message
  leaves at once by the interface the packet came from. If it is not, but the source has a route to an interface and nothing waits for
  it yet, then the message waits in the ARP queue and an ARP request for the source is sent. Nothing is said of other sources (for one
  without a route, see C28).\<close>

theorem port_unreachable_sent:
  assumes "accepted packet len" and "own_addr sr (ip_dst (ip_at 14 packet))"
    and "ip_p (ip_at 14 packet) = ip_protocol_tcp \<or> ip_p (ip_at 14 packet) = ip_protocol_udp"
    and "42 \<le> length packet" and "sr_get_interface sr interface = Some i" and "cache_inv (cache sr)" and "1 < now env"
  shows "sent_or_waits sr (ip_src (ip_at 14 packet))
    (\<lambda>mac. icmp_t3_frame mac (if_addr i) (ip_id (ip_at 14 packet)) (if_ip i) (ip_src (ip_at 14 packet)) 3 (arr_at 14 packet))
    interface (sr_handlepacket (Suc fuel) env sr packet len interface)"
proof -
  have "8 \<le> unat (len - 14 - 20)"
    using assms(1,4) minus_34 [of len] by (simp add: accepted_def)
  moreover have "ip_protocol_tcp \<noteq> ip_protocol_icmp" "ip_protocol_udp \<noteq> ip_protocol_icmp"
    by (simp_all add: protocol_numbers)
  ultimately have "sr_handlepacket (Suc fuel) env sr packet len interface = transmit (Suc fuel) env sr (ip_src (ip_at 14 packet))
      (icmp_t3_frame (unset_mac env 70) (if_addr i) (ip_id (ip_at 14 packet)) (if_ip i)
        (ip_src (ip_at 14 packet)) 3 (arr_at 14 packet)) 70 interface"
    using assms handlepacket_accepted [OF assms(1), of "Suc fuel" env sr interface] by (auto simp: port_unreachable_eq)
  then show ?thesis by (simp only:) (rule transmit_message [OF assms(6,7,5)], simp_all)
qed

theorem port_unreachable_sent_witness:
  "(\<exists>log. sr_handlepacket (Suc 0) (clock 2000) (router (cache_of [known host_ip 100] []))
      (ip_frame (ip_hdr_of 64 ip_protocol_udp host_ip 0x0102a8c0) (replicate 26 0)) 60 (text_bytes ''eth1'') =
    Inr ((router (cache_of [known host_ip 100] []))\<lparr>logfile := log, sock_out :=
      [vns_frame (text_bytes ''eth1'') (icmp_t3_frame (mac_n 100) (mac_n 1)
        (ip_id (ip_hdr_of 64 ip_protocol_udp host_ip 0x0102a8c0)) 0x0101000a host_ip 3
        (arr_at 14 (ip_frame (ip_hdr_of 64 ip_protocol_udp host_ip 0x0102a8c0) (replicate 26 0))))]\<rparr>))
   \<and> (\<exists>log c. sr_handlepacket (Suc 0) (clock 2000) (router (cache_of [] []))
      (ip_frame (ip_hdr_of 64 ip_protocol_udp host_ip 0x0102a8c0) (replicate 26 0)) 60 (text_bytes ''eth1'') =
    Inr ((router (cache_of [] []))\<lparr>cache := c, logfile := log, sock_out :=
      [vns_frame (list_of (if_name eth1)) (arp_request_frame (mac_n 1) 0x0101000a host_ip)]\<rparr>))"
  using port_unreachable_sent [of "ip_frame (ip_hdr_of 64 ip_protocol_udp host_ip 0x0102a8c0) (replicate 26 0)" 60
      "router (cache_of [known host_ip 100] [])" "text_bytes ''eth1''" eth1 "clock 2000" 0]
    port_unreachable_sent [of "ip_frame (ip_hdr_of 64 ip_protocol_udp host_ip 0x0102a8c0) (replicate 26 0)" 60
      "router (cache_of [] [])" "text_bytes ''eth1''" eth1 "clock 2000" 0]
  by (auto simp: accepted_frame own_addr_def lookup_cache_of known_def sent_or_waits_def pend_def req_packets_def)

text \<open>C10. A valid packet for another address that arrives on an interface of the router and cannot be forwarded, because there is no
  route for it or because its time to live is 1, and that has at least eight bytes after its IP header (see C27 for shorter ones) and a source
  that is known or can be asked for, is answered with an ICMP message with correct checksums that quotes its beginning: net
  unreachable (type 3, code 0) if there is no route, time exceeded (type 11) otherwise. If the hardware address of the packet's source is
  in the ARP table, the message leaves at once by the interface the packet came from, and nothing else is sent. If it is not, but the source has a
  route to an interface and nothing waits for it yet, then the message waits in the ARP queue and an ARP request for the source is all
  that is sent. Nothing is said of other sources (for one without a route, see C28).\<close>

theorem unforwardable_answered:
  assumes "accepted packet len" and "\<not> own_addr sr (ip_dst (ip_at 14 packet))"
    and "sr_findLPMentry (routing_table sr) (ip_dst (ip_at 14 packet)) = None \<or> ip_ttl (ip_at 14 packet) = 1"
    and "42 \<le> length packet" and "sr_get_interface sr interface = Some i" and "cache_inv (cache sr)" and "1 < now env"
  shows "sent_or_waits sr (ip_src (ip_at 14 packet))
    (\<lambda>mac. if sr_findLPMentry (routing_table sr) (ip_dst (ip_at 14 packet)) = None
       then icmp_t3_frame mac (if_addr i) (ip_id (ip_at 14 packet)) (if_ip i) (ip_src (ip_at 14 packet)) 0 (arr_at 14 packet)
       else icmp_t11_frame mac (if_addr i) (ip_id (ip_at 14 packet)) (if_ip i) (ip_src (ip_at 14 packet)) (arr_at 14 packet))
    interface (sr_handlepacket (Suc fuel) env sr packet len interface)"
proof -
  let ?err = "\<lambda>mac. if sr_findLPMentry (routing_table sr) (ip_dst (ip_at 14 packet)) = None
       then icmp_t3_frame mac (if_addr i) (ip_id (ip_at 14 packet)) (if_ip i) (ip_src (ip_at 14 packet)) 0 (arr_at 14 packet)
       else icmp_t11_frame mac (if_addr i) (ip_id (ip_at 14 packet)) (if_ip i) (ip_src (ip_at 14 packet)) (arr_at 14 packet)"
  have "sr_handlepacket (Suc fuel) env sr packet len interface =
      transmit (Suc fuel) env sr (ip_src (ip_at 14 packet)) (?err (unset_mac env 70)) 70 interface"
    using assms handlepacket_accepted [OF assms(1), of "Suc fuel" env sr interface]
    by (auto simp: net_unreachable_eq time_exceeded_eq split: option.splits)
  moreover have "sent_or_waits sr (ip_src (ip_at 14 packet)) ?err interface
      (transmit (Suc fuel) env sr (ip_src (ip_at 14 packet)) (?err (unset_mac env 70)) 70 interface)"
    by (rule transmit_message [OF assms(6,7,5)]) simp_all
  ultimately show ?thesis by (simp only:)
qed

theorem unforwardable_answered_witness:
  "(\<exists>log. sr_handlepacket (Suc 0) (clock 2000) (router (cache_of [known host_ip 100] []))
      (ip_frame (ip_hdr_of 64 ip_protocol_udp host_ip 0x08080808) (replicate 26 0)) 60 (text_bytes ''eth1'') =
    Inr ((router (cache_of [known host_ip 100] []))\<lparr>logfile := log, sock_out :=
      [vns_frame (text_bytes ''eth1'') (icmp_t3_frame (mac_n 100) (mac_n 1)
        (ip_id (ip_hdr_of 64 ip_protocol_udp host_ip 0x08080808)) 0x0101000a host_ip 0
        (arr_at 14 (ip_frame (ip_hdr_of 64 ip_protocol_udp host_ip 0x08080808) (replicate 26 0))))]\<rparr>))
   \<and> (\<exists>log. sr_handlepacket (Suc 0) (clock 2000) (router (cache_of [known host_ip 100] []))
      (ip_frame (ip_hdr_of 1 ip_protocol_udp host_ip server_ip) (replicate 26 0)) 60 (text_bytes ''eth1'') =
    Inr ((router (cache_of [known host_ip 100] []))\<lparr>logfile := log, sock_out :=
      [vns_frame (text_bytes ''eth1'') (icmp_t11_frame (mac_n 100) (mac_n 1)
        (ip_id (ip_hdr_of 1 ip_protocol_udp host_ip server_ip)) 0x0101000a host_ip
        (arr_at 14 (ip_frame (ip_hdr_of 1 ip_protocol_udp host_ip server_ip) (replicate 26 0))))]\<rparr>))"
  using unforwardable_answered [of "ip_frame (ip_hdr_of 64 ip_protocol_udp host_ip 0x08080808) (replicate 26 0)" 60
      "router (cache_of [known host_ip 100] [])" "text_bytes ''eth1''" eth1 "clock 2000" 0]
    unforwardable_answered [of "ip_frame (ip_hdr_of 1 ip_protocol_udp host_ip server_ip) (replicate 26 0)" 60
      "router (cache_of [known host_ip 100] [])" "text_bytes ''eth1''" eth1 "clock 2000" 0]
  by (simp add: accepted_frame own_addr_def lookup_cache_of known_def sent_or_waits_def)

text \<open>C11. A frame that is too short for its headers, is neither IP nor ARP, has another IP version or a
  wrong header checksum, or comes from or goes to the blocked network 10.0.2.0/24, is dropped:
  the router's state does not change and nothing is sent.\<close>

theorem invalid_or_blocked_dropped:
  assumes "length packet = unat len" and "dropped packet"
  shows "sr_handlepacket fuel env sr packet len interface = Inr sr"
  using assms by (rule handlepacket_dropped)

theorem invalid_or_blocked_dropped_witness:
  "sr_handlepacket 1 (clock 2000) (router (cache_of [] []))
      (ip_frame (ip_hdr_of 64 ip_protocol_udp host_ip 0x0502000a) (replicate 26 0)) 60 (text_bytes ''eth1'') =
    Inr (router (cache_of [] []))"
  by (rule invalid_or_blocked_dropped) (simp_all add: dropped_def)

text \<open>C12. The route lookup: the result is the first of the matching entries with the greatest netmask
  (as a number), and only that; an entry with an all-zero mask never matches.\<close>

theorem lpm_characterised:
  "sr_findLPMentry t ip = Some e \<longleftrightarrow>
   (\<exists>pre post. t = pre @ e # post \<and> lpm_hit ip e
     \<and> (\<forall>f \<in> set pre. lpm_hit ip f \<longrightarrow> lpm_weight f < lpm_weight e)
     \<and> (\<forall>f \<in> set post. lpm_hit ip f \<longrightarrow> lpm_weight f \<le> lpm_weight e))"
  using lpm.best_Some [of t ip e] lpm.best_unique [of t _ e _ ip] by blast

theorem lpm_characterised_witness:
  "\<exists>pre post. [route1, route2] = pre @ route2 # post \<and> lpm_hit server_ip route2
     \<and> (\<forall>f \<in> set pre. lpm_hit server_ip f \<longrightarrow> lpm_weight f < lpm_weight route2)
     \<and> (\<forall>f \<in> set post. lpm_hit server_ip f \<longrightarrow> lpm_weight f \<le> lpm_weight route2)"
  using lpm_characterised [of "[route1, route2]" server_ip route2] by simp

text \<open>C13. When every mask of the table is a prefix mask, the chosen route has the longest matching
  prefix.\<close>

theorem longest_prefix_wins:
  assumes "sr_findLPMentry t ip = Some e" and "f \<in> set t" and "lpm_hit ip f"
    and "ntohl (rt_mask e) = prefix_mask k" and "ntohl (rt_mask f) = prefix_mask l" and "k \<le> 32" and "l \<le> 32"
  shows "l \<le> k"
proof -
  have "lpm_weight f \<le> lpm_weight e" using assms(1-3) by (rule lpm.best_weight)
  then have "prefix_mask l \<le> prefix_mask k" using assms(4,5) by (simp add: lpm_weight_def)
  then show ?thesis using prefix_mask_le assms(6,7) by simp
qed

theorem longest_prefix_wins_witness:
  "sr_findLPMentry [route16, route2] server_ip = Some route2 \<and> (16 :: nat) \<le> 24"
  using longest_prefix_wins [of "[route16, route2]" server_ip route2 route16 24 16] lpm_route16 by simp

text \<open>C14. A table that passed the start-up check never makes the packet handlers look for an interface
  that is not there.\<close>

theorem verified_table_has_interfaces:
  assumes "sr_verify_routing_table sr = 0" and "sr_findLPMentry (routing_table sr) ip = Some e"
  shows "\<exists>i \<in> set (if_list sr). sr_get_interface sr (list_of (rt_interface e)) = Some i"
  using verified_lookup_iface [OF assms] get_interface_mem by blast

theorem verified_table_has_interfaces_witness:
  "\<exists>i \<in> set (if_list (router (cache_of [] []))).
    sr_get_interface (router (cache_of [] [])) (list_of (rt_interface route2)) = Some i"
proof (rule verified_table_has_interfaces [of _ server_ip])
  have "verify_walk [eth1, eth2] route1" "verify_walk [eth1, eth2] route2"
    by (simp_all add: verify_walk_iff flip: router_sel(1) sr_get_interface_def)
  then show "sr_verify_routing_table (router (cache_of [] [])) = 0"
    by (simp add: sr_verify_routing_table_def del: verify_walk.simps)
qed simp

text \<open>C15. The Internet checksum of the code is the complement of the one's complement sum of the
  big-endian 16-bit words of the data, with zero represented as all ones.\<close>

theorem cksum_is_ones_complement:
  assumes "length ds \<le> 131074"
  shows "unat (ntohs (cksum ds)) = (if ones_sum ds = 65535 then 65535 else 65535 - ones_sum ds)"
  using assms by (rule cksum_unat)

theorem cksum_is_ones_complement_witness:
  "unat (ntohs (cksum [0x45, 0, 0, 0x54])) =
    (if ones_sum [0x45, 0, 0, 0x54] = 65535 then 65535 else 65535 - ones_sum [0x45, 0, 0, 0x54])"
  by (rule cksum_is_ones_complement) simp

text \<open>C16. A receiver accepts what the code checksums: data in which a zero 16-bit field at an even offset
  was replaced by the checksum of the whole has the one's complement sum \<open>0xffff\<close>.\<close>

theorem cksum_verifies:
  assumes "even (length pre)" and "length pre + length post + 2 \<le> 131074"
  shows "ones_sum (pre @ st16 (cksum (pre @ [0, 0] @ post)) @ post) = 65535"
  using assms by (rule ones_sum_filled)

theorem cksum_verifies_witness:
  "ones_sum ([0x45, 0] @ st16 (cksum ([0x45, 0] @ [0, 0] @ [1, 2, 3])) @ [1, 2, 3]) = 65535"
  by (rule cksum_verifies) simp_all

section \<open>ARP\<close>

text \<open>C17. Handling a request of the ARP queue returns. It recurses once for every exhausted request
  it has to give up on first, so the fuel it needs is the rank of the request plus two; a request
  that is not exhausted needs a route. Afterwards no more requests are exhausted than before.\<close>

theorem handle_arpreq_returns:
  assumes "calm env rank sr" and "req_at p sr = Inr r"
    and "if exhausted env r then rank (rq_ip r) + 2 \<le> fuel
      else 1 \<le> fuel \<and> sr_findLPMentry (routing_table sr) (rq_ip r) \<noteq> None"
  shows "\<exists>sr'. sr_arpcache_handle_arpreq fuel env sr p = Inr sr' \<and> calm env rank sr'
    \<and> (\<forall>ip. given_up env (cache sr') ip \<longrightarrow> given_up env (cache sr) ip)"
  using handle_settles [OF assms] assms(1) by (rule settledE) (blast dest: given_up_settles)

theorem handle_arpreq_returns_witness:
  "\<exists>sr'. sr_arpcache_handle_arpreq 2 (clock 3000) (router (cache_of [] [exhausted_req])) 1 = Inr sr'
    \<and> calm (clock 3000) (\<lambda>_. 0) sr'
    \<and> (\<forall>ip. given_up (clock 3000) (cache sr') ip \<longrightarrow> given_up (clock 3000) (cache_of [] [exhausted_req]) ip)"
  using handle_arpreq_returns [of "clock 3000" "\<lambda>_. 0" "router (cache_of [] [exhausted_req])" 1 exhausted_req 2]
  by (simp add: req_at_def exhausted_def)

text \<open>C18. The exact effect of a round of the timeout thread when the senders of the waiting packets are in the ARP table:
  the round returns; old mappings expire; each pending request is visited once, and if it is due it
  is re-sent, counted and time-stamped, or after five attempts removed and its packets answered with ICMP host
  unreachable messages; what is sent is the concatenation in queue order; nothing else changes.\<close>

theorem timeout_round_effect:
  assumes "cache_inv (cache sr)" and "list_all (ready (expired (now env) sr)) (requests (cache sr))"
    and "length (requests (cache sr)) \<le> k"
  shows "\<exists>log. sr_arpcache_timeout k (Suc fuel) env sr =
    Inr ((expired (now env) sr)\<lparr>
      cache := (cache (expired (now env) sr))\<lparr>requests := List.map_filter (round_req env) (requests (cache sr))\<rparr>, logfile := log,
      sock_out := sock_out sr @ concat (map (round_out env (expired (now env) sr)) (requests (cache sr)))\<rparr>)"
  using assms by (rule round_exact)

theorem timeout_round_effect_witness:
  "\<exists>log. sr_arpcache_timeout 1 (Suc 0) (clock 1010) (router (cache_of [known host_ip 100] [exhausted_since 1000])) =
    Inr ((router (cache_of [known host_ip 100] []))\<lparr>logfile := log,
      sock_out := [vns_frame (list_of (rt_interface route1)) (unreachable_frame (mac_n 100) eth1 (pk_buf waiting_pkt))]\<rparr>)"
  using timeout_round_effect [of "router (cache_of [known host_ip 100] [exhausted_since 1000])" "clock 1010" 1 0]
  by (simp add: expired_router expire_known ready_example round_example replaced_queue map_filter_simps)

text \<open>C19. Rounds of the timeout thread that run while an ARP reply is being handled do no harm. The main thread takes
  the request out of the queue under the lock, and releases the lock before it uses the pointer to the request to send the waiting packets
  and to destroy it. Any number of rounds in between, if they return, neither free the request nor change it: all its packets are sent after
  what the rounds sent, and destroying it afterwards changes nothing else. (The packets that wait can be sent as they are, C39.)\<close>

theorem reply_during_round:
  assumes "cache_inv (cache sr)" and "queue_deliverable sr"
    and "find_req (ar_sip (arp_at 14 packet)) (requests (cache sr)) = Some q"
    and "rounds k fuel (sr\<lparr>cache :=
      snd (sr_arpcache_insert (now env) (cache sr) (ar_sha (arp_at 14 packet)) (ar_sip (arp_at 14 packet)))\<rparr>) envs = Inr sr1"
  shows "\<exists>log. reply_raced k fuel envs env sr packet =
    Inr (sr1\<lparr>logfile := log, sock_out := sock_out sr1 @ map (delivered (ar_sha (arp_at 14 packet))) (rq_packets q)\<rparr>)"
  using assms by (rule reply_race)

theorem reply_during_round_witness:
  "\<exists>sr1 log. reply_raced 0 1 [clock 2001, clock 2002] (clock 2000) (router (cache_of [] [waiting]))
      (arp_frame arp_op_reply (mac_n 7) server_ip 0x0102a8c0) =
    Inr (sr1\<lparr>logfile := log, sock_out := map (delivered (mac_n 7)) [waiting_pkt]\<rparr>)"
proof -
  obtain sr1 where "rounds 0 1 ((router (cache_of [] [waiting]))\<lparr>cache :=
      snd (sr_arpcache_insert 2000 (cache_of [] [waiting]) (mac_n 7) server_ip)\<rparr>) [clock 2001, clock 2002] = Inr sr1" "sock_out sr1 = []"
    using answered_round by blast
  then show ?thesis
    using reply_during_round [of "router (cache_of [] [waiting])" "arp_frame arp_op_reply (mac_n 7) server_ip 0x0102a8c0"
        waiting 0 1 "clock 2000" "[clock 2001, clock 2002]" sr1]
    by (auto simp: queue_deliverable_def)
qed

text \<open>C20. The queue loses no packet and delivers none twice: after any packets were queued for any
  addresses, an answer for an address on which nothing waited before hands out exactly the packets
  queued for it, newest first, and leaves nothing waiting for it.\<close>

theorem queue_hands_out_all:
  assumes "cache_inv c" and "pend c ip = None" and "\<forall>x \<in> set xs. packet_ok (snd x)"
  shows "(case fst (answer_req t mac ip (fold (\<lambda>(a, p). enq_packet a p) xs c)) of None \<Rightarrow> [] | Some ps \<Rightarrow> ps) =
      rev (map snd (filter (\<lambda>(a, p). a = ip) xs))
    \<and> pend (snd (answer_req t mac ip (fold (\<lambda>(a, p). enq_packet a p) xs c))) ip = None"
  using arp_queue.answer_complete [OF assms] by blast

theorem queue_hands_out_all_witness:
  "(case fst (answer_req 2000 (mac_n 7) server_ip
      (fold (\<lambda>(a, p). enq_packet a p) [(server_ip, waiting_pkt), (host_ip, waiting_pkt)] (cache_of [] []))) of
      None \<Rightarrow> [] | Some ps \<Rightarrow> ps) = [waiting_pkt]"
  using queue_hands_out_all [of "cache_of [] []" server_ip "[(server_ip, waiting_pkt), (host_ip, waiting_pkt)]" 2000 "mac_n 7"]
  by (simp add: pend_def req_packets_def)

text \<open>C21. A mapping learnt for an address that was not in the cache, with a slot free, is found until it
  is 15 seconds old, whatever other addresses are learnt and however often old entries are expired.\<close>

theorem mapping_found_until_expiry:
  assumes "has_free_slot c" and "arp_view c ip = None" and "list_all (keeps ip t) ops"
  shows "arp_view (fold (table_step arp_learn sr_arpcache_expire) ops (arp_learn t m ip c)) ip = Some (m, t)"
  using assms by (rule arp_table.learnt_until_expired)

theorem mapping_found_until_expiry_witness:
  "arp_view (fold (table_step arp_learn sr_arpcache_expire) [Learn 2005 (mac_n 9) host_ip, Expire 2010]
    (arp_learn 2000 (mac_n 7) server_ip (cache_of [] []))) server_ip = Some (mac_n 7, 2000)"
  by (rule mapping_found_until_expiry)
    (simp_all add: free_slot_cache_of arp_view_cache_of)

section \<open>Sending and logging\<close>

text \<open>C22. Sending a complete frame never faults. It reaches the server socket, behind its length, type
  and interface name, exactly when the interface exists and has the frame's source address; otherwise
  nothing is written and the result is -1. Only the log changes besides.\<close>

theorem send_packet_contract:
  assumes "frame_ok buf len"
  shows "\<exists>log. sr_send_packet env sr buf len iface =
    (if \<exists>i \<in> set (if_list sr). sr_get_interface sr iface = Some i \<and> ether_shost (eth_at 0 buf) = if_addr i
     then Inr (if write_ret env (vns_frame iface buf) < int (length (vns_frame iface buf)) then - 1 else 0,
       sr\<lparr>logfile := log, sock_out := sock_out sr @ [vns_frame iface buf]\<rparr>)
     else Inr (- 1, sr\<lparr>logfile := log\<rparr>))"
proof -
  have "(\<exists>i \<in> set (if_list sr). sr_get_interface sr iface = Some i \<and> ether_shost (eth_at 0 buf) = if_addr i) \<longleftrightarrow>
      (\<exists>i. sr_get_interface sr iface = Some i \<and> ether_shost (eth_at 0 buf) = if_addr i)"
    using get_interface_mem by blast
  then show ?thesis using send_packet_eq [OF assms, of env sr iface] by simp
qed

theorem send_packet_contract_witness:
  "\<exists>log. sr_send_packet (clock 2000) (router (cache_of [] [])) udp_frame 60 (text_bytes ''eth1'') =
    Inr (- 1, (router (cache_of [] []))\<lparr>logfile := log\<rparr>)"
proof -
  have "list_of (mac_n 100) \<noteq> list_of (mac_n 1)" by (simp add: mac_n_def)
  then have "mac_n 100 \<noteq> mac_n 1" by auto
  then show ?thesis
    using send_packet_contract [of udp_frame 60 "clock 2000" "router (cache_of [] [])" "text_bytes ''eth1''"]
    by (simp add: frame_ok_def)
qed

text \<open>C23. The packet log is readable: logging a frame to a file that parses as a capture gives a file that
  parses as the same capture with one more record, which holds the first 1024 bytes of the frame.\<close>

theorem log_stays_readable:
  assumes "logfile sr = Some f" and "log_holds f h rs" and "0 \<le> len" and "len \<le> int (length buf)"
  shows "\<exists>r f'. sr_log_packet time sr buf len = Inr (sr\<lparr>logfile := Some f'\<rparr>)
    \<and> log_holds f' h (rs @ [r]) \<and> pcap_parse f' = Some (h, rs @ [r]) \<and> snd r = take 1024 (take (nat len) buf)"
proof -
  obtain g where g: "sr_log_packet time sr buf len =
      Inr (sr\<lparr>logfile := Some (f @ record_bytes (g, take (min 1024 (nat len)) buf))\<rparr>)"
    "unat (sf_caplen g) = min 1024 (nat len)"
    using log_packet_bytes [OF assms(1,3,4), of time] by blast
  let ?r = "(g, take (min 1024 (nat len)) buf)"
  have "min 1024 (nat len) \<le> length buf" using assms(3,4) by linarith
  then have "log_holds (f @ record_bytes ?r) h (rs @ [?r])"
    using assms(2) g(2) by (auto simp: log_holds_def)
  then show ?thesis
    using g(1) log_holds_parse by (intro exI [of _ ?r] exI) (auto simp: min.commute)
qed

theorem log_stays_readable_witness:
  "\<exists>r f'. sr_log_packet (2000, 0) ((router (cache_of [] []))\<lparr>logfile := new_log\<rparr>) udp_frame 60 =
      Inr ((router (cache_of [] []))\<lparr>logfile := Some f'\<rparr>) \<and> snd r = take 1024 (take 60 udp_frame)"
  using log_stays_readable [of "(router (cache_of [] []))\<lparr>logfile := new_log\<rparr>"
      "the (new_log)" "rd_pcap_file_header (the (new_log))" "[]" 60 udp_frame "(2000, 0)"]
  by (auto simp: sr_dump_open_def sf_write_header_def log_holds_def cstr_def text_bytes_def)

text \<open>C24. A hardware description from the server configures the interfaces it announces: after the message for up to 85
  interfaces (their 255 entries fit the array of 256) whose names end inside their arrays, like those of the interfaces
  already there, was read, however it arrived, the list is extended by interfaces with exactly the announced
  names, hardware addresses and IP addresses, in the same order; interfaces that were there before are found as
  before; and the session goes on exactly when the routing table is consistent with the new list.\<close>

theorem hardware_configured:
  assumes "length is \<le> 85" and "names_end is" and "names_end (if_list (inst c))"
    and "stream (input c) = hw_msg (concat (map announce is)) @ rest"
  shows "\<exists>es js sr. stream es = rest \<and> list_all2 configured is js \<and> sr = (inst c)\<lparr>if_list := if_list (inst c) @ js\<rparr>
    \<and> sr_read_from_server fuel os c = Some (Inr (if sr_verify_routing_table sr = 0 then 1 else - 1, c\<lparr>inst := sr, input := es\<rparr>))
    \<and> (\<forall>n i. sr_get_interface (inst c) n = Some i \<longrightarrow> sr_get_interface sr n = Some i)"
proof -
  let ?m = "hw_msg (concat (map announce is))"
  obtain js sr where js: "list_all2 configured is js" "sr = (inst c)\<lparr>if_list := if_list (inst c) @ js\<rparr>"
    and d: "dispatch fuel os c VNSHWINFO (host_order ?m) = Inr (if sr_verify_routing_table sr = 0 then 1 else - 1, c\<lparr>inst := sr\<rparr>)"
    using dispatch_hwinfo [OF assms(1-3)] by blast
  obtain es where es: "stream es = rest" "sr_read_from_server fuel os c =
      Some (bnd (dispatch fuel os c VNSHWINFO (host_order ?m)) (\<lambda>(r, c'). Inr (r, c'\<lparr>input := es\<rparr>)))"
    using read_msg [OF hw_msg_ok(1) [OF assms(1)] assms(4), of fuel os] hw_msg_ok(2) [OF assms(1)] by auto
  have "sr_get_interface (inst c) n = Some i \<longrightarrow> sr_get_interface sr n = Some i" for n i
    using js(2) by (simp add: sr_get_interface_def if_walk_append)
  then show ?thesis using js es d by (intro exI [of _ es] exI [of _ js] exI [of _ sr]) simp
qed

theorem hardware_configured_witness:
  "\<exists>es js sr. stream es = [] \<and> list_all2 configured [eth3] js \<and> sr = (router (cache_of [] []))\<lparr>if_list := [eth1, eth2] @ js\<rparr>
    \<and> sr_read_from_server 1 (machine 2000) (process (router (cache_of [] [])) (in_pieces (hw_msg (announce eth3)))) =
      Some (Inr (if sr_verify_routing_table sr = 0 then 1 else - 1, (process (router (cache_of [] [])) es)\<lparr>inst := sr\<rparr>))
    \<and> (\<forall>n i. sr_get_interface (router (cache_of [] [])) n = Some i \<longrightarrow> sr_get_interface sr n = Some i)"
  using hardware_configured [of "[eth3]" "process (router (cache_of [] [])) (in_pieces (hw_msg (announce eth3)))" "[]" 1 "machine 2000"]
  by (simp add: eth_names_end)

section \<open>Where the code falls short\<close>

text \<open>C25. The two threads race for a request. When a packet has to wait, the main thread gets a pointer to the request
  under the lock, releases the lock, and handles the request. Suppose that every address for which packets wait, and the
  next hop of the new packet, has a route to an interface, and that the sources of all waiting packets and of the new one can be answered at once
  (they have no route, or their hardware addresses are in the ARP table, also after the round has expired old mappings). If a
  round of the timeout thread runs in between, the main thread uses freed memory exactly when the round gives up on the request for this
  address; otherwise the main thread and the round both return. Without a round in between the main thread returns.\<close>

theorem arp_request_race:
  assumes "cache_inv (cache sr)" and "sr_arpcache_lookup (cache sr) ip = None" and "frame_ok buf len"
    and "list_all (ready (expired (now round) sr)) (requests (cache sr))" and "routed sr ip"
    and "answerable (expired (now round) sr) (new_pkt buf len iface)" and "length (requests (cache sr)) < k"
  shows "(if given_up round (cache sr) ip then transmit_raced k (Suc fuel) round env sr ip buf len iface = Inl Use_after_free
      else \<exists>sr'. transmit_raced k (Suc fuel) round env sr ip buf len iface = Inr sr')
    \<and> (\<exists>sr'. transmit (Suc fuel) env sr ip buf len iface = Inr sr')"
  using assms by (rule transmit_race)

theorem arp_request_race_witness:
  "transmit_raced 2 (Suc 0) (clock 1010) (clock 1010) (router (cache_of [known host_ip 100] [exhausted_since 1000])) server_ip
      (pk_buf waiting_pkt) 60 (text_bytes ''eth2'') = Inl Use_after_free
   \<and> (\<exists>sr'. transmit (Suc 0) (clock 1010) (router (cache_of [known host_ip 100] [exhausted_since 1000])) server_ip
      (pk_buf waiting_pkt) 60 (text_bytes ''eth2'') = Inr sr')"
  using arp_request_race [of "router (cache_of [known host_ip 100] [exhausted_since 1000])" server_ip "pk_buf waiting_pkt" 60
      "clock 1010" "text_bytes ''eth2''" 2 0 "clock 1010"]
  by (simp add: server_unknown frame_ok_def given_up_def exhausted_def
      expired_router expire_known ready_example routed_example answerable_example)

text \<open>C26. The sweep over the ARP requests uses a request after it was freed, when two requests that follow each other
  are both given up and a packet waits for the first that came from the address the second asks for: giving up the
  first sends an error message that waits for the second, which is given up and freed in a recursive call, and the
  sweep goes on with the pointer it had saved.\<close>

theorem sweep_uses_freed_request:
  assumes "calm env rank sr" and "times_ok (cache sr)" and "requests (cache sr) = r1 # r2 # rs"
    and "exhausted env r1" and "exhausted env r2" and "rq_packets r1 = [pk]" and "pk_src pk = rq_ip r2"
    and "sr_arpcache_lookup (cache sr) (rq_ip r2) = None"
    and "sr_findLPMentry (routing_table sr) (rq_ip r2) = Some e" and "rank (rq_ip r1) + 2 \<le> fuel"
  shows "sr_arpcache_sweepreqs (Suc (Suc k)) fuel env sr = Inl Use_after_free"
  using assms by (rule sweep_uses_freed)

theorem sweep_uses_freed_request_witness:
  "sr_arpcache_sweepreqs (Suc (Suc 0)) 3 (clock 3000) (router (cache_of [] [exhausted_req, error_req])) = Inl Use_after_free"
  by (rule sweep_uses_freed_request [where rank = "\<lambda>ip. if ip = server_ip then 1 else 0" and ?r1.0 = exhausted_req
        and ?r2.0 = error_req and pk = waiting_pkt and e = route1 and rs = "[]"])
    (simp_all add: calm_chain exhausted_def times_ok_def lookup_cache_of)

text \<open>C27. A packet to be forwarded that has a complete IP header but fewer than eight bytes after it makes the
  time exceeded and the net unreachable branches copy bytes from beyond the end of the packet.\<close>

theorem short_packet_read_past_end:
  assumes "accepted packet len" and "\<not> own_addr sr (ip_dst (ip_at 14 packet))" and "length packet < 42"
    and "sr_findLPMentry (routing_table sr) (ip_dst (ip_at 14 packet)) = None \<or> ip_ttl (ip_at 14 packet) = 1"
    and "sr_get_interface sr interface = Some i"
  shows "sr_handlepacket fuel env sr packet len interface = Inl Oob_access"
  using assms handlepacket_accepted [OF assms(1), of fuel env sr interface]
  by (auto simp: net_unreachable_eq time_exceeded_eq split: option.splits)

theorem short_packet_read_past_end_witness:
  "sr_handlepacket 1 (clock 2000) (router (cache_of [] []))
    (ip_frame (ip_hdr_of 1 ip_protocol_udp host_ip server_ip) [0, 0, 0, 0]) 38 (text_bytes ''eth1'') = Inl Oob_access"
  by (rule short_packet_read_past_end [where i = eth1]) (simp_all add: accepted_def own_addr_def)

text \<open>C28. A TCP or UDP packet for the router itself from a source without a route, whose hardware address
  is not known, makes the router dereference a null pointer: the request for the source's address
  is queued and handled at once, and the handler uses the route it does not find.\<close>

theorem unroutable_source_null_deref:
  assumes "accepted packet len" and "own_addr sr (ip_dst (ip_at 14 packet))" and "42 \<le> length packet"
    and "ip_p (ip_at 14 packet) = ip_protocol_tcp \<or> ip_p (ip_at 14 packet) = ip_protocol_udp"
    and "sr_get_interface sr interface = Some i" and "cache_inv (cache sr)" and "1 < now env"
    and "sr_findLPMentry (routing_table sr) (ip_src (ip_at 14 packet)) = None"
    and "sr_arpcache_lookup (cache sr) (ip_src (ip_at 14 packet)) = None"
    and "pend (cache sr) (ip_src (ip_at 14 packet)) = None"
  shows "sr_handlepacket (Suc fuel) env sr packet len interface = Inl Null_deref"
proof -
  let ?b = "icmp_t3_frame (unset_mac env 70) (if_addr i) (ip_id (ip_at 14 packet)) (if_ip i)
    (ip_src (ip_at 14 packet)) 3 (arr_at 14 packet)"
  have "8 \<le> unat (len - 14 - 20)"
    using assms(1,3) minus_34 [of len] by (simp add: accepted_def)
  moreover have "ip_protocol_tcp \<noteq> ip_protocol_icmp" "ip_protocol_udp \<noteq> ip_protocol_icmp"
    by (simp_all add: protocol_numbers)
  ultimately have "sr_handlepacket (Suc fuel) env sr packet len interface =
      transmit (Suc fuel) env sr (ip_src (ip_at 14 packet)) ?b 70 interface"
    using assms handlepacket_accepted [OF assms(1), of "Suc fuel" env sr interface] by (auto simp: port_unreachable_eq)
  moreover have "\<dots> = Inl Null_deref"
    using assms(6-10) by (intro transmit_no_route) simp_all
  ultimately show ?thesis by simp
qed

theorem unroutable_source_null_deref_witness:
  "sr_handlepacket (Suc 0) (clock 2000) (router (cache_of [] []))
    (ip_frame (ip_hdr_of 64 ip_protocol_udp 0x08080808 0x0101000a) (replicate 26 0)) 60 (text_bytes ''eth1'') = Inl Null_deref"
  by (rule unroutable_source_null_deref [where i = eth1])
    (simp_all add: accepted_frame own_addr_def lookup_cache_of pend_def req_packets_def)

text \<open>C29. Giving up on a request for one of the router's own addresses never returns when the first
  waiting packet came from that address, as an error message of the router does: no bound on the
  depth of the recursion is enough.\<close>

theorem own_address_request_diverges:
  assumes "cache_inv (cache sr)" and "req_at p sr = Inr r" and "exhausted env r"
    and "sr_findLPMentry (routing_table sr) (rq_ip r) = Some e"
    and "sr_get_interface sr (list_of (rt_interface e)) = Some i" and "if_ip i = rq_ip r"
    and "sr_arpcache_lookup (cache sr) (rq_ip r) = None"
    and "rq_packets r = pk # rest" and "42 \<le> length (pk_buf pk)" and "pk_src pk = rq_ip r"
  shows "sr_arpcache_handle_arpreq fuel env sr p = Inl Out_of_fuel"
  using assms by (rule handle_diverges)

theorem own_address_request_diverges_witness:
  "sr_arpcache_handle_arpreq 1000 (clock 3000) (router (cache_of [] [land_req])) 1 = Inl Out_of_fuel"
  by (rule own_address_request_diverges [where r = land_req and e = route1 and i = eth1 and pk = land_pkt and rest = "[]"])
    (simp_all add: req_at_def exhausted_def lookup_cache_of)

text \<open>C30. A packet that arrives with a time to live of 0 is forwarded with a time to live of 255.\<close>

theorem ttl_zero_wraps:
  assumes "accepted packet len" and "\<not> own_addr sr (ip_dst (ip_at 14 packet))" and "ip_ttl (ip_at 14 packet) = 0"
    and "sr_findLPMentry (routing_table sr) (ip_dst (ip_at 14 packet)) = Some e"
    and "sr_get_interface sr (list_of (rt_interface e)) = Some i"
    and "sr_arpcache_lookup (cache sr) (ip_dst (ip_at 14 packet)) = Some a"
  shows "\<exists>sr' frame. sr_handlepacket fuel env sr packet len interface = Inr sr'
    \<and> sock_out sr' = sock_out sr @ [vns_frame (list_of (rt_interface e)) frame]
    \<and> ip_ttl (ip_at 14 frame) = 255 \<and> ip_dst (ip_at 14 frame) = ip_dst (ip_at 14 packet)"
proof -
  have len: "34 \<le> length packet" "length packet = unat len" "unat len < 2 ^ 31 - 24"
    using assms(1) by (simp_all add: accepted_def)
  let ?b = "forward_frame (ether_dhost (eth_at 0 packet)) (if_addr i) packet"
  have "sr_handlepacket fuel env sr packet len interface =
      transmit fuel env sr (ip_dst (ip_at 14 packet)) ?b len (list_of (rt_interface e))"
    using assms handlepacket_accepted [OF assms(1)] forward_packet_eq [OF len(1)] by simp
  moreover have "frame_ok ?b len" using len by (simp add: frame_ok_def)
  ultimately obtain log where "sr_handlepacket fuel env sr packet len interface = Inr (sr\<lparr>logfile := log,
      sock_out := sock_out sr @ [vns_frame (list_of (rt_interface e)) (forward_frame (ae_mac a) (if_addr i) packet)]\<rparr>)"
    using transmit_hit [OF assms(6) _ assms(5), of ?b len fuel env] by auto
  then show ?thesis
    using assms(3) by (intro exI [of _ "forward_frame (ae_mac a) (if_addr i) packet"] exI) (auto)
qed

theorem ttl_zero_wraps_witness:
  "\<exists>sr' frame. sr_handlepacket 1 (clock 2000) (router (cache_of [known server_ip 7] []))
      (ip_frame (ip_hdr_of 0 ip_protocol_udp host_ip server_ip) (replicate 26 0)) 60 (text_bytes ''eth1'') = Inr sr'
    \<and> sock_out sr' = [vns_frame (list_of (rt_interface route2)) frame]
    \<and> ip_ttl (ip_at 14 frame) = 255 \<and> ip_dst (ip_at 14 frame) = server_ip"
  using ttl_zero_wraps [of "ip_frame (ip_hdr_of 0 ip_protocol_udp host_ip server_ip) (replicate 26 0)" 60
      "router (cache_of [known server_ip 7] [])" route2 eth2 "known server_ip 7" 1 "clock 2000" "text_bytes ''eth1''"]
  by (simp add: accepted_frame own_addr_def lookup_cache_of known_def)

text \<open>C31. A new hardware address for an address that is already in the cache may be ignored: when an older
  valid entry for it stands behind the first free slot, or no slot is free, lookups give the old
  address after the insertion.\<close>

theorem new_mapping_ignored:
  assumes "(\<forall>e \<in> set (entries c). ae_valid e) \<or>
    (\<exists>xs f ys. entries c = xs @ f # ys \<and> (\<forall>x \<in> set xs. ae_valid x) \<and> \<not> ae_valid f \<and> entry_scan ip None ys \<noteq> None)"
  shows "sr_arpcache_lookup (snd (sr_arpcache_insert t c m ip)) ip = sr_arpcache_lookup c ip"
  using assms
proof
  assume "\<forall>e \<in> set (entries c). ae_valid e"
  then show ?thesis
    by (simp add: sr_arpcache_lookup_def sr_arpcache_insert_def case_prod_unfold Let_def fill_slot_full)
next
  assume "\<exists>xs f ys. entries c = xs @ f # ys \<and> (\<forall>x \<in> set xs. ae_valid x) \<and> \<not> ae_valid f \<and> entry_scan ip None ys \<noteq> None"
  then obtain xs f ys old where e: "entries c = xs @ f # ys" "\<forall>x \<in> set xs. ae_valid x" "\<not> ae_valid f"
    "entry_scan ip None ys = Some old" by blast
  have "fill_slot n (xs @ f # ys) = xs @ n # ys" for n
    using e(2,3) by (induction xs) simp_all
  moreover have "entry_scan ip a ys = Some old" for a
    using e(4) entry_scan_acc [of ip a ys] by simp
  ultimately show ?thesis
    by (simp add: sr_arpcache_lookup_def sr_arpcache_insert_def case_prod_unfold Let_def e(1) entry_scan_append)
qed

theorem new_mapping_ignored_witness:
  "sr_arpcache_lookup (snd (sr_arpcache_insert 2000 (cache_of [free_entry, known server_ip 7] []) (mac_n 9) server_ip)) server_ip =
    Some (known server_ip 7)"
proof -
  have "sr_arpcache_lookup (snd (sr_arpcache_insert 2000 (cache_of [free_entry, known server_ip 7] []) (mac_n 9) server_ip)) server_ip =
    sr_arpcache_lookup (cache_of [free_entry, known server_ip 7] []) server_ip"
  proof (rule new_mapping_ignored, rule disjI2)
    show "\<exists>xs f ys. entries (cache_of [free_entry, known server_ip 7] []) = xs @ f # ys \<and> (\<forall>x \<in> set xs. ae_valid x)
        \<and> \<not> ae_valid f \<and> entry_scan server_ip None ys \<noteq> None"
      by (rule exI [of _ "[]"], rule exI [of _ free_entry], rule exI [of _ "known server_ip 7 # replicate 98 free_entry"])
        (simp add: cache_of_def known_def)
  qed
  then show ?thesis by (simp add: lookup_cache_of known_def)
qed

section \<open>Authentication\<close>

text \<open>C32. The message digest of \<^verbatim>\<open>src/sha1.c\<close> is the function of the standard: after a reset, feeding a message of
  less than \<open>2 ^ 61\<close> bytes in any pieces and asking for the result succeeds, never writes outside the
  64-byte block, and leaves the five words of the digest of the whole message. Asking again
  returns the same, and feeding more afterwards makes the next result a failure.\<close>

theorem sha1_refines_standard:
  assumes "length (Message_Block c) = 64" and "\<forall>b \<in> set pieces. length b < 2 ^ 32" and "length (concat pieces) < 2 ^ 61"
  shows "\<exists>c'. bnd (each sha1_input (SHA1Reset c) pieces) SHA1Result = Inr (True, c') \<and> digest c' = sha1 (concat pieces)
    \<and> SHA1Result c' = Inr (True, c')
    \<and> (\<forall>bs n. n \<noteq> 0 \<longrightarrow> bnd (SHA1Input c' bs n) SHA1Result = Inr (False, c'\<lparr>Corrupted := True\<rparr>))"
proof -
  obtain c' where c': "bnd (each sha1_input (SHA1Reset c) pieces) SHA1Result = Inr (True, c')" "digest c' = sha1 (concat pieces)"
    and final: "Computed c'" "\<not> Corrupted c'" using sha1_pieces [OF assms] by blast
  have "SHA1Result c' = Inr (True, c')" using final by (simp add: SHA1Result_def)
  moreover have "bnd (SHA1Input c' bs n) SHA1Result = Inr (False, c'\<lparr>Corrupted := True\<rparr>)" if "n \<noteq> 0" for bs n
    using final that by (simp add: SHA1Input_def SHA1Result_def)
  ultimately show ?thesis using c' by blast
qed

theorem sha1_refines_standard_witness:
  "\<exists>c'. bnd (each sha1_input (SHA1Reset blank_context) [[0x61], [0x62, 0x63]]) SHA1Result = Inr (True, c')
    \<and> digest c' = sha1 [0x61, 0x62, 0x63]
    \<and> SHA1Result c' = Inr (True, c')
    \<and> (\<forall>bs n. n \<noteq> 0 \<longrightarrow> bnd (SHA1Input c' bs n) SHA1Result = Inr (False, c'\<lparr>Corrupted := True\<rparr>))"
  using sha1_refines_standard [of blank_context "[[0x61], [0x62, 0x63]]"]
  by (simp only: blank_context_def SHA1Context.simps length_replicate concat.simps append.simps append_Nil2) simp_all

text \<open>C33. The handshake: when the server can be reached and sends an authentication request followed by its verdict,
  in any pieces, the router answers the request with its user name and the SHA-1 digest of the salt followed by
  the 64 bytes of its key; if it is accepted it opens the session with the configured host, user and topology,
  and otherwise it gives up without sending anything more.\<close>

theorem server_handshake:
  assumes "credentials c key" and "length salt + 8 \<le> 10000" and "9 + length why \<le> 10000"
    and "auth \<noteq> 0 \<or> 0 \<in> set why" and "reachable_server (os 0) server" and "\<forall>k. writes_ok (os k)"
    and "cstr (list_of (template (inst c))) = []"
    and "stream (input c) = vns_msg VNS_AUTH_REQUEST salt @ vns_msg VNS_AUTH_STATUS (auth # why) @ rest"
    and "reply = auth_reply_msg (cstr (list_of (user (inst c)))) (sha1 (salt @ key))"
  shows "\<exists>es. stream es = rest \<and> sr_connect_to_server fuel os c server =
    Some (Inr (if auth \<noteq> 0
      then (0, c\<lparr>inst := (inst c)\<lparr>sockfd := socket_ret (os 0), sock_out := sock_out (inst c) @ [reply, open_msg (inst c)]\<rparr>, input := es\<rparr>)
      else (- 1, c\<lparr>inst := (inst c)\<lparr>sockfd := socket_ret (os 0), sock_out := sock_out (inst c) @ [reply]\<rparr>, input := es\<rparr>)))"
  using assms by (rule handshake)

theorem server_handshake_witness:
  "\<exists>es. stream es = [] \<and> sr_connect_to_server 1 machine_at
      (process (router (cache_of [] [])) (in_pieces (vns_msg VNS_AUTH_REQUEST [1, 2, 3] @ vns_msg VNS_AUTH_STATUS [1]))) (text_bytes ''localhost'') =
    Some (Inr (0, process ((router (cache_of [] []))\<lparr>sock_out :=
      [auth_reply_msg [] (sha1 ([1, 2, 3] @ replicate 64 97)), open_msg (router (cache_of [] []))]\<rparr>) es))"
  using server_handshake [of "process (router (cache_of [] [])) (in_pieces (vns_msg VNS_AUTH_REQUEST [1, 2, 3] @ vns_msg VNS_AUTH_STATUS [1]))"
      "replicate 64 97" "[1, 2, 3]" "[]" 1 machine_at "text_bytes ''localhost''" "[]"
      "auth_reply_msg [] (sha1 ([1, 2, 3] @ replicate 64 97))" 1]
  by (simp add: credentials_process)

section \<open>The session\<close>

text \<open>C34. A frame that the server delivers in a packet message reaches the packet handler, with its interface, exactly as
  it was sent: however the bytes of the message arrive, the frame is logged and handled, unless it is an ARP
  request for another address, which is dropped; the session goes on, and the bytes after the message are still
  there. The format is the one \<^verbatim>\<open>sr_send_packet\<close> writes.\<close>

theorem packet_reaches_handler:
  assumes "14 \<le> length frame" and "length frame + 24 \<le> 10000" and "length (cstr name) < 16" and "sr_get_interface (inst c) name = Some i"
    and "stream (input c) = vns_frame name frame @ rest"
  shows "\<exists>es log. stream es = rest \<and> sr_read_from_server fuel os c = Some (
    if arp_for_other i frame then Inr (1, c\<lparr>input := es\<rparr>)
    else bnd (sr_handlepacket fuel (proc os) ((inst c)\<lparr>logfile := log\<rparr>) frame (of_nat (length frame)) name) (\<lambda>sr.
      Inr (1, c\<lparr>inst := sr, input := es\<rparr>)))"
proof -
  note parts = vns_frame_parts [OF assms(2), of name]
  obtain es where es: "stream es = rest" "sr_read_from_server fuel os c =
      Some (bnd (dispatch fuel os c VNSPACKET (host_order (vns_frame name frame))) (\<lambda>(r, c'). Inr (r, c'\<lparr>input := es\<rparr>)))"
    using read_msg [OF parts(2) assms(5), of fuel os] parts(3) by auto
  obtain log where log: "dispatch fuel os c VNSPACKET (host_order (vns_frame name frame)) =
      (if arp_for_other i frame then Inr (1, c)
       else bnd (sr_handlepacket fuel (proc os) ((inst c)\<lparr>logfile := log\<rparr>) frame (of_nat (length frame)) name) (\<lambda>sr.
         Inr (1, c\<lparr>inst := sr\<rparr>)))"
    using dispatch_frame [OF assms(1-4)] by blast
  show ?thesis
    using es by (intro exI [of _ es] exI [of _ log]) (simp add: log bnd_assoc)
qed

theorem packet_reaches_handler_witness:
  "\<exists>es log. stream es = [] \<and> sr_read_from_server 1 (machine 2000)
      (process (router (cache_of [] [])) (in_pieces (vns_frame (text_bytes ''eth1'') udp_frame))) = Some (
    bnd (sr_handlepacket 1 (clock 2000) ((router (cache_of [] []))\<lparr>logfile := log\<rparr>) udp_frame 60 (text_bytes ''eth1'')) (\<lambda>sr.
      Inr (1, process sr es)))"
  using packet_reaches_handler [of udp_frame "text_bytes ''eth1''" "process (router (cache_of [] []))
      (in_pieces (vns_frame (text_bytes ''eth1'') udp_frame))" eth1 "[]" 1 "machine 2000"]
  by (simp add: arp_for_other_def eth_name_short ethertype_arp_def ethertype_ip_def)

text \<open>C35. The main loop does what the commands of the server say, one after the other, however TCP cuts the stream into
  pieces and signals interrupt the calls, with any rounds of the timeout thread between two commands: a command or a round that faults
  stops the process, a command that ends the session ends the loop with the state after it. If the server hangs up without ending the session, at most inside
  the length of a next command, the loop never ends by itself: \<^verbatim>\<open>recv\<close> returns 0 again and again and the code does not look at it.
  (A round runs between two commands, not during one.)\<close>

theorem session_follows_commands:
  assumes "\<forall>m \<in> set ms. msg_ok m" and "stream (input c) = concat ms @ rest"
  shows "(\<forall>e. run_msgs fuel os k c ms = Inl e \<longrightarrow> main_loop fuel os k c = Some (Inl e))
    \<and> (\<forall>c'. run_msgs fuel os k c ms = Inr (True, c') \<longrightarrow> (\<exists>es. main_loop fuel os k c = Some (Inr (c'\<lparr>input := es\<rparr>))))
    \<and> (\<forall>c'. run_msgs fuel os k c ms = Inr (False, c') \<and> length rest < 4 \<and> Failed \<notin> set (input c) \<longrightarrow>
        main_loop fuel os k c = None)"
proof -
  obtain es where nf: "Failed \<notin> set (input c) \<longrightarrow> Failed \<notin> set es" and main: "main_loop fuel os k c =
      (case run_msgs fuel os k c ms of
         Inl e \<Rightarrow> Some (Inl e)
       | Inr (True, c') \<Rightarrow> Some (Inr (c'\<lparr>input := es\<rparr>))
       | Inr (False, c') \<Rightarrow> main_loop fuel os (k + length ms) (c'\<lparr>input := es\<rparr>))"
    and st: "\<forall>c'. run_msgs fuel os k c ms = Inr (False, c') \<longrightarrow> stream es = rest"
    using main_loop_msgs [OF assms] by blast
  have "main_loop fuel os k c = None"
    if "run_msgs fuel os k c ms = Inr (False, c')" "length rest < 4" "Failed \<notin> set (input c)" for c'
    using main st nf that main_loop_hangup [of "c'\<lparr>input := es\<rparr>"] by simp
  then show ?thesis using main by auto
qed

theorem session_follows_commands_witness:
  "(\<exists>es. main_loop 1 machine_at 0 (process (router (cache_of [] [])) (in_pieces (vns_msg VNSBANNER [72, 0] @ vns_msg VNSCLOSE [0]))) =
      Some (Inr (process (router (cache_of [] [])) es)))
   \<and> main_loop 1 machine_at 0 (process (router (cache_of [] [])) (in_pieces (vns_msg VNSBANNER [72, 0]))) = None"
proof -
  let ?c = "\<lambda>m. process (router (cache_of [] [])) (in_pieces m)"
  have banner: "run_msgs 1 machine_at 0 (?c m) [vns_msg VNSBANNER [72, 0]] = Inr (False, ?c m)" for m
    by (simp add: vns_msg_parts dispatch_def command_numbers read_str_def)
  have close: "run_msgs 1 machine_at 0 (?c m) [vns_msg VNSBANNER [72, 0], vns_msg VNSCLOSE [0]] = Inr (True, ?c m)" for m
    by (simp add: vns_msg_parts dispatch_def command_numbers read_str_def)
  show ?thesis
    using session_follows_commands [of "[vns_msg VNSBANNER [72, 0]]" "?c (vns_msg VNSBANNER [72, 0])" "[]" 1 machine_at 0]
      session_follows_commands [of "[vns_msg VNSBANNER [72, 0], vns_msg VNSCLOSE [0]]" "?c (vns_msg VNSBANNER [72, 0] @ vns_msg VNSCLOSE [0])" "[]" 1 machine_at 0]
      banner [of "vns_msg VNSBANNER [72, 0]"] close [of "vns_msg VNSBANNER [72, 0] @ vns_msg VNSCLOSE [0]"]
    by (simp add: vns_msg_parts del: run_msgs.simps)
qed

text \<open>C36. The whole program, from the command line to its exit: with a key and a server that
  accepts the authentication, \<^verbatim>\<open>main\<close> answers the request for authentication with the digest of salt
  and key and opens the session with the user and the host of the options and the topology, or the template if the options name one. The
  routing table, as the router prints it, comes from its file, or with a template from the first message of the server, which is stored in that file.
  The router is initialised without interfaces, the timeout thread is started, and then \<^verbatim>\<open>main\<close> does what the commands of the server
  say, with any rounds of the timeout thread between two commands: it exits with 0 when a command
  ends the session, in the state after it, and stops where a command or a round faults.\<close>

theorem main_runs_session:
  assumes "parse_opts default_opts args = Some p" and "table_supplied (os 2) p table c first fs" and "o_logfile p = None"
    and "files c (text_bytes ''auth_key'') = Some (key @ kr)" and "length key = 64" and "10 \<notin> set key"
    and "length (cstr (user_name b p)) < 32" and "length salt + 8 \<le> 10000" and "9 + length why \<le> 10000" and "auth \<noteq> 0"
    and "reachable_server (os 0) (o_server p)" and "\<forall>k. writes_ok (os k)"
    and "stream (input c) = vns_msg VNS_AUTH_REQUEST salt @ vns_msg VNS_AUTH_STATUS (auth # why) @ first @ concat ms @ rest"
    and "\<forall>m \<in> set ms. msg_ok m"
    and "start = c\<lparr>inst := sr_init (logged_in (os 0)
      (auth_reply_msg (cstr (user_name b p)) (sha1 (salt @ key))) (booted b p table (inst c))), files := fs\<rparr>"
  shows "(\<forall>e. run_msgs fuel os 3 start ms = Inl e \<longrightarrow> main fuel b os args c = Some (Inl e))
    \<and> (\<forall>c'. run_msgs fuel os 3 start ms = Inr (True, c') \<longrightarrow> (\<exists>es. main fuel b os args c = Some (Inr (0, c'\<lparr>input := es\<rparr>))))"
  using assms by (rule main_session)

theorem main_runs_session_witness:
  "\<exists>es. main 1 booting machine_at [(CHR ''u'', text_bytes ''me''), (CHR ''t'', text_bytes ''7'')]
      (with_table [route1, route2] (process (router (cache_of [] [])) (in_pieces (vns_msg VNS_AUTH_REQUEST [1, 2, 3] @
        vns_msg VNS_AUTH_STATUS [1] @ concat [vns_msg VNSCLOSE [0]])))) =
    Some (Inr (0, with_table [route1, route2] (process (sr_init (logged_in (machine_at 0)
      (auth_reply_msg (text_bytes ''me'') (sha1 ([1, 2, 3] @ replicate 64 97)))
      (booted booting example_opts [route1, route2] (router (cache_of [] []))))) es)))"
proof -
  let ?c = "with_table [route1, route2] (process (router (cache_of [] [])) (in_pieces (vns_msg VNS_AUTH_REQUEST [1, 2, 3] @
        vns_msg VNS_AUTH_STATUS [1] @ concat [vns_msg VNSCLOSE [0]])))"
  let ?start = "?c\<lparr>inst := sr_init (logged_in (machine_at 0)
      (auth_reply_msg (cstr (user_name booting example_opts)) (sha1 ([1, 2, 3] @ replicate 64 97)))
      (booted booting example_opts [route1, route2] (inst ?c))), files := files ?c\<rparr>"
  have close: "run_msgs 1 machine_at 3 ?start [vns_msg VNSCLOSE [0]] = Inr (True, ?start)"
    by (simp add: vns_msg_parts dispatch_def command_numbers read_str_def)
  have "(\<forall>e. run_msgs 1 machine_at 3 ?start [vns_msg VNSCLOSE [0]] = Inl e \<longrightarrow>
        main 1 booting machine_at [(CHR ''u'', text_bytes ''me''), (CHR ''t'', text_bytes ''7'')] ?c = Some (Inl e))
    \<and> (\<forall>c'. run_msgs 1 machine_at 3 ?start [vns_msg VNSCLOSE [0]] = Inr (True, c') \<longrightarrow>
        (\<exists>es. main 1 booting machine_at [(CHR ''u'', text_bytes ''me''), (CHR ''t'', text_bytes ''7'')] ?c = Some (Inr (0, c'\<lparr>input := es\<rparr>))))"
    by (rule main_runs_session [where p = example_opts and table = "[route1, route2]" and key = "replicate 64 97" and kr = "[]"
          and salt = "[1, 2, 3]" and why = "[]" and auth = 1 and rest = "[]" and first = "[]" and fs = "files ?c",
          OF example_parses example_table_supplied])
      (simp_all add: length_me vns_msg_parts)
  then show ?thesis using close by (auto simp: with_table_def process_def)
qed

text \<open>C37. A packet crosses the router, from the start of the program to its end: the server accepts the authentication, describes
  the interfaces, delivers a valid packet for another network whose next hop is not known, delivers the ARP reply of that next
  hop, and closes the session. The timeout thread makes any rounds between these commands; those between the packet and the
  reply that come more than a second after the last ARP request repeat it, \<open>n\<close> times in all, and if \<open>n\<close> is at most 4 the request is not given
  up before the reply. Then \<^verbatim>\<open>main\<close> exits with 0 and has written exactly these messages to the socket: the authentication, the opening of the
  session, \<open>n + 1\<close> ARP requests for the next hop out of the interface of the route, and the packet, out of that interface, to
  the hardware address of the reply, with the time to live one less and a new header checksum. (No log file is written. A round
  runs between two commands, not during one.)\<close>

theorem packet_crosses_router:
  assumes "parse_opts default_opts args = Some p" and "table_supplied (os 2) p table c first fs" and "o_logfile p = None"
    and "files c (text_bytes ''auth_key'') = Some (key @ kr)" and "length key = 64" and "10 \<notin> set key"
    and "length (cstr (user_name b p)) < 32" and "length salt + 8 \<le> 10000" and "9 + length why \<le> 10000" and "auth \<noteq> 0"
    and "reachable_server (os 0) (o_server p)" and "\<forall>k. writes_ok (os k)"
    and "stream (input c) = vns_msg VNS_AUTH_REQUEST salt @ vns_msg VNS_AUTH_STATUS (auth # why) @ first
      @ concat (crossing_msgs is n1 packet n2 reply reason) @ rest"
    and "crosses is table n1 packet e i n2 reply" and "length is \<le> 85"
    and "\<forall>e \<in> set table. if_walk is (list_of (rt_interface e)) \<noteq> None"
    and "1 < now (proc (os 4))" and "n = resends (now (proc (os 4))) (ticks (os 4))" and "n \<le> 4"
    and "0 \<in> set reason" and "length reason + 8 \<le> 10000"
  shows "\<exists>c'. main (Suc fuel) b os args c = Some (Inr (0, c')) \<and> sock_out (inst c') = sock_out (inst c)
    @ [auth_reply_msg (cstr (user_name b p)) (sha1 (salt @ key)), first_msg (booted b p table (inst c))] @ crossing_out n packet e i reply"
  using assms by (rule program_crosses)

theorem packet_crosses_router_witness:
  "\<exists>c'. main (Suc 0) booting slow_machine [(CHR ''u'', text_bytes ''me''), (CHR ''T'', text_bytes ''two''), (CHR ''r'', text_bytes ''rtable.h'')]
      (process (router (cache_of [] [])) (in_pieces (vns_msg VNS_AUTH_REQUEST [1, 2, 3] @ vns_msg VNS_AUTH_STATUS [1] @ table_msg
        @ concat (crossing_msgs [eth1, eth2] (text_bytes ''eth1'') udp_frame (text_bytes ''eth2'')
            (arp_frame arp_op_reply (mac_n 7) server_ip 0x0102a8c0) [0]) @ []))) = Some (Inr (0, c'))
    \<and> sock_out (inst c') = [auth_reply_msg (text_bytes ''me'') (sha1 ([1, 2, 3] @ replicate 64 97)),
        first_msg (booted booting template_opts [route1, route2] (router (cache_of [] []))),
        vns_frame (list_of (if_name eth2)) (arp_request_frame (mac_n 2) 0x0102a8c0 server_ip),
        vns_frame (list_of (if_name eth2)) (arp_request_frame (mac_n 2) 0x0102a8c0 server_ip),
        vns_frame (list_of (rt_interface route2)) (forward_frame (mac_n 7) (mac_n 2) udp_frame)]"
proof -
  let ?m = "vns_msg VNS_AUTH_REQUEST [1, 2, 3] @ vns_msg VNS_AUTH_STATUS [1] @ table_msg
        @ concat (crossing_msgs [eth1, eth2] (text_bytes ''eth1'') udp_frame (text_bytes ''eth2'')
            (arp_frame arp_op_reply (mac_n 7) server_ip 0x0102a8c0) [0]) @ []"
  show ?thesis
    using packet_crosses_router [where os = slow_machine and p = template_opts and table = "[route1, route2]" and b = booting
        and c = "process (router (cache_of [] [])) (in_pieces ?m)" and key = "replicate 64 97" and kr = "[]" and salt = "[1, 2, 3]"
        and why = "[]" and auth = 1 and reason = "[0]" and rest = "[]" and fuel = 0 and n = 1,
        OF template_parses template_table_supplied _ _ _ _ _ _ _ _ _ _ _ crosses_example(1) _ crosses_example(2)]
    by (simp add: length_me crossing_out_def key_file)
qed

text \<open>C38. The routing table that the router prints can be loaded: for entries whose interface name is one word, the
  lines of \<^verbatim>\<open>sr_print_routing_entry\<close> are read back by \<^verbatim>\<open>sr_load_rt\<close> as the same entries in the same order, in place of
  whatever table was there.\<close>

theorem printed_table_loads:
  assumes "\<forall>e \<in> set table. loadable e" and "table \<noteq> []"
  shows "sr_load_rt stack sr (Some (concat (map sr_print_routing_entry table))) = Inr (0, sr\<lparr>routing_table := table\<rparr>)"
  using assms by (rule load_printed)

theorem printed_table_loads_witness:
  "sr_load_rt stack_junk (router (cache_of [] [])) (Some (concat (map sr_print_routing_entry [route2, route1]))) =
    Inr (0, (router (cache_of [] []))\<lparr>routing_table := [route2, route1]\<rparr>)"
  by (rule printed_table_loads) (simp_all add: loadable_example)

text \<open>C39. In every state that the process can reach after \<^verbatim>\<open>sr_init\<close>, by commands of the server and rounds of the timeout
  thread in any order: the ARP table has its 100 slots, no two requests ask for the same address, no
  request was sent more than five times, and every waiting packet is a complete frame. The routing
  table never changes. What was sent stays sent, and everything sent since is a message the server can read: its header
  says its length and that it is a packet or an answer to an authentication request, and a packet holds at least an Ethernet
  header. If moreover no command changed the interfaces while packets waited, then every waiting packet carries the hardware address
  of the interface by which it will leave, so that it can be sent as it is.\<close>

theorem reachable_states_ok:
  assumes "reachable sys_step c0 c" and "inst c0 = sr_init sr"
  shows "cache_inv (cache (inst c)) \<and> times_ok (cache (inst c)) \<and> queue_all complete (inst c)
    \<and> routing_table (inst c) = routing_table sr
    \<and> (\<exists>out. sock_out (inst c) = sock_out sr @ out \<and> list_all wire_msg out
      \<and> (\<forall>m \<in> set out. 8 \<le> length m \<and> u32_at 0 m = htonl (of_nat (length m))
          \<and> (command_of m = VNSPACKET \<or> command_of m = VNS_AUTH_REPLY)))
    \<and> (reachable orderly c0 c \<longrightarrow> router_inv (inst c))"
proof -
  have "preserved complete (sr_init sr) (inst c)" using complete_reachable [OF assms(1)] assms(2) by simp
  then obtain out where "routing_table (inst c) = routing_table sr" "sock_out (inst c) = sock_out sr @ out"
    "queue_inv complete (inst c)" and out: "list_all wire_msg out"
    using queue_inv_init [of complete sr] by (auto simp: preserved_def sr_init_def)
  moreover have "\<forall>m \<in> set out. 8 \<le> length m \<and> u32_at 0 m = htonl (of_nat (length m))
      \<and> (command_of m = VNSPACKET \<or> command_of m = VNS_AUTH_REPLY)"
    using out unfolding list_all_iff by (intro ballI wire_msg_header) blast
  moreover have "router_inv (inst c)" if "reachable orderly c0 c"
    using orderly_reachable [OF that] assms(2) queue_inv_init [of deliverable sr] by (auto simp: preserved_def router_inv_queue)
  ultimately show ?thesis unfolding queue_inv_def by blast
qed

theorem reachable_states_ok_witness:
  "\<exists>c'. reachable sys_step (process (sr_init (router (cache_of [] []))) []) c' \<and> requests (cache (inst c')) \<noteq> []
    \<and> router_inv (inst c') \<and> queue_all complete (inst c') \<and> routing_table (inst c') = [route1, route2]
    \<and> list_all wire_msg (sock_out (inst c'))"
proof -
  obtain c' where c': "reachable orderly (process (sr_init (router (cache_of [] []))) []) c'"
    "reachable sys_step (process (sr_init (router (cache_of [] []))) []) c'" "requests (cache (inst c')) \<noteq> []"
    using reach_waiting by blast
  then show ?thesis
    using reachable_states_ok [OF c'(2), of "router (cache_of [] [])"] by (auto simp: process_def)
qed

text \<open>C40. Nothing waits forever: when the address a request asks for never answers, six rounds of the timeout thread more
  than a second apart return, empty the queue, and answer every packet that waited, and whose source has a
  route, with an ICMP host unreachable message to its source, if the sources stay in the ARP table meanwhile.\<close>

theorem unanswered_requests_given_up:
  assumes "cache_inv (cache sr)" and "times_ok (cache sr)" and "\<forall>r \<in> set (requests (cache sr)). rq_sent r \<le> t"
    and "spaced t envs" and "length envs = 6" and "\<forall>env \<in> set envs. now env \<le> T"
    and "list_all (ready (expired T sr)) (requests (cache sr))" and "length (requests (cache sr)) \<le> k"
  shows "\<exists>sr'. rounds k (Suc fuel) sr envs = Inr sr' \<and> requests (cache sr') = []
    \<and> (\<forall>r \<in> set (requests (cache sr)). answered envs sr sr' (rq_packets r))"
  using assms by (rule six_rounds)

theorem unanswered_requests_given_up_witness:
  "\<exists>sr'. rounds 1 (Suc 0) (router (cache_of [known host_ip 100] [waiting_since 1000])) (map clock [1002, 1004, 1006, 1008, 1010, 1012]) = Inr sr'
    \<and> requests (cache sr') = []
    \<and> answered (map clock [1002, 1004, 1006, 1008, 1010, 1012]) (router (cache_of [known host_ip 100] [waiting_since 1000])) sr' [waiting_pkt]"
  using unanswered_requests_given_up [of "router (cache_of [known host_ip 100] [waiting_since 1000])" 1000
      "map clock [1002, 1004, 1006, 1008, 1010, 1012]" 1012 1 0]
  by (simp add: expired_router expire_known ready_example times_ok_def)

end
